(* ===== verification/Prelude.thy ===== *)
theory Prelude
  imports
    Complex_Main
    "HOL-Library.AList"
    "HOL-Library.Word"
    "HOL-Library.Multiset"
    "HOL-Library.Char_ord"
    "HOL-Library.List_Lexorder"
begin

text \<open>
  Shared vocabulary of the development.

  \<^item> Machine integers: Go's \<open>uint64\<close> is \<open>64 word\<close>; Go's \<open>int64\<close> is an \<open>int\<close> that every
    arithmetic operation brings back into range with \<open>wrap64\<close>; the conversion
    \<open>int64(x)\<close> of an unsigned value is \<open>sint\<close>.
  \<^item> Go maps (and \<open>utils.CMap\<close>, a typed wrapper of \<open>sync.Map\<close>) are association lists with
    distinct keys: \<open>map_of\<close> loads, \<open>AList.update\<close> stores, \<open>AList.delete\<close> deletes. The order
    in which \<open>range\<close> visits a map is not specified by Go, so every loop over a map takes a
    \<open>range_order\<close>: an arbitrary function that permutes the entries.
  \<^item> The collections \<open>model_simps\<close>, \<open>gomap_simps\<close> and \<open>order_simps\<close> gather the rewrite
    rules the component theories share.
\<close>

named_theorems model_simps \<open>defining equations unfolded when a component is evaluated\<close>
named_theorems gomap_simps \<open>Go maps as association lists\<close>
named_theorems order_simps \<open>folds that are independent of a map's iteration order\<close>

section \<open>Machine integers\<close>

type_synonym u64 = "64 word"
type_synonym u32 = "32 word"
type_synonym byte = "8 word"
type_synonym i64 = int

definition wrap64 :: "int \<Rightarrow> i64" where
  "wrap64 x = signed_take_bit 63 x"

definition in_i64 :: "int \<Rightarrow> bool" where
  "in_i64 x \<longleftrightarrow> - (2 ^ 63) \<le> x \<and> x < 2 ^ 63"

lemma wrap64_id: "in_i64 x \<Longrightarrow> wrap64 x = x"
  by (simp add: wrap64_def in_i64_def signed_take_bit_int_eq_self)

lemma wrap64_range [simp]: "in_i64 (wrap64 x)"
  using signed_take_bit_int_less_exp [of 63 x] signed_take_bit_int_greater_eq_minus_exp [of 63 x]
  by (simp add: in_i64_def wrap64_def)

definition int64 :: "u64 \<Rightarrow> i64" where
  "int64 w = sint w"

definition cmp_u64 :: "u64 \<Rightarrow> u64 \<Rightarrow> int" where
  "cmp_u64 a b = (if a < b then -1 else if b < a then 1 else 0)"

lemma cmp_u64_simps [simp]:
  "cmp_u64 a b = 1 \<longleftrightarrow> b < a"
  "cmp_u64 a b = 0 \<longleftrightarrow> a = b"
  "cmp_u64 a b = -1 \<longleftrightarrow> a < b"
  by (auto simp: cmp_u64_def)

lemma in_i64_int64 [simp]: "in_i64 (int64 w)"
  using sint_ge [of w] sint_lt [of w] by (simp add: in_i64_def int64_def)

lemma int64_small: "uint w < 2 ^ 63 \<Longrightarrow> int64 w = uint w"
  unfolding int64_def sint_uint
  by (rule signed_take_bit_int_eq_self) (auto intro: order_trans [OF _ uint_ge_0])

text \<open>Go's integer division truncates towards zero.\<close>

definition go_quot :: "int \<Rightarrow> int \<Rightarrow> int" where
  "go_quot a b = sgn a * sgn b * (\<bar>a\<bar> div \<bar>b\<bar>)"

lemma go_quot_nonneg: "0 \<le> a \<Longrightarrow> 0 < b \<Longrightarrow> go_quot a b = a div b"
  by (cases "a = 0") (simp_all add: go_quot_def sgn_if)

section \<open>Go maps\<close>

type_synonym ('k, 'v) gomap = "('k \<times> 'v) list"

abbreviation gm_wf :: "('k, 'v) gomap \<Rightarrow> bool" where
  "gm_wf m \<equiv> distinct (map fst m)"

definition gm_keys :: "('k, 'v) gomap \<Rightarrow> 'k list" where
  "gm_keys m = map fst m"

definition gm_equal :: "('k, 'v) gomap \<Rightarrow> ('k, 'v) gomap \<Rightarrow> bool" where
  "gm_equal m n \<longleftrightarrow>
     length m = length n \<and> (\<forall>(k, v) \<in> set m. map_of n k = Some v)"

lemma gm_wf_update [simp]: "gm_wf m \<Longrightarrow> gm_wf (AList.update k v m)"
  by (rule distinct_update)

lemma gm_wf_delete [simp]: "gm_wf m \<Longrightarrow> gm_wf (AList.delete k m)"
  by (rule distinct_delete)

lemma map_of_update [gomap_simps, simp]:
  "map_of (AList.update k v m) = (map_of m)(k \<mapsto> v)"
  by (rule update_conv')

lemma map_of_delete [gomap_simps, simp]:
  "map_of (AList.delete k m) = (map_of m)(k := None)"
  by (rule delete_conv')

lemma gm_ran_wf: "gm_wf m \<Longrightarrow> (k, v) \<in> set m \<longleftrightarrow> map_of m k = Some v"
  by (metis map_of_eq_Some_iff)

lemma gm_equal_iff:
  assumes "gm_wf m" "gm_wf n"
  shows "gm_equal m n \<longleftrightarrow> map_of m = map_of n"
proof
  assume eq: "gm_equal m n"
  have "set m \<subseteq> set n" using eq gm_ran_wf [OF assms(2)] by (auto simp: gm_equal_def)
  moreover have "card (set m) = card (set n)"
    using eq assms by (simp add: gm_equal_def distinct_card distinct_map)
  ultimately have "set m = set n" by (intro card_subset_eq) simp_all
  then show "map_of m = map_of n"
    using gm_ran_wf [OF assms(1)] gm_ran_wf [OF assms(2)] by (metis ext not_Some_eq)
next
  assume eq: "map_of m = map_of n"
  then have "set m = set n"
    using gm_ran_wf [OF assms(1)] gm_ran_wf [OF assms(2)] by auto
  then have "length m = length n" using assms by (metis distinct_card distinct_map)
  with eq show "gm_equal m n" using gm_ran_wf [OF assms(1)] by (auto simp: gm_equal_def)
qed

definition range_order :: "('a list \<Rightarrow> 'a list) \<Rightarrow> bool" where
  "range_order ro \<longleftrightarrow> (\<forall>xs. mset (ro xs) = mset xs)"

lemma range_order_set: "range_order ro \<Longrightarrow> set (ro xs) = set xs"
  by (metis range_order_def set_mset_mset)

lemma range_order_length: "range_order ro \<Longrightarrow> length (ro xs) = length xs"
  by (metis range_order_def size_mset)

lemma range_order_wf: "range_order ro \<Longrightarrow> gm_wf (ro m) \<longleftrightarrow> gm_wf m"
  by (metis mset_eq_imp_distinct_iff mset_map range_order_def)

lemma range_order_map_of:
  assumes "range_order ro" "gm_wf m"
  shows "map_of (ro m) = map_of m"
proof (rule ext)
  fix k
  show "map_of (ro m) k = map_of m k"
    using assms
    by (metis gm_ran_wf not_Some_eq range_order_set range_order_wf)
qed

lemma range_order_rev [simp]: "range_order rev"
  by (simp add: range_order_def)

lemma range_order_id [simp]: "range_order (\<lambda>xs. xs)" "range_order id"
  by (simp_all add: range_order_def)

lemma distinct_map_Cons_neq: "distinct (map f (c # cs)) \<Longrightarrow> d \<in> set cs \<Longrightarrow> f d \<noteq> f c"
  by (auto simp: image_iff)

lemma distinct_map_mid_neq:
  "distinct (map f (xs @ c # cs)) \<Longrightarrow> d \<in> set cs \<Longrightarrow> f d \<noteq> f c"
  by (auto simp: image_iff)

lemma distinct_map_same:
  "distinct (map f xs) \<Longrightarrow> a \<in> set xs \<Longrightarrow> b \<in> set xs \<Longrightarrow> f a = f b \<Longrightarrow> a = b"
  by (simp add: distinct_map inj_on_def)

lemma map_of_fold_update:
  "map_of (fold (\<lambda>(k, v). AList.update k v) xs m) = map_of m ++ map_of (rev xs)"
  by (induction xs arbitrary: m) (auto simp: fun_eq_iff map_add_def split: option.split)

lemma map_of_rev_wf: "gm_wf xs \<Longrightarrow> map_of (rev xs) = map_of xs"
  using range_order_map_of [OF range_order_rev] by blast

end
