(* ===== verification/Specs.thy ===== *)
theory Specs
  imports Prelude
begin

text \<open>
  Method specs (\<open>src/pkg/methods\<close>) and the method sets built from them
  (\<open>src/internal/upstreams/methods/methods.go\<close>).

  The types and validation of one spec file (\<open>data.go\<close>), the translation of its methods
  (\<open>method.go\<close>, \<open>fromMethodData\<close>) and their grouping (\<open>method_groups.go\<close>), the read side of the
  resolved specs (\<open>helpers.go\<close>), and \<open>NewUpstreamMethods\<close>, \<open>ChainMethods\<close> and
  \<open>IsForceEnabled\<close>, which decide which methods an upstream and a chain offer. A jq query is
  represented by its source text; whether \<open>gojq\<close> (third party) accepts it is the parameter
  \<open>jq_ok\<close>.
\<close>

section \<open>Data\<close>

datatype ApiConnectorType =
    UnknownType | JsonRpcConnector | TendermintConnector | RestConnector
  | RestIndexer | GrpcConnector | WebsocketConnector | RestAdditional

fun connector_code :: "ApiConnectorType \<Rightarrow> nat" where
  "connector_code UnknownType = 0"
| "connector_code JsonRpcConnector = 1"
| "connector_code TendermintConnector = 2"
| "connector_code RestConnector = 3"
| "connector_code RestIndexer = 4"
| "connector_code GrpcConnector = 5"
| "connector_code WebsocketConnector = 6"
| "connector_code RestAdditional = 7"

lemma connector_code_inj [simp]: "connector_code a = connector_code b \<longleftrightarrow> a = b"
  by (cases a; cases b) simp_all

instantiation ApiConnectorType :: linorder
begin

definition less_eq_ApiConnectorType :: "ApiConnectorType \<Rightarrow> ApiConnectorType \<Rightarrow> bool" where
  "a \<le> b \<longleftrightarrow> connector_code a \<le> connector_code b"

definition less_ApiConnectorType :: "ApiConnectorType \<Rightarrow> ApiConnectorType \<Rightarrow> bool" where
  "a < b \<longleftrightarrow> connector_code a < connector_code b"

instance
  by standard (auto simp: less_eq_ApiConnectorType_def less_ApiConnectorType_def)

end

definition ApiConnectorType_String :: "ApiConnectorType \<Rightarrow> string" where
  "ApiConnectorType_String a = (case a of
     JsonRpcConnector \<Rightarrow> ''json-rpc''
   | RestConnector \<Rightarrow> ''rest''
   | GrpcConnector \<Rightarrow> ''grpc''
   | WebsocketConnector \<Rightarrow> ''websocket''
   | UnknownType \<Rightarrow> ''unknown''
   | RestIndexer \<Rightarrow> ''rest-indexer''
   | RestAdditional \<Rightarrow> ''rest-additional''
   | TendermintConnector \<Rightarrow> ''tendermint'')"

definition apiConnectors :: "(string, ApiConnectorType) gomap" where
  "apiConnectors =
     [(''json-rpc'', JsonRpcConnector), (''tendermint'', TendermintConnector),
      (''rest'', RestConnector), (''grpc'', GrpcConnector), (''websocket'', WebsocketConnector),
      (''rest-indexer'', RestIndexer), (''rest-additional'', RestAdditional)]"

definition plainApiConnectorTypes :: "ApiConnectorType list" where
  "plainApiConnectorTypes =
     [JsonRpcConnector, TendermintConnector, RestConnector, GrpcConnector,
      WebsocketConnector, RestIndexer]"

definition IsAdditionalApiConnectorType :: "ApiConnectorType \<Rightarrow> bool" where
  "IsAdditionalApiConnectorType t \<longleftrightarrow> t \<in> {RestAdditional}"

definition GetApiConnectorType :: "string \<Rightarrow> ApiConnectorType" where
  "GetApiConnectorType name =
     (case map_of apiConnectors name of None \<Rightarrow> UnknownType | Some c \<Rightarrow> c)"

definition ValidateApiConnectorType :: "string \<Rightarrow> bool" where
  "ValidateApiConnectorType name \<longleftrightarrow> map_of apiConnectors name \<noteq> None"

datatype SpecType = UnknownSpec | BundleSpec | PlainSpec

definition GetSpecType :: "string \<Rightarrow> SpecType" where
  "GetSpecType name =
     (case map_of [(''bundle'', BundleSpec), (''plain'', PlainSpec)] name of
        None \<Rightarrow> UnknownSpec | Some t \<Rightarrow> t)"

record Sticky =
  SendSticky :: bool
  CreateSticky :: bool

record Subscription =
  sIsSubscribe :: bool
  sMethod :: string
  sUnsubMethod :: string

record TagParser =
  ReturnType :: string
  Path :: string

record MethodSettings =
  Cacheable :: "bool option"
  EnforceIntegrity :: bool
  setSticky :: "Sticky option"
  setSubscription :: "Subscription option"
  Local :: bool
  Dispatch :: string

record MethodData =
  dName :: string
  dGroup :: string
  Settings :: "MethodSettings option"
  dTagParser :: "TagParser option"
  Enabled :: "bool option"

record SpecData =
  specName :: string
  specApiConnectors :: "string list"
  specTypeName :: string

record MethodSpec =
  specData :: "SpecData option"
  SpecImports :: "string list"
  specMethods :: "MethodData list"

record Method =
  mName :: string
  mGroup :: string
  mSubscription :: "Subscription option"
  sticky :: "Sticky option"
  apiConnectorTypes :: "ApiConnectorType list"
  parser :: "(string \<times> string) option"
  modifyParser :: "string option"
  enabled :: bool
  cacheable :: bool
  enforceIntegrity :: bool
  local :: bool
  dispatch :: string

definition DefaultMethodGroup :: string where "DefaultMethodGroup = ''default''"
definition SubMethodGroup :: string where "SubMethodGroup = ''sub''"

definition DispatchDefault :: string where "DispatchDefault = ''''"
definition DispatchBroadcast :: string where "DispatchBroadcast = ''broadcast''"
definition DispatchMaximumValue :: string where "DispatchMaximumValue = ''maximum-value''"
definition DispatchNotNull :: string where "DispatchNotNull = ''not-null''"

lemmas group_names = DefaultMethodGroup_def SubMethodGroup_def
lemmas dispatch_names =
  DispatchDefault_def DispatchBroadcast_def DispatchMaximumValue_def DispatchNotNull_def

section \<open>Validation of a spec file\<close>

datatype spec_error =
    MissingSpecData | MissingSpecName | UnknownSpecType
  | BundleConnectorsNotEmpty | BundleMethodsNotEmpty | PlainConnectorsEmpty
  | UnknownDispatchPolicy string | DispatchWithLocal | DispatchWithSubscription
  | DispatchWithSticky | BothSticky | EmptyTagParserPath | WrongReturnType string
  | EmptyMethodName nat | DuplicateMethod string | JqParseError string
  | NilEnabledPanic

definition setDefaults :: "MethodData \<Rightarrow> MethodData" where
  "setDefaults m =
     (let m = (if dGroup m = '''' then m\<lparr>dGroup := ''common''\<rparr> else m);
          m = (if Enabled m = None then m\<lparr>Enabled := Some True\<rparr> else m)
      in case Settings m of
           None \<Rightarrow> m\<lparr>Settings := Some \<lparr>Cacheable = Some True, EnforceIntegrity = False,
                     setSticky = None, setSubscription = None, Local = False, Dispatch = ''''\<rparr>\<rparr>
         | Some s \<Rightarrow>
             (if Cacheable s = None then m\<lparr>Settings := Some (s\<lparr>Cacheable := Some True\<rparr>)\<rparr> else m))"

definition MethodSpec_validate :: "MethodSpec \<Rightarrow> spec_error option" where
  "MethodSpec_validate m =
     (case specData m of
        None \<Rightarrow> Some MissingSpecData
      | Some d \<Rightarrow>
          if specName d = '''' then Some MissingSpecName
          else if GetSpecType (specTypeName d) = UnknownSpec then Some UnknownSpecType
          else if GetSpecType (specTypeName d) = BundleSpec \<and> specApiConnectors d \<noteq> []
            then Some BundleConnectorsNotEmpty
          else if GetSpecType (specTypeName d) = BundleSpec \<and> specMethods m \<noteq> []
            then Some BundleMethodsNotEmpty
          else if GetSpecType (specTypeName d) = PlainSpec \<and> specApiConnectors d = []
            then Some PlainConnectorsEmpty
          else None)"

definition DispatchPolicy_validate :: "string \<Rightarrow> spec_error option" where
  "DispatchPolicy_validate d =
     (if d \<in> {DispatchDefault, DispatchBroadcast, DispatchMaximumValue, DispatchNotNull}
      then None else Some (UnknownDispatchPolicy d))"

definition ParserReturnType_validate :: "string \<Rightarrow> spec_error option" where
  "ParserReturnType_validate p =
     (if p \<in> {''blockRef'', ''blockNumber'', ''string'', ''object'', ''blockRange''}
      then None else Some (WrongReturnType p))"

definition TagParser_validate :: "TagParser \<Rightarrow> spec_error option" where
  "TagParser_validate p =
     (if Path p = '''' then Some EmptyTagParserPath else ParserReturnType_validate (ReturnType p))"

definition MethodSettings_validate :: "MethodSettings \<Rightarrow> spec_error option" where
  "MethodSettings_validate s =
     (case DispatchPolicy_validate (Dispatch s) of
        Some e \<Rightarrow> Some e
      | None \<Rightarrow>
          if Dispatch s \<noteq> DispatchDefault \<and> Local s then Some DispatchWithLocal
          else if Dispatch s \<noteq> DispatchDefault \<and>
            (case setSubscription s of None \<Rightarrow> False | Some b \<Rightarrow> sIsSubscribe b)
            then Some DispatchWithSubscription
          else if Dispatch s \<noteq> DispatchDefault \<and>
            (case setSticky s of None \<Rightarrow> False | Some k \<Rightarrow> SendSticky k \<or> CreateSticky k)
            then Some DispatchWithSticky
          else if (case setSticky s of None \<Rightarrow> False | Some k \<Rightarrow> CreateSticky k \<and> SendSticky k)
            then Some BothSticky
          else None)"

definition MethodData_validate :: "MethodData \<Rightarrow> spec_error option" where
  "MethodData_validate m =
     (case (case dTagParser m of None \<Rightarrow> None | Some p \<Rightarrow> TagParser_validate p) of
        Some e \<Rightarrow> Some e
      | None \<Rightarrow> (case Settings m of None \<Rightarrow> None | Some s \<Rightarrow> MethodSettings_validate s))"

text \<open>The loop of \<open>loadSpec\<close> over the methods of a file: index, names seen so far, and the
  methods with their defaults set.\<close>

fun loadSpec_methods :: "nat \<Rightarrow> string set \<Rightarrow> MethodData list \<Rightarrow> spec_error + MethodData list" where
  "loadSpec_methods i seen [] = Inr []"
| "loadSpec_methods i seen (m # ms) =
     (if dName m = '''' then Inl (EmptyMethodName i)
      else case MethodData_validate m of
        Some e \<Rightarrow> Inl e
      | None \<Rightarrow>
          if dName m \<in> seen then Inl (DuplicateMethod (dName m))
          else (case loadSpec_methods (Suc i) (insert (dName m) seen) ms of
                  Inl e \<Rightarrow> Inl e
                | Inr ms' \<Rightarrow> Inr (setDefaults m # ms')))"

definition loadSpec :: "MethodSpec \<Rightarrow> spec_error + MethodSpec" where
  "loadSpec s =
     (case MethodSpec_validate s of
        Some e \<Rightarrow> Inl e
      | None \<Rightarrow> (case loadSpec_methods 0 {} (specMethods s) of
                   Inl e \<Rightarrow> Inl e
                 | Inr ms \<Rightarrow> Inr (s\<lparr>specMethods := ms\<rparr>)))"

section \<open>Methods\<close>

definition DefaultMethodWithConnectorTypes :: "string \<Rightarrow> ApiConnectorType list \<Rightarrow> Method" where
  "DefaultMethodWithConnectorTypes name cts =
     \<lparr>mName = name, mGroup = '''', mSubscription = None, sticky = None, apiConnectorTypes = cts,
      parser = None, modifyParser = None, enabled = True, cacheable = False,
      enforceIntegrity = False, local = False, dispatch = ''''\<rparr>"

definition IsStickySend :: "Method \<Rightarrow> bool" where
  "IsStickySend m = (case sticky m of None \<Rightarrow> False | Some s \<Rightarrow> SendSticky s)"

definition IsStickyCreate :: "Method \<Rightarrow> bool" where
  "IsStickyCreate m = (case sticky m of None \<Rightarrow> False | Some s \<Rightarrow> CreateSticky s)"

definition IsSubscribe :: "Method \<Rightarrow> bool" where
  "IsSubscribe m = (case mSubscription m of None \<Rightarrow> False | Some s \<Rightarrow> sIsSubscribe s)"

text \<open>\<open>fromMethodData\<close>: the tag parser is compiled first, then the settings are read; a
  sticky-send method with a tag parser also gets a modifying query
  \<open>path = $newValue\<close>. The last step computes \<open>enabled\<close> with \<open>lo.Ternary\<close>, a function
  whose arguments are all evaluated: \<open>*methodData.Enabled\<close> panics on a nil \<open>Enabled\<close> in
  spite of the nil test beside it.\<close>

definition fromMethodData ::
  "(string \<Rightarrow> bool) \<Rightarrow> MethodData \<Rightarrow> ApiConnectorType list \<Rightarrow> spec_error + Method" where
  "fromMethodData jq_ok d cts =
     (if (case dTagParser d of Some p \<Rightarrow> \<not> jq_ok (Path p) | None \<Rightarrow> False)
      then Inl (JqParseError (dName d))
      else
        (let prs = map_option (\<lambda>p. (ReturnType p, Path p)) (dTagParser d);
             base = \<lparr>mName = dName d, mGroup = dGroup d, mSubscription = None, sticky = None,
               apiConnectorTypes = cts, parser = prs, modifyParser = None,
               enabled = True, cacheable = True,
               enforceIntegrity = False, local = False, dispatch = DispatchDefault\<rparr>;
             result = (case Settings d of
                None \<Rightarrow> Inr base
              | Some s \<Rightarrow>
                  (let m = base\<lparr>cacheable := (case Cacheable s of None \<Rightarrow> True | Some b \<Rightarrow> b),
                         mSubscription := setSubscription s,
                         enforceIntegrity := EnforceIntegrity s, local := Local s,
                         dispatch := Dispatch s, sticky := setSticky s\<rparr>
                   in case (setSticky s, dTagParser d) of
                        (Some k, Some p) \<Rightarrow>
                          if SendSticky k then
                            (let q = Path p @ '' = $newValue''
                             in if jq_ok q then Inr (m\<lparr>modifyParser := Some q\<rparr>)
                                else Inl (JqParseError (dName d)))
                          else Inr m
                      | _ \<Rightarrow> Inr m))
         in case result of
              Inl e \<Rightarrow> Inl e
            | Inr m \<Rightarrow> (case Enabled d of
                None \<Rightarrow> Inl NilEnabledPanic
              | Some b \<Rightarrow> Inr (m\<lparr>enabled := b\<rparr>))))"

section \<open>Method groups\<close>

type_synonym methods_map = "(string, Method) gomap"
type_synonym methodGroups = "(string, methods_map) gomap"

definition newMethodGroups :: methodGroups where
  "newMethodGroups = [(DefaultMethodGroup, []), (SubMethodGroup, [])]"

definition ensureGroup :: "string \<Rightarrow> methodGroups \<Rightarrow> methodGroups" where
  "ensureGroup g m = (case map_of m g of Some _ \<Rightarrow> m | None \<Rightarrow> AList.update g [] m)"

definition put_method :: "string \<Rightarrow> string \<Rightarrow> Method \<Rightarrow> methodGroups \<Rightarrow> methodGroups" where
  "put_method g name meth m =
     AList.update g (AList.update name meth (case map_of m g of None \<Rightarrow> [] | Some ms \<Rightarrow> ms)) m"

definition methodGroups_add :: "string \<Rightarrow> Method \<Rightarrow> methodGroups \<Rightarrow> methodGroups" where
  "methodGroups_add g meth m =
     (let m = put_method g (mName meth) meth (ensureGroup g m);
          m = put_method DefaultMethodGroup (mName meth) meth m
      in if IsSubscribe meth then put_method SubMethodGroup (mName meth) meth m else m)"

fun newMethodGroupsFromSpec_loop ::
  "(string \<Rightarrow> bool) \<Rightarrow> ApiConnectorType list \<Rightarrow> bool \<Rightarrow> methodGroups \<Rightarrow> MethodData list
     \<Rightarrow> spec_error + methodGroups" where
  "newMethodGroupsFromSpec_loop jq_ok cts rd acc [] = Inr acc"
| "newMethodGroupsFromSpec_loop jq_ok cts rd acc (d # ds) =
     (if rd \<and> Enabled d = None then Inl NilEnabledPanic
      else if rd \<and> Enabled d = Some False then newMethodGroupsFromSpec_loop jq_ok cts rd acc ds
      else case fromMethodData jq_ok d cts of
        Inl e \<Rightarrow> Inl e
      | Inr meth \<Rightarrow>
          newMethodGroupsFromSpec_loop jq_ok cts rd (methodGroups_add (dGroup d) meth acc) ds)"

definition newMethodGroupsFromSpec ::
  "(string \<Rightarrow> bool) \<Rightarrow> MethodSpec \<Rightarrow> ApiConnectorType list \<Rightarrow> bool \<Rightarrow> spec_error + methodGroups"
where
  "newMethodGroupsFromSpec jq_ok s cts rd =
     newMethodGroupsFromSpec_loop jq_ok cts rd newMethodGroups (specMethods s)"

definition defaultMethods :: "methodGroups \<Rightarrow> methods_map" where
  "defaultMethods m = (case map_of m DefaultMethodGroup of None \<Rightarrow> [] | Some ms \<Rightarrow> ms)"

definition subMethods :: "methodGroups \<Rightarrow> methods_map" where
  "subMethods m = (case map_of m SubMethodGroup of None \<Rightarrow> [] | Some ms \<Rightarrow> ms)"

definition methodGroups_method :: "methodGroups \<Rightarrow> string \<Rightarrow> Method option" where
  "methodGroups_method m name = map_of (defaultMethods m) name"

section \<open>Resolved specs\<close>

record connectorMethods =
  byConnector :: "(ApiConnectorType, methodGroups) gomap"
  cmApiConnectors :: "ApiConnectorType list"

record resolvedSpec =
  rsMethods :: "methodGroups option"
  rsConnectors :: "connectorMethods option"

type_synonym resolvedSpecs = "(string, resolvedSpec) gomap"

text \<open>\<open>overlayMethodGroups\<close>: the two loops range over Go maps, so each has its own iteration
  order. The state is the destination and the set of method names already taken.\<close>

definition overlay_method ::
  "string \<Rightarrow> string \<times> Method \<Rightarrow> methodGroups \<times> string set \<Rightarrow> methodGroups \<times> string set" where
  "overlay_method g = (\<lambda>(name, meth) (dst, sel).
     if name \<in> sel then (dst, sel)
     else
       (let dst = put_method g name meth dst;
            dst = put_method DefaultMethodGroup name meth dst;
            dst = (if IsSubscribe meth then put_method SubMethodGroup name meth dst else dst)
        in (dst, insert name sel)))"

definition overlay_group ::
  "(methods_map \<Rightarrow> methods_map) \<Rightarrow> string \<times> methods_map
     \<Rightarrow> methodGroups \<times> string set \<Rightarrow> methodGroups \<times> string set" where
  "overlay_group roM = (\<lambda>(g, ms) (dst, sel).
     if g = DefaultMethodGroup \<or> g = SubMethodGroup then (dst, sel)
     else fold (overlay_method g) (roM ms) (ensureGroup g dst, sel))"

definition overlayMethodGroups ::
  "(methodGroups \<Rightarrow> methodGroups) \<Rightarrow> (methods_map \<Rightarrow> methods_map)
     \<Rightarrow> methodGroups \<Rightarrow> methodGroups \<times> string set \<Rightarrow> methodGroups \<times> string set" where
  "overlayMethodGroups roG roM src acc = fold (overlay_group roM) (roG src) acc"

definition GetSpecMethodsByConnectors ::
  "(methodGroups \<Rightarrow> methodGroups) \<Rightarrow> (methods_map \<Rightarrow> methods_map)
     \<Rightarrow> resolvedSpecs \<Rightarrow> string \<Rightarrow> ApiConnectorType list \<Rightarrow> methodGroups option" where
  "GetSpecMethodsByConnectors roG roM specs name cts =
     (case map_of specs name of
        None \<Rightarrow> None
      | Some spec \<Rightarrow>
          (case rsMethods spec of
             None \<Rightarrow> None
           | Some groups \<Rightarrow>
               if cts = [] then Some groups
               else case rsConnectors spec of
                      None \<Rightarrow> Some newMethodGroups
                    | Some cm \<Rightarrow>
                        Some (fst (fold (\<lambda>ct acc.
                               (case map_of (byConnector cm) ct of
                                  None \<Rightarrow> acc
                                | Some src \<Rightarrow> overlayMethodGroups roG roM src acc))
                              cts (newMethodGroups, {})))))"

definition GetSpecConnectors :: "resolvedSpecs \<Rightarrow> string \<Rightarrow> ApiConnectorType list" where
  "GetSpecConnectors specs name =
     (case map_of specs name of
        None \<Rightarrow> []
      | Some spec \<Rightarrow> (case rsConnectors spec of None \<Rightarrow> [] | Some cm \<Rightarrow> cmApiConnectors cm))"

definition getMethodGroups :: "resolvedSpecs \<Rightarrow> string \<Rightarrow> methodGroups option" where
  "getMethodGroups specs name =
     (case map_of specs name of None \<Rightarrow> None | Some spec \<Rightarrow> rsMethods spec)"

definition GetSpecMethod :: "resolvedSpecs \<Rightarrow> string \<Rightarrow> string \<Rightarrow> Method option" where
  "GetSpecMethod specs spec meth =
     (case getMethodGroups specs spec of
        None \<Rightarrow> None | Some groups \<Rightarrow> methodGroups_method groups meth)"

definition GetSpecMethodWithFallback :: "resolvedSpecs \<Rightarrow> string \<Rightarrow> string \<Rightarrow> Method" where
  "GetSpecMethodWithFallback specs spec meth =
     (case GetSpecMethod specs spec meth of
        Some m \<Rightarrow> m
      | None \<Rightarrow> DefaultMethodWithConnectorTypes meth (GetSpecConnectors specs spec))"

definition GetSubMethods :: "resolvedSpecs \<Rightarrow> string \<Rightarrow> string set" where
  "GetSubMethods specs spec =
     (case getMethodGroups specs spec of
        None \<Rightarrow> {} | Some groups \<Rightarrow> fst ` set (subMethods groups))"

definition subscribeSettings :: "resolvedSpecs \<Rightarrow> string \<Rightarrow> string \<Rightarrow> Subscription option" where
  "subscribeSettings specs spec meth =
     (case GetSpecMethod specs spec meth of None \<Rightarrow> None | Some m \<Rightarrow> mSubscription m)"

definition IsSubscribeMethod :: "resolvedSpecs \<Rightarrow> string \<Rightarrow> string \<Rightarrow> bool" where
  "IsSubscribeMethod specs spec meth =
     (case subscribeSettings specs spec meth of None \<Rightarrow> False | Some s \<Rightarrow> sIsSubscribe s)"

definition GetUnsubscribeMethod :: "resolvedSpecs \<Rightarrow> string \<Rightarrow> string \<Rightarrow> string \<times> bool" where
  "GetUnsubscribeMethod specs spec meth =
     (case subscribeSettings specs spec meth of
        None \<Rightarrow> ([], False) | Some s \<Rightarrow> (sUnsubMethod s, True))"

section \<open>The methods an upstream and a chain offer\<close>

record MethodsConfig =
  EnableMethods :: "string list"
  DisableMethods :: "string list"

datatype Methods =
    UpstreamMethods methods_map "string set"
  | ChainMethods "Methods list" "string set"

fun GetSupportedMethods :: "Methods \<Rightarrow> string set" where
  "GetSupportedMethods (UpstreamMethods _ names) = names"
| "GetSupportedMethods (ChainMethods _ names) = names"

definition HasMethod :: "Methods \<Rightarrow> string \<Rightarrow> bool" where
  "HasMethod m name \<longleftrightarrow> name \<in> GetSupportedMethods m"

fun GetMethod :: "Methods \<Rightarrow> string \<Rightarrow> Method option"
and GetMethod_delegates :: "Methods list \<Rightarrow> string \<Rightarrow> Method option" where
  "GetMethod (UpstreamMethods am names) name =
     (if \<not> HasMethod (UpstreamMethods am names) name then None else map_of am name)"
| "GetMethod (ChainMethods ds names) name = GetMethod_delegates ds name"
| "GetMethod_delegates [] name = None"
| "GetMethod_delegates (d # ds) name =
     (if HasMethod d name then GetMethod d name else GetMethod_delegates ds name)"

definition disable_one :: "methodGroups \<Rightarrow> string \<Rightarrow> methods_map \<Rightarrow> methods_map" where
  "disable_one groups d am =
     (case map_of groups d of
        Some ms \<Rightarrow> fold AList.delete (map fst ms) am
      | None \<Rightarrow> AList.delete d am)"

definition enable_one ::
  "methodGroups \<Rightarrow> ApiConnectorType list \<Rightarrow> string \<Rightarrow> methods_map \<Rightarrow> methods_map" where
  "enable_one groups cts e am =
     (case map_of groups e of
        Some ms \<Rightarrow> fold (\<lambda>(name, meth). AList.update name meth) ms am
      | None \<Rightarrow>
          (case map_of (defaultMethods groups) e of
             Some meth \<Rightarrow> AList.update e meth am
           | None \<Rightarrow> AList.update e (DefaultMethodWithConnectorTypes e cts) am))"

definition NewUpstreamMethods ::
  "(methodGroups \<Rightarrow> methodGroups) \<Rightarrow> (methods_map \<Rightarrow> methods_map)
     \<Rightarrow> resolvedSpecs \<Rightarrow> string \<Rightarrow> MethodsConfig option \<Rightarrow> ApiConnectorType list \<Rightarrow> Methods option"
where
  "NewUpstreamMethods roG roM specs name cfg cts =
     (let cfg = (case cfg of None \<Rightarrow> \<lparr>EnableMethods = [], DisableMethods = []\<rparr> | Some c \<Rightarrow> c)
      in case GetSpecMethodsByConnectors roG roM specs name cts of
        None \<Rightarrow> None
      | Some groups \<Rightarrow>
          (let am = fold (disable_one groups) (DisableMethods cfg) (defaultMethods groups);
               am = fold (enable_one groups (GetSpecConnectors specs name)) (EnableMethods cfg) am
           in Some (UpstreamMethods am (fst ` set am))))"

definition NewChainMethods :: "Methods list \<Rightarrow> Methods" where
  "NewChainMethods delegates =
     ChainMethods delegates (fold (\<lambda>d acc. acc \<union> GetSupportedMethods d) delegates {})"

definition IsForceEnabled :: "MethodsConfig option \<Rightarrow> Method option \<Rightarrow> bool" where
  "IsForceEnabled cfg meth =
     (case (cfg, meth) of
        (Some c, Some m) \<Rightarrow>
          list_ex (\<lambda>e. e = mName m \<or> e = DefaultMethodGroup
             \<or> (mGroup m \<noteq> [] \<and> e = mGroup m)
             \<or> (e = SubMethodGroup \<and> IsSubscribe m)) (EnableMethods c)
      | _ \<Rightarrow> False)"

section \<open>Which methods are offered\<close>

definition expand_group :: "methodGroups \<Rightarrow> string \<Rightarrow> string set" where
  "expand_group groups d = (case map_of groups d of Some ms \<Rightarrow> fst ` set ms | None \<Rightarrow> {d})"

lemma keys_update [gomap_simps]: "fst ` set (AList.update k v m) = insert k (fst ` set m)"
  by (simp add: dom_update)

lemma keys_delete [gomap_simps]: "fst ` set (AList.delete k m) = fst ` set m - {k}"
  by (induction m) auto

lemma keys_fold_delete: "fst ` set (fold AList.delete ks m) = fst ` set m - set ks"
  by (induction ks arbitrary: m) (auto simp: keys_delete)

lemma keys_fold_update:
  "fst ` set (fold (\<lambda>(n, x). AList.update n x) xs m) = fst ` set m \<union> fst ` set xs"
proof (induction xs arbitrary: m)
  case (Cons x xs)
  then show ?case by (cases x) (simp add: keys_update)
qed simp

lemma keys_disable_one:
  "fst ` set (disable_one groups d am) = fst ` set am - expand_group groups d"
  by (simp add: disable_one_def expand_group_def keys_fold_delete keys_delete split: option.split)

lemma keys_enable_one:
  "fst ` set (enable_one groups cts e am) = fst ` set am \<union> expand_group groups e"
  by (simp add: enable_one_def expand_group_def keys_fold_update keys_update split: option.split)

lemma keys_fold_disable:
  "fst ` set (fold (disable_one groups) ds am) = fst ` set am - (\<Union>d \<in> set ds. expand_group groups d)"
  by (induction ds arbitrary: am) (auto simp: keys_disable_one simp del: set_map)

lemma keys_fold_enable:
  "fst ` set (fold (enable_one groups cts) es am) = fst ` set am \<union> (\<Union>e \<in> set es. expand_group groups e)"
  by (induction es arbitrary: am) (simp_all add: keys_enable_one Un_assoc)

lemmas method_keys = keys_fold_disable keys_fold_enable

lemma NewUpstreamMethods_names:
  assumes "GetSpecMethodsByConnectors roG roM specs name cts = Some groups"
    and "NewUpstreamMethods roG roM specs name (Some cfg) cts = Some ms"
  shows "GetSupportedMethods ms =
     (fst ` set (defaultMethods groups) - (\<Union>d \<in> set (DisableMethods cfg). expand_group groups d))
     \<union> (\<Union>e \<in> set (EnableMethods cfg). expand_group groups e)"
proof -
  from assms have "ms = UpstreamMethods
      (fold (enable_one groups (GetSpecConnectors specs name)) (EnableMethods cfg)
        (fold (disable_one groups) (DisableMethods cfg) (defaultMethods groups)))
      (fst ` set (fold (enable_one groups (GetSpecConnectors specs name)) (EnableMethods cfg)
        (fold (disable_one groups) (DisableMethods cfg) (defaultMethods groups))))"
    by (simp add: NewUpstreamMethods_def Let_def)
  then show ?thesis by (simp add: method_keys)
qed

subsection \<open>Group indexes\<close>

text \<open>
  \<open>grouped\<close>: in a connector's view, every method of a group other than the synthetic ones
  carries that group's name and is stored under its own name. \<open>indexed\<close>: every method of the
  default group can be found in the group it names, and in \<open>sub\<close> when it is a subscription.
\<close>

definition group_names_of :: "methodGroups \<Rightarrow> string \<Rightarrow> string set" where
  "group_names_of groups g = (case map_of groups g of None \<Rightarrow> {} | Some ms \<Rightarrow> fst ` set ms)"

definition grouped :: "methodGroups \<Rightarrow> bool" where
  "grouped src \<longleftrightarrow> (\<forall>(g, ms) \<in> set src. g \<noteq> DefaultMethodGroup \<and> g \<noteq> SubMethodGroup \<longrightarrow>
     (\<forall>(n, m) \<in> set ms. mName m = n \<and> mGroup m = g))"

definition indexed_at :: "methodGroups \<Rightarrow> string \<Rightarrow> Method \<Rightarrow> bool" where
  "indexed_at groups n m \<longleftrightarrow>
     mName m = n \<and> n \<in> group_names_of groups (mGroup m)
     \<and> (IsSubscribe m \<longrightarrow> n \<in> group_names_of groups SubMethodGroup)"

definition indexed :: "methodGroups \<Rightarrow> bool" where
  "indexed groups \<longleftrightarrow>
     map_of groups DefaultMethodGroup \<noteq> None \<and> map_of groups SubMethodGroup \<noteq> None \<and>
     (\<forall>n m. map_of (defaultMethods groups) n = Some m \<longrightarrow> indexed_at groups n m)"

lemma indexed_at_mono:
  assumes "indexed_at groups n m" and "\<And>g. group_names_of groups g \<subseteq> group_names_of groups' g"
  shows "indexed_at groups' n m"
  using assms by (auto simp: indexed_at_def)

lemma map_of_put_method:
  "map_of (put_method g n x m) =
     (map_of m)(g \<mapsto> AList.update n x (case map_of m g of None \<Rightarrow> [] | Some ms \<Rightarrow> ms))"
  by (simp add: put_method_def)

lemma group_names_put_method:
  "group_names_of (put_method g n x m) g' =
     (if g' = g then insert n (group_names_of m g') else group_names_of m g')"
  by (simp add: group_names_of_def map_of_put_method keys_update split: option.split)

lemma defaultMethods_put_method:
  "defaultMethods (put_method g n x m) =
     (if g = DefaultMethodGroup then AList.update n x (defaultMethods m) else defaultMethods m)"
  by (simp add: defaultMethods_def map_of_put_method)

lemma ensureGroup_simps:
  "group_names_of (ensureGroup g m) g' = group_names_of m g'"
  "map_of (ensureGroup g m) g' = None \<longleftrightarrow> g' \<noteq> g \<and> map_of m g' = None"
  by (auto simp: ensureGroup_def group_names_of_def split: option.split)

lemma defaultMethods_ensureGroup: "defaultMethods (ensureGroup g m) = defaultMethods m"
  by (auto simp: ensureGroup_def defaultMethods_def split: option.split)

lemmas group_put_simps =
  group_names_put_method defaultMethods_put_method map_of_put_method
  ensureGroup_simps defaultMethods_ensureGroup

lemma indexed_new: "indexed newMethodGroups"
  by (simp add: indexed_def newMethodGroups_def group_names defaultMethods_def)

lemma indexed_ensureGroup: "indexed m \<Longrightarrow> indexed (ensureGroup g m)"
  by (simp add: indexed_def indexed_at_def group_put_simps)

definition put_all :: "string \<Rightarrow> string \<Rightarrow> Method \<Rightarrow> methodGroups \<Rightarrow> methodGroups" where
  "put_all g n x m =
     (let m = put_method g n x m; m = put_method DefaultMethodGroup n x m
      in if IsSubscribe x then put_method SubMethodGroup n x m else m)"

lemma put_all_mono: "group_names_of m h \<subseteq> group_names_of (put_all g n x m) h"
  by (auto simp: put_all_def Let_def group_names_put_method)

lemma put_all_default:
  "map_of (defaultMethods (put_all g n x m)) = (map_of (defaultMethods m))(n \<mapsto> x)"
  by (simp add: put_all_def Let_def defaultMethods_put_method group_names)

lemma put_all_dom: "map_of (put_all g n x m) h = None \<Longrightarrow> map_of m h = None \<and> h \<noteq> g"
  by (simp add: put_all_def Let_def map_of_put_method split: if_splits)

lemma put_all_indexed_at:
  "mName x = n \<Longrightarrow> mGroup x = g \<Longrightarrow> indexed_at (put_all g n x m) n x"
  by (simp add: indexed_at_def put_all_def Let_def group_names_put_method)

lemma indexed_put:
  assumes "indexed m" and "mName x = n" and "mGroup x = g"
  shows "indexed (put_all g n x m)"
  unfolding indexed_def
proof (intro conjI allI impI)
  show "map_of (put_all g n x m) DefaultMethodGroup \<noteq> None"
    and "map_of (put_all g n x m) SubMethodGroup \<noteq> None"
    using assms(1) put_all_dom [of g n x m] by (metis indexed_def)+
  fix k y
  assume "map_of (defaultMethods (put_all g n x m)) k = Some y"
  then show "indexed_at (put_all g n x m) k y"
    using assms put_all_indexed_at [OF assms(2,3)] indexed_at_mono [OF _ put_all_mono]
    by (auto simp: put_all_default indexed_def split: if_splits)
qed

lemma methodGroups_add_indexed:
  assumes "indexed m" and "mGroup x = g"
  shows "indexed (methodGroups_add g x m)"
  using indexed_put [OF indexed_ensureGroup [OF assms(1), of g] refl assms(2)]
  by (simp add: methodGroups_add_def put_all_def)

lemma overlay_method_eq:
  "overlay_method g (n, x) acc =
     (if n \<in> snd acc then acc else (put_all g n x (fst acc), insert n (snd acc)))"
  by (simp add: overlay_method_def put_all_def Let_def case_prod_unfold)

lemma overlay_methods_indexed:
  assumes "\<forall>(n, x) \<in> set ms. mName x = n \<and> mGroup x = g" and "indexed (fst acc)"
  shows "indexed (fst (fold (overlay_method g) ms acc))"
  using assms
proof (induction ms arbitrary: acc)
  case (Cons a ms)
  obtain n x where a: "a = (n, x)" by (cases a)
  from Cons.prems a have "indexed (fst (overlay_method g a acc))"
    by (auto simp: overlay_method_eq intro: indexed_put)
  with Cons show ?case by simp
qed simp

lemma overlay_group_indexed:
  assumes ro: "range_order roM" and idx: "indexed (fst acc)"
    and gr: "g \<noteq> DefaultMethodGroup \<and> g \<noteq> SubMethodGroup \<Longrightarrow>
      \<forall>(n, x) \<in> set ms. mName x = n \<and> mGroup x = g"
  shows "indexed (fst (overlay_group roM (g, ms) acc))"
proof (cases "g = DefaultMethodGroup \<or> g = SubMethodGroup")
  case True
  with idx show ?thesis by (simp add: overlay_group_def case_prod_unfold)
next
  case False
  then have "\<forall>(n, x) \<in> set (roM ms). mName x = n \<and> mGroup x = g"
    using gr range_order_set [OF ro] by simp
  then have "indexed (fst (fold (overlay_method g) (roM ms) (ensureGroup g (fst acc), snd acc)))"
    by (rule overlay_methods_indexed) (simp add: indexed_ensureGroup idx)
  with False show ?thesis by (simp add: overlay_group_def case_prod_unfold)
qed

lemma overlay_groups_indexed:
  assumes "range_order roM" and "indexed (fst acc)"
    and "\<forall>(g, ms) \<in> set src. g \<noteq> DefaultMethodGroup \<and> g \<noteq> SubMethodGroup \<longrightarrow>
      (\<forall>(n, x) \<in> set ms. mName x = n \<and> mGroup x = g)"
  shows "indexed (fst (fold (overlay_group roM) src acc))"
  using assms(2,3)
proof (induction src arbitrary: acc)
  case (Cons a src)
  then show ?case
    using overlay_group_indexed [OF assms(1), of acc "fst a" "snd a"] by (cases a) simp
qed simp

lemma overlayMethodGroups_indexed:
  assumes "range_order roG" "range_order roM" "grouped src" "indexed (fst acc)"
  shows "indexed (fst (overlayMethodGroups roG roM src acc))"
  unfolding overlayMethodGroups_def
  using assms by (intro overlay_groups_indexed) (simp_all add: range_order_set grouped_def)

lemma GetSpecMethodsByConnectors_indexed:
  assumes ro: "range_order roG" "range_order roM"
    and spec: "map_of specs name = Some rs" "rsConnectors rs = Some cm"
    and gr: "\<forall>(ct, src) \<in> set (byConnector cm). grouped src"
    and res: "GetSpecMethodsByConnectors roG roM specs name cts = Some groups" and ne: "cts \<noteq> []"
  shows "indexed groups"
proof -
  have step: "indexed (fst (case map_of (byConnector cm) ct of
      None \<Rightarrow> acc | Some src \<Rightarrow> overlayMethodGroups roG roM src acc))"
    if "indexed (fst acc)" for ct acc
    using that gr by (auto split: option.split dest!: map_of_SomeD
        intro!: overlayMethodGroups_indexed [OF ro])
  have "indexed (fst (fold (\<lambda>ct acc. case map_of (byConnector cm) ct of
      None \<Rightarrow> acc | Some src \<Rightarrow> overlayMethodGroups roG roM src acc) cts acc))"
    if "indexed (fst acc)" for acc
    using that by (induction cts arbitrary: acc) (simp_all add: step)
  from this [of "(newMethodGroups, {})"] indexed_new res ne spec show ?thesis
    by (auto simp: GetSpecMethodsByConnectors_def split: option.splits)
qed

text \<open>A force-enabled method survives every disable list.\<close>

lemma expand_group_names: "n \<in> group_names_of groups g \<Longrightarrow> n \<in> expand_group groups g"
  by (simp add: group_names_of_def expand_group_def split: option.splits)

lemma default_expands:
  "map_of (defaultMethods groups) n = Some m \<Longrightarrow> n \<in> expand_group groups DefaultMethodGroup"
  by (auto simp: defaultMethods_def expand_group_def split: option.splits
      dest!: map_of_SomeD intro: rev_image_eqI)

lemma expand_group_of_force_enabled:
  assumes idx: "indexed_at groups n m" and def: "map_of (defaultMethods groups) n = Some m"
    and frc: "IsForceEnabled (Some cfg) (Some m)"
  shows "n \<in> set (EnableMethods cfg) \<or> (\<exists>e \<in> set (EnableMethods cfg). n \<in> expand_group groups e)"
proof -
  from frc obtain e where e: "e \<in> set (EnableMethods cfg)"
    and cases: "e = mName m \<or> e = DefaultMethodGroup \<or> e = mGroup m \<or> (e = SubMethodGroup \<and> IsSubscribe m)"
    by (auto simp: IsForceEnabled_def list_ex_iff)
  from cases show ?thesis
  proof (elim disjE)
    assume "e = mName m" with e idx show ?thesis by (auto simp: indexed_at_def)
  next
    assume "e = DefaultMethodGroup" with e default_expands [OF def] show ?thesis by blast
  next
    assume "e = mGroup m"
    with idx have "n \<in> expand_group groups e" by (simp add: indexed_at_def expand_group_names)
    with e show ?thesis by blast
  next
    assume "e = SubMethodGroup \<and> IsSubscribe m"
    with idx have "n \<in> expand_group groups e" by (simp add: indexed_at_def expand_group_names)
    with e show ?thesis by blast
  qed
qed

lemma force_enabled_supported:
  assumes res: "NewUpstreamMethods roG roM specs name (Some cfg) cts = Some ms"
    and grp: "GetSpecMethodsByConnectors roG roM specs name cts = Some groups"
    and idx: "indexed groups" and def: "map_of (defaultMethods groups) n = Some m"
    and nogroup: "map_of groups n = None"
    and frc: "IsForceEnabled (Some cfg) (Some m)"
  shows "HasMethod ms n"
proof -
  from idx def have "indexed_at groups n m" by (simp add: indexed_def)
  from expand_group_of_force_enabled [OF this def frc]
  obtain e where "e \<in> set (EnableMethods cfg)" "n \<in> expand_group groups e"
  proof (elim disjE bexE)
    assume "n \<in> set (EnableMethods cfg)"
    with nogroup that show thesis by (force simp: expand_group_def)
  qed (rule that)
  then show ?thesis
    using NewUpstreamMethods_names [OF grp res] by (auto simp: HasMethod_def)
qed

lemma HasMethod_NewChainMethods:
  "HasMethod (NewChainMethods ds) n \<longleftrightarrow> (\<exists>d \<in> set ds. HasMethod d n)"
proof -
  have "n \<in> fold (\<lambda>d acc. acc \<union> GetSupportedMethods d) ds acc
    \<longleftrightarrow> n \<in> acc \<or> (\<exists>d \<in> set ds. n \<in> GetSupportedMethods d)" for acc
    by (induction ds arbitrary: acc) auto
  then show ?thesis by (simp add: HasMethod_def NewChainMethods_def)
qed

lemma GetMethod_NewUpstreamMethods:
  assumes "NewUpstreamMethods roG roM specs name cfg cts = Some ms" and "HasMethod ms n"
  shows "\<exists>m. GetMethod ms n = Some m"
  using assms
  by (auto simp: NewUpstreamMethods_def HasMethod_def Let_def split: option.splits)
    (metis fst_conv map_of_eq_None_iff not_Some_eq image_eqI)+

lemma GetMethod_NewChainMethods:
  assumes "\<And>d n. d \<in> set ds \<Longrightarrow> HasMethod d n \<Longrightarrow> \<exists>m. GetMethod d n = Some m"
    and "HasMethod (NewChainMethods ds) n"
  shows "\<exists>d \<in> set ds. HasMethod d n \<and> GetMethod (NewChainMethods ds) n = GetMethod d n
     \<and> GetMethod d n \<noteq> None"
proof -
  have "\<exists>d \<in> set ds. HasMethod d n \<and> GetMethod_delegates ds n = GetMethod d n"
    if "\<exists>d \<in> set ds. HasMethod d n"
    using that by (induction ds) auto
  then obtain d where "d \<in> set ds" "HasMethod d n" "GetMethod_delegates ds n = GetMethod d n"
    using assms(2) by (auto simp: HasMethod_NewChainMethods)
  moreover from assms(1) [OF this(1,2)] have "GetMethod d n \<noteq> None" by auto
  ultimately show ?thesis by (auto simp: NewChainMethods_def)
qed

subsection \<open>Accepted spec files\<close>

lemma loadSpec_methods_ok:
  assumes "loadSpec_methods i seen ds = Inr ds'"
  shows "map dName ds' = map dName ds \<and> distinct (map dName ds)
     \<and> (\<forall>d \<in> set ds. dName d \<noteq> [] \<and> MethodData_validate d = None \<and> dName d \<notin> seen)
     \<and> ds' = map setDefaults ds"
  using assms
proof (induction i seen ds arbitrary: ds' rule: loadSpec_methods.induct)
  case (2 i seen m ms)
  have name: "dName (setDefaults m) = dName m"
    by (simp add: setDefaults_def Let_def split: option.split)
  from 2 name show ?case
    by (auto split: if_splits option.splits sum.splits)
qed simp

lemma setDefaults_total: "Enabled (setDefaults d) \<noteq> None \<and> dGroup (setDefaults d) \<noteq> []
    \<and> (\<exists>s. Settings (setDefaults d) = Some s \<and> Cacheable s \<noteq> None)"
  by (auto simp: setDefaults_def Let_def split: option.split)

lemma fromMethodData_name:
  "fromMethodData jq_ok d cts = Inr m \<Longrightarrow> mName m = dName d \<and> mGroup m = dGroup d"
  by (auto simp: fromMethodData_def Let_def split: if_splits option.splits prod.splits)

lemma newMethodGroupsFromSpec_loop_indexed:
  assumes "newMethodGroupsFromSpec_loop jq_ok cts rd acc ds = Inr groups" and "indexed acc"
  shows "indexed groups"
  using assms
proof (induction jq_ok cts rd acc ds rule: newMethodGroupsFromSpec_loop.induct)
  case (2 jq_ok cts rd acc d ds)
  then show ?case
    by (auto split: if_splits sum.splits
        intro: methodGroups_add_indexed dest: fromMethodData_name)
qed simp

lemma fromMethodData_total:
  assumes "\<And>q. jq_ok q" and "Enabled d \<noteq> None"
  shows "\<exists>m. fromMethodData jq_ok d cts = Inr m"
  using assms
  by (cases "dTagParser d"; cases "Settings d"; cases "Enabled d")
    (auto simp: fromMethodData_def Let_def split: option.split)

text \<open>The names a spec file contributes to the default group.\<close>

lemma methodGroups_add_default:
  "fst ` set (defaultMethods (methodGroups_add g x m)) = insert (mName x) (fst ` set (defaultMethods m))"
  by (simp add: methodGroups_add_def Let_def defaultMethods_put_method defaultMethods_ensureGroup
      keys_update)

lemma newMethodGroupsFromSpec_loop_total:
  assumes "\<forall>q. jq_ok q" and "\<forall>d \<in> set ds. Enabled d \<noteq> None"
  shows "\<exists>groups. newMethodGroupsFromSpec_loop jq_ok cts rd acc ds = Inr groups
     \<and> fst ` set (defaultMethods groups) = fst ` set (defaultMethods acc)
         \<union> dName ` {d \<in> set ds. \<not> (rd \<and> Enabled d = Some False)}"
  using assms(2)
proof (induction ds arbitrary: acc)
  case (Cons d ds)
  have en: "Enabled d \<noteq> None" and rest: "\<forall>d \<in> set ds. Enabled d \<noteq> None" using Cons.prems by auto
  obtain m where m: "fromMethodData jq_ok d cts = Inr m"
    using fromMethodData_total [of jq_ok d cts] assms(1) en by blast
  have name: "mName m = dName d" using fromMethodData_name [OF m] by simp
  have split: "{e \<in> set (d # ds). \<not> (rd \<and> Enabled e = Some False)} =
      (if rd \<and> Enabled d = Some False then {} else {d}) \<union> {e \<in> set ds. \<not> (rd \<and> Enabled e = Some False)}"
    by auto
  show ?case
  proof (cases "rd \<and> Enabled d = Some False")
    case True
    then show ?thesis using Cons.IH [OF rest, of acc] unfolding split by simp
  next
    case False
    then show ?thesis
      using Cons.IH [OF rest, of "methodGroups_add (dGroup d) m acc"] en m name unfolding split
      by (auto simp: methodGroups_add_default)
  qed
qed simp

lemma setDefaults_keeps:
  "dName (setDefaults d) = dName d"
  "Enabled (setDefaults d) = Some False \<longleftrightarrow> Enabled d = Some False"
  by (auto simp: setDefaults_def Let_def split: option.split)

lemma loadSpec_Inr:
  "loadSpec s = Inr s' \<Longrightarrow> specMethods s' = map setDefaults (specMethods s)
     \<and> distinct (map dName (specMethods s))"
  using loadSpec_methods_ok [of 0 "{}" "specMethods s"]
  by (auto simp: loadSpec_def split: option.splits sum.splits)

section \<open>A small spec\<close>

text \<open>Three methods of one JSON-RPC spec, for the concrete instances below: a call, a trace method
  of another group, and a subscription.\<close>

definition sample_method :: "string \<Rightarrow> string \<Rightarrow> Subscription option \<Rightarrow> Method" where
  "sample_method n g s =
     \<lparr>mName = n, mGroup = g, mSubscription = s, sticky = None,
      apiConnectorTypes = [JsonRpcConnector], parser = None, modifyParser = None, enabled = True,
      cacheable = True, enforceIntegrity = False, local = False, dispatch = []\<rparr>"

definition sample_groups :: methodGroups where
  "sample_groups =
     [(''default'',
        [(''eth_call'', sample_method ''eth_call'' ''common'' None),
         (''trace_block'', sample_method ''trace_block'' ''trace'' None)]),
      (''sub'', []),
      (''common'', [(''eth_call'', sample_method ''eth_call'' ''common'' None)]),
      (''trace'', [(''trace_block'', sample_method ''trace_block'' ''trace'' None)])]"

definition sample_specs :: resolvedSpecs where
  "sample_specs =
     [(''eth'', \<lparr>rsMethods = Some sample_groups,
        rsConnectors = Some \<lparr>byConnector = [(JsonRpcConnector, sample_groups)],
          cmApiConnectors = [JsonRpcConnector]\<rparr>\<rparr>)]"

definition sample_cfg :: MethodsConfig where
  "sample_cfg = \<lparr>EnableMethods = [''trace''], DisableMethods = [''default'']\<rparr>"

definition sample_spec_file :: MethodSpec where
  "sample_spec_file =
     \<lparr>specData = Some \<lparr>specName = ''eth'', specApiConnectors = [''json-rpc''], specTypeName = ''plain''\<rparr>,
      SpecImports = [],
      specMethods =
        [\<lparr>dName = ''eth_call'', dGroup = [], Settings = None, dTagParser = None, Enabled = None\<rparr>,
         \<lparr>dName = ''eth_mining'', dGroup = [], Settings = None, dTagParser = None, Enabled = Some False\<rparr>]\<rparr>"

lemmas sample_simps =
  sample_method_def sample_groups_def sample_specs_def sample_cfg_def sample_spec_file_def

section \<open>Properties\<close>

text \<open>\<^bold>\<open>C24\<close>. The methods an upstream offers are exactly those of the spec for its connectors, minus every disabled
  method or group, plus every enabled method or group; enabling wins over disabling.\<close>

theorem upstream_methods_offer:
  assumes "NewUpstreamMethods roG roM specs name (Some cfg) cts = Some ms"
  shows "\<exists>groups. GetSpecMethodsByConnectors roG roM specs name cts = Some groups
     \<and> GetSupportedMethods ms =
        (fst ` set (defaultMethods groups) - (\<Union>d \<in> set (DisableMethods cfg). expand_group groups d))
        \<union> (\<Union>e \<in> set (EnableMethods cfg). expand_group groups e)"
proof -
  from assms obtain groups where g: "GetSpecMethodsByConnectors roG roM specs name cts = Some groups"
    by (auto simp: NewUpstreamMethods_def Let_def split: option.splits)
  from NewUpstreamMethods_names [OF g assms] g show ?thesis by blast
qed

text \<open>A spec method that the configuration force-enables, by its name, its group, the default group or
  the subscription group, is offered by the upstream whatever the disable list says.\<close>

theorem force_enabled_never_stripped:
  assumes "range_order roG" "range_order roM" and "cts \<noteq> []"
    and "map_of specs name = Some rs" "rsConnectors rs = Some cm"
    and "\<forall>(ct, src) \<in> set (byConnector cm). grouped src"
    and "NewUpstreamMethods roG roM specs name (Some cfg) cts = Some ms"
    and "GetSpecMethodsByConnectors roG roM specs name cts = Some groups"
    and "map_of (defaultMethods groups) n = Some m" "map_of groups n = None"
    and "IsForceEnabled (Some cfg) (Some m)"
  shows "HasMethod ms n"
  using GetSpecMethodsByConnectors_indexed [OF assms(1,2,4,5,6,8,3)] assms
  by (intro force_enabled_supported) simp_all

text \<open>A spec file that \<open>loadSpec\<close> accepts turns into method groups without an error or a panic, the
  default group holds exactly its methods (without the disabled ones where those are dropped), and
  every one of them is found again in its own group and, for a subscription, in \<open>sub\<close>.\<close>

theorem accepted_spec_builds_groups:
  assumes "loadSpec s = Inr s'" and "\<forall>q. jq_ok q"
  shows "\<exists>groups. newMethodGroupsFromSpec jq_ok s' cts rd = Inr groups \<and> indexed groups
     \<and> fst ` set (defaultMethods groups) =
         dName ` {d \<in> set (specMethods s). \<not> (rd \<and> Enabled d = Some False)}"
proof -
  have ms: "specMethods s' = map setDefaults (specMethods s)" using loadSpec_Inr [OF assms(1)] by simp
  have en: "\<forall>d \<in> set (specMethods s'). Enabled d \<noteq> None" using setDefaults_total by (auto simp: ms)
  have img: "dName ` {d \<in> set (specMethods s'). \<not> (rd \<and> Enabled d = Some False)} =
      dName ` {d \<in> set (specMethods s). \<not> (rd \<and> Enabled d = Some False)}"
    by (force simp: ms setDefaults_keeps image_iff)
  have "defaultMethods newMethodGroups = []"
    by (simp add: newMethodGroups_def defaultMethods_def group_names)
  with newMethodGroupsFromSpec_loop_total [OF assms(2) en, of cts rd newMethodGroups] img
  show ?thesis
    using newMethodGroupsFromSpec_loop_indexed [OF _ indexed_new]
    by (auto simp: newMethodGroupsFromSpec_def)
qed

text \<open>A chain offers a method exactly when one of its upstreams does, and then resolves it to a method of
  an upstream that offers it.\<close>

theorem chain_methods_union:
  assumes "\<forall>d \<in> set ds. \<exists>roG roM specs name cfg cts. NewUpstreamMethods roG roM specs name cfg cts = Some d"
  shows "(HasMethod (NewChainMethods ds) n \<longleftrightarrow> (\<exists>d \<in> set ds. HasMethod d n))
     \<and> (HasMethod (NewChainMethods ds) n \<longrightarrow>
         (\<exists>d \<in> set ds. HasMethod d n \<and> GetMethod d n \<noteq> None
           \<and> GetMethod (NewChainMethods ds) n = GetMethod d n))"
proof -
  have "\<exists>m. GetMethod d k = Some m" if "d \<in> set ds" "HasMethod d k" for d k
    using assms that GetMethod_NewUpstreamMethods by blast
  from GetMethod_NewChainMethods [OF this] show ?thesis
    using HasMethod_NewChainMethods by blast
qed

section \<open>Concrete instances\<close>

lemma sample_groups_of_connectors:
  "GetSpecMethodsByConnectors id id sample_specs ''eth'' [JsonRpcConnector] =
     Some [(''default'',
        [(''eth_call'', sample_method ''eth_call'' ''common'' None),
         (''trace_block'', sample_method ''trace_block'' ''trace'' None)]),
      (''sub'', []),
      (''common'', [(''eth_call'', sample_method ''eth_call'' ''common'' None)]),
      (''trace'', [(''trace_block'', sample_method ''trace_block'' ''trace'' None)])]"
  by code_simp

lemma sample_upstream_methods:
  "NewUpstreamMethods id id sample_specs ''eth'' (Some sample_cfg) [JsonRpcConnector] =
     Some (UpstreamMethods [(''trace_block'', sample_method ''trace_block'' ''trace'' None)] {''trace_block''})"
  by code_simp

theorem upstream_methods_offer_witness:
  "\<exists>groups. GetSpecMethodsByConnectors id id sample_specs ''eth'' [JsonRpcConnector] = Some groups
     \<and> {''trace_block''} =
        (fst ` set (defaultMethods groups) - (\<Union>d \<in> set (DisableMethods sample_cfg). expand_group groups d))
        \<union> (\<Union>e \<in> set (EnableMethods sample_cfg). expand_group groups e)"
  using upstream_methods_offer [OF sample_upstream_methods] by simp

theorem force_enabled_never_stripped_witness:
  "HasMethod (UpstreamMethods [(''trace_block'', sample_method ''trace_block'' ''trace'' None)] {''trace_block''})
     ''trace_block''"
proof (rule force_enabled_never_stripped [OF range_order_id(2) range_order_id(2) _ _ _ _
      sample_upstream_methods sample_groups_of_connectors])
  show "map_of sample_specs ''eth'' = Some \<lparr>rsMethods = Some sample_groups,
      rsConnectors = Some \<lparr>byConnector = [(JsonRpcConnector, sample_groups)],
        cmApiConnectors = [JsonRpcConnector]\<rparr>\<rparr>"
    by (simp add: sample_specs_def)
  show "rsConnectors \<lparr>rsMethods = Some sample_groups,
      rsConnectors = Some \<lparr>byConnector = [(JsonRpcConnector, sample_groups)],
        cmApiConnectors = [JsonRpcConnector]\<rparr>\<rparr> =
      Some \<lparr>byConnector = [(JsonRpcConnector, sample_groups)], cmApiConnectors = [JsonRpcConnector]\<rparr>"
    by simp
  show "IsForceEnabled (Some sample_cfg) (Some (sample_method ''trace_block'' ''trace'' None))"
    by code_simp
qed (simp_all add: sample_simps grouped_def group_names defaultMethods_def IsForceEnabled_def)

theorem accepted_spec_builds_groups_witness:
  "\<exists>groups. newMethodGroupsFromSpec (\<lambda>q. True)
       (sample_spec_file\<lparr>specMethods := map setDefaults (specMethods sample_spec_file)\<rparr>) [JsonRpcConnector] True
       = Inr groups
     \<and> indexed groups \<and> fst ` set (defaultMethods groups) = {''eth_call''}"
proof -
  have ok: "loadSpec sample_spec_file =
      Inr (sample_spec_file\<lparr>specMethods := map setDefaults (specMethods sample_spec_file)\<rparr>)"
    by code_simp
  have "{d \<in> set (specMethods sample_spec_file). \<not> (True \<and> Enabled d = Some False)} =
      {\<lparr>dName = ''eth_call'', dGroup = [], Settings = None, dTagParser = None, Enabled = None\<rparr>}"
    by (auto simp: sample_spec_file_def)
  then show ?thesis
    using accepted_spec_builds_groups [OF ok, of "\<lambda>q. True" "[JsonRpcConnector]" True] by simp
qed

theorem chain_methods_union_witness:
  "HasMethod (NewChainMethods
      [UpstreamMethods [(''trace_block'', sample_method ''trace_block'' ''trace'' None)] {''trace_block''}])
    ''trace_block''"
  using chain_methods_union
    [of "[UpstreamMethods [(''trace_block'', sample_method ''trace_block'' ''trace'' None)] {''trace_block''}]"
      "''trace_block''"] sample_upstream_methods
  by (force simp: HasMethod_def)

end
