(* ===== verification/GoStrings.thy ===== *)
theory GoStrings
  imports Prelude
begin

text \<open>
  The functions of Go's \<open>strings\<close>, \<open>strconv\<close> and \<open>encoding/hex\<close> packages the program uses, on
  byte strings (\<open>string\<close> is a list of bytes): searching, trimming, joining, decimal and
  hexadecimal conversion, with the round trips and the injectivity lemmas that the
  components build their keys and parsers on.
\<close>

section \<open>strings\<close>

definition hasPrefix :: "string \<Rightarrow> string \<Rightarrow> bool" where
  "hasPrefix s p \<longleftrightarrow> take (length p) s = p"

definition hasSuffix :: "string \<Rightarrow> string \<Rightarrow> bool" where
  "hasSuffix s p \<longleftrightarrow> length p \<le> length s \<and> drop (length s - length p) s = p"

fun go_index :: "string \<Rightarrow> string \<Rightarrow> nat option" where
  "go_index [] sep = (if sep = [] then Some 0 else None)"
| "go_index (c # s) sep =
     (if hasPrefix (c # s) sep then Some 0 else map_option Suc (go_index s sep))"

definition go_contains :: "string \<Rightarrow> string \<Rightarrow> bool" where
  "go_contains s sub \<longleftrightarrow> go_index s sub \<noteq> None"

fun lastIndexByte :: "string \<Rightarrow> char \<Rightarrow> nat option" where
  "lastIndexByte [] b = None"
| "lastIndexByte (c # s) b =
     (case lastIndexByte s b of
        Some i \<Rightarrow> Some (Suc i)
      | None \<Rightarrow> (if c = b then Some 0 else None))"

definition trimPrefix :: "string \<Rightarrow> string \<Rightarrow> string" where
  "trimPrefix s p = (if hasPrefix s p then drop (length p) s else s)"

fun join :: "string \<Rightarrow> string list \<Rightarrow> string" where
  "join sep [] = []"
| "join sep [x] = x"
| "join sep (x # y # xs) = x @ sep @ join sep (y # xs)"

definition ascii_lower :: "char \<Rightarrow> char" where
  "ascii_lower c = (if 65 \<le> (of_char c :: nat) \<and> (of_char c :: nat) \<le> 90
     then char_of ((of_char c :: nat) + 32) else c)"

definition toLower :: "string \<Rightarrow> string" where
  "toLower s = map ascii_lower s"

definition equalFold :: "string \<Rightarrow> string \<Rightarrow> bool" where
  "equalFold s t \<longleftrightarrow> toLower s = toLower t"

definition is_space :: "char \<Rightarrow> bool" where
  "is_space c \<longleftrightarrow> (of_char c :: nat) \<in> {9, 10, 11, 12, 13, 32}"

definition trimSpace :: "string \<Rightarrow> string" where
  "trimSpace s = rev (dropWhile is_space (rev (dropWhile is_space s)))"

lemma hasPrefix_append [simp]: "hasPrefix (p @ s) p"
  by (simp add: hasPrefix_def)

lemma hasPrefix_Nil [simp]: "hasPrefix s []"
  by (simp add: hasPrefix_def)

lemma hasPrefix_iff: "hasPrefix s p \<longleftrightarrow> (\<exists>t. s = p @ t)"
  by (metis append_eq_conv_conj append_take_drop_id hasPrefix_def)

lemma hasSuffix_iff: "hasSuffix s p \<longleftrightarrow> (\<exists>t. s = t @ p)"
proof
  assume "hasSuffix s p"
  then show "\<exists>t. s = t @ p" by (metis append_take_drop_id hasSuffix_def)
qed (auto simp: hasSuffix_def)

lemma go_index_Some:
  "go_index s sep = Some i \<Longrightarrow> i + length sep \<le> length s \<and> take (length sep) (drop i s) = sep"
proof (induction s arbitrary: i)
  case (Cons c s)
  have "length sep \<le> length (c # s)" if "hasPrefix (c # s) sep"
    using that by (metis hasPrefix_def length_take min.cobounded1)
  with Cons show ?case
    by (auto simp: hasPrefix_def split: if_splits)
qed (auto split: if_splits)

lemma go_index_split:
  assumes "go_index s sep = Some i"
  shows "s = take i s @ sep @ drop (i + length sep) s"
proof -
  from go_index_Some [OF assms]
  have "drop i s = sep @ drop (length sep) (drop i s)"
    by (metis append_take_drop_id)
  then show ?thesis by (metis append_take_drop_id drop_drop add.commute)
qed

lemma go_index_None: "go_index s sep = None \<longleftrightarrow> (\<nexists>a b. s = a @ sep @ b)"
proof (induction s)
  case (Cons c s)
  show ?case
  proof (cases "hasPrefix (c # s) sep")
    case True
    then have "\<exists>a b. c # s = a @ sep @ b"
      by (metis append_Nil hasPrefix_iff)
    with True show ?thesis by simp
  next
    case False
    then have "(\<exists>a b. c # s = a @ sep @ b) \<longleftrightarrow> (\<exists>a b. s = a @ sep @ b)"
      by (auto simp: hasPrefix_iff Cons_eq_append_conv)
    with False Cons show ?thesis by simp
  qed
qed simp

text \<open>The first occurrence: no occurrence of the separator starts inside the part before it.\<close>

lemma go_index_first:
  assumes "\<And>k. k < length a \<Longrightarrow> \<not> hasPrefix (drop k (a @ sep @ b)) sep"
  shows "go_index (a @ sep @ b) sep = Some (length a)"
  using assms
proof (induction a)
  case Nil
  have "hasPrefix (sep @ b) sep" by simp
  then show ?case by (cases "sep @ b") auto
next
  case (Cons c a)
  have "\<not> hasPrefix (c # a @ sep @ b) sep" using Cons.prems [of 0] by simp
  moreover have "go_index (a @ sep @ b) sep = Some (length a)"
    using Cons.prems [of "Suc k" for k] by (intro Cons.IH) auto
  ultimately show ?case by simp
qed

lemma lastIndexByte_Some:
  "lastIndexByte s b = Some i \<Longrightarrow> i < length s \<and> s ! i = b \<and> b \<notin> set (drop (Suc i) s)"
proof (induction s arbitrary: i)
  case (Cons c s)
  have none: "lastIndexByte s b = None \<Longrightarrow> b \<notin> set s"
    by (induction s) (auto split: option.splits if_splits)
  from Cons none show ?case by (auto split: option.splits if_splits)
qed simp

lemma lastIndexByte_None: "lastIndexByte s b = None \<longleftrightarrow> b \<notin> set s"
  by (induction s) (auto split: option.splits)

lemma lastIndexByte_append:
  "b \<notin> set t \<Longrightarrow> lastIndexByte (s @ b # t) b = Some (length s)"
proof (induction s)
  case Nil
  then have "lastIndexByte t b = None" by (simp add: lastIndexByte_None)
  then show ?case by simp
qed simp

section \<open>Splitting\<close>

text \<open>\<open>strings.Split\<close> at a one-byte separator, and \<open>strings.Cut\<close> at its first occurrence.\<close>

fun splitOn :: "char \<Rightarrow> string \<Rightarrow> string list" where
  "splitOn c [] = [[]]"
| "splitOn c (x # xs) =
     (if x = c then [] # splitOn c xs
      else (case splitOn c xs of [] \<Rightarrow> [[x]] | y # ys \<Rightarrow> (x # y) # ys))"

definition cutAt :: "char \<Rightarrow> string \<Rightarrow> string \<times> string" where
  "cutAt c s = (takeWhile (\<lambda>x. x \<noteq> c) s, drop 1 (dropWhile (\<lambda>x. x \<noteq> c) s))"

lemma splitOn_not_Nil [simp]: "splitOn c s \<noteq> []"
  by (induction s) (auto split: list.splits)

lemma splitOn_no_sep: "p \<in> set (splitOn c s) \<Longrightarrow> c \<notin> set p"
  by (induction s arbitrary: p) (auto split: list.splits if_splits)

lemma splitOn_plain: "c \<notin> set s \<Longrightarrow> splitOn c s = [s]"
  by (induction s) auto

lemma splitOn_append: "c \<notin> set s \<Longrightarrow> splitOn c (s @ c # t) = s # splitOn c t"
  by (induction s) auto

lemma splitOn_join: "ps \<noteq> [] \<Longrightarrow> \<forall>p \<in> set ps. c \<notin> set p \<Longrightarrow> splitOn c (join [c] ps) = ps"
proof (induction ps rule: induct_list012)
  case (3 p q ps)
  have "splitOn c (p @ c # join [c] (q # ps)) = p # splitOn c (join [c] (q # ps))"
    using 3 by (intro splitOn_append) simp
  with 3 show ?case by simp
qed (simp_all add: splitOn_plain)

lemma cutAt_append: "c \<notin> set v \<Longrightarrow> cutAt c (v @ c # r) = (v, r)"
  by (simp add: cutAt_def takeWhile_append dropWhile_append)

lemma cutAt_fst: "c \<notin> set (fst (cutAt c s))"
  by (auto simp: cutAt_def dest: set_takeWhileD)

section \<open>Decimal numbers\<close>

definition digit :: "nat \<Rightarrow> char" where
  "digit n = char_of (48 + n)"

definition is_digit :: "char \<Rightarrow> bool" where
  "is_digit c \<longleftrightarrow> 48 \<le> (of_char c :: nat) \<and> (of_char c :: nat) \<le> 57"

definition digit_val :: "char \<Rightarrow> nat" where
  "digit_val c = of_char c - 48"

fun dec :: "nat \<Rightarrow> string" where
  "dec n = (if n < 10 then [digit n] else dec (n div 10) @ [digit (n mod 10)])"

declare dec.simps [simp del]

definition undec :: "string \<Rightarrow> nat" where
  "undec s = foldl (\<lambda>n c. 10 * n + digit_val c) 0 s"

definition parseUint64 :: "string \<Rightarrow> nat option" where
  "parseUint64 s =
     (if s \<noteq> [] \<and> list_all is_digit s \<and> undec s < 2 ^ 64 then Some (undec s) else None)"

lemma of_char_digit: "n < 10 \<Longrightarrow> (of_char (digit n) :: nat) = 48 + n"
  by (simp add: digit_def of_char_of)

lemma digit_simps [simp]: "n < 10 \<Longrightarrow> is_digit (digit n)" "n < 10 \<Longrightarrow> digit_val (digit n) = n"
  by (simp_all add: is_digit_def digit_val_def of_char_digit)

lemma dec_not_Nil [simp]: "dec n \<noteq> []"
  by (subst dec.simps) simp

lemma dec_digits: "list_all is_digit (dec n)"
proof (induction n rule: dec.induct)
  case (1 n)
  then show ?case by (subst dec.simps) auto
qed

lemma undec_snoc: "undec (s @ [c]) = 10 * undec s + digit_val c"
  by (simp add: undec_def)

lemma undec_dec [simp]: "undec (dec n) = n"
proof (induction n rule: dec.induct)
  case (1 n)
  show ?case
  proof (cases "n < 10")
    case True
    then show ?thesis by (subst dec.simps) (simp add: undec_def)
  next
    case False
    with 1 show ?thesis by (subst dec.simps) (simp add: undec_snoc)
  qed
qed

lemma dec_inject [simp]: "dec m = dec n \<longleftrightarrow> m = n"
  by (metis undec_dec)

lemma parseUint64_dec: "n < 2 ^ 64 \<Longrightarrow> parseUint64 (dec n) = Some n"
  by (simp add: parseUint64_def dec_digits)

lemma dec_append_inject:
  assumes "\<not> is_digit c" and "\<not> is_digit d"
  shows "dec m @ c # s = dec n @ d # t \<longleftrightarrow> m = n \<and> c = d \<and> s = t"
proof
  assume eq: "dec m @ c # s = dec n @ d # t"
  have "takeWhile is_digit (dec k @ e # u) = dec k" if "\<not> is_digit e" for k e u
    using that dec_digits [of k] by (simp add: list_all_iff takeWhile_append2)
  with eq assms have "dec m = dec n" by metis
  with eq show "m = n \<and> c = d \<and> s = t" by simp
qed auto

definition itoa :: "int \<Rightarrow> string" where
  "itoa n = (if n < 0 then CHR ''-'' # dec (nat (- n)) else dec (nat n))"

text \<open>\<open>strconv.Atoi\<close>: an optional sign, at least one digit, and the range of \<open>int64\<close>.\<close>

definition atoi :: "string \<Rightarrow> int option" where
  "atoi s =
     (let neg = (s \<noteq> [] \<and> hd s = CHR ''-'');
          ds = (if s \<noteq> [] \<and> (hd s = CHR ''-'' \<or> hd s = CHR ''+'') then tl s else s);
          n = (if neg then - int (undec ds) else int (undec ds))
      in if ds \<noteq> [] \<and> list_all is_digit ds \<and> in_i64 n then Some n else None)"

lemma is_digit_not_sign: "is_digit c \<Longrightarrow> c \<noteq> CHR ''-'' \<and> c \<noteq> CHR ''+''"
  by (auto simp: is_digit_def)

lemma hd_dec_digit: "is_digit (hd (dec n))"
  using dec_digits [of n] by (cases "dec n") (auto simp: list_all_iff)

lemma atoi_itoa: "in_i64 n \<Longrightarrow> atoi (itoa n) = Some n"
  using hd_dec_digit [of "nat n"] is_digit_not_sign [of "hd (dec (nat n))"]
  by (auto simp: atoi_def itoa_def Let_def dec_digits)

section \<open>Hexadecimal\<close>

definition hex_char :: "nat \<Rightarrow> char" where
  "hex_char n = ''0123456789abcdef'' ! n"

definition hex_val :: "char \<Rightarrow> nat option" where
  "hex_val c =
     (let k = (of_char c :: nat) in
      if 48 \<le> k \<and> k \<le> 57 then Some (k - 48)
      else if 97 \<le> k \<and> k \<le> 102 then Some (k - 87)
      else if 65 \<le> k \<and> k \<le> 70 then Some (k - 55)
      else None)"

definition hex_encode :: "byte list \<Rightarrow> string" where
  "hex_encode bs = concat (map (\<lambda>b. [hex_char (unat b div 16), hex_char (unat b mod 16)]) bs)"

fun hex_decode :: "string \<Rightarrow> byte list option" where
  "hex_decode [] = Some []"
| "hex_decode [c] = None"
| "hex_decode (c # d # s) =
     (case (hex_val c, hex_val d) of
        (Some h, Some l) \<Rightarrow> map_option ((#) (of_nat (16 * h + l))) (hex_decode s)
      | _ \<Rightarrow> None)"

lemma hex_val_hex_char: "n < 16 \<Longrightarrow> hex_val (hex_char n) = Some n"
proof -
  have "list_all (\<lambda>n. hex_val (hex_char n) = Some n) [0..<16]" by code_simp
  then show "n < 16 \<Longrightarrow> hex_val (hex_char n) = Some n" by (simp add: list_all_iff)
qed

lemma hex_decode_encode: "hex_decode (hex_encode bs) = Some bs"
proof (induction bs)
  case (Cons b bs)
  have "unat b < 256" using unsigned_less [of b, where 'a = nat] by simp
  then have "unat b div 16 < 16" by auto
  with Cons show ?case
    by (simp add: hex_encode_def hex_val_hex_char)
qed (simp add: hex_encode_def)

lemma length_hex_encode: "length (hex_encode bs) = 2 * length bs"
  by (induction bs) (simp_all add: hex_encode_def)

lemma hex_encode_inject: "hex_encode a = hex_encode b \<longleftrightarrow> a = b"
  by (metis hex_decode_encode option.inject)

end
