(* ===== verification/RateLimiter.thy ===== *)
theory RateLimiter
  imports GoStrings
begin

text \<open>
  Rate limiting (\<open>src/internal/ratelimiter\<close>, \<open>src/internal/config/ratelimit_config.go\<close>):
  budgets and their rules, the in-memory and the Redis engine, the registry that wires
  budgets to engines, and the admission side of the per-upstream auto-tuner.

  The token bucket of \<open>juju/ratelimit\<close> and the Redis server are third-party: they enter as
  the functions of \<open>limiter_ops\<close>. Engines and auto-tuners are shared by reference, so they
  live in a store (\<open>limiter_world\<close>) under addresses; the world also carries the reading of
  the clock that the current call sees. Prometheus counters are not modelled. A compiled
  regular expression is its source text and the set of strings it matches.
\<close>

section \<open>Rules\<close>

datatype ruleCheck =
    ruleCheckMethod string
  | ruleCheckPattern string "string \<Rightarrow> bool"

fun rule_match :: "ruleCheck \<Rightarrow> string \<Rightarrow> bool" where
  "rule_match (ruleCheckMethod m) meth \<longleftrightarrow> m = meth"
| "rule_match (ruleCheckPattern src re) meth \<longleftrightarrow> re meth"

fun rule_name :: "ruleCheck \<Rightarrow> string" where
  "rule_name (ruleCheckMethod m) = m"
| "rule_name (ruleCheckPattern src re) = src"

record FixedRateLimiterType =
  requests :: int
  period :: int

record RateLimitCommand =
  cmdType :: FixedRateLimiterType
  cmdName :: string

record Rule =
  Check :: ruleCheck
  ruleType :: FixedRateLimiterType

section \<open>Configuration and its validation\<close>

record RateLimitRule =
  rlMethod :: string
  Pattern :: string
  Requests :: int
  Period :: int

record RateLimitBudgetConfig =
  budgetName :: string
  budgetStorage :: string
  budgetConfig :: "RateLimitRule list option"

record RateLimitBudgetsConfig =
  DefaultStorage :: string
  Budgets :: "RateLimitBudgetConfig list"

datatype rl_error =
    EmptyBudgetName | DuplicateBudgetName string | NoMethodOrPattern | BothMethodAndPattern
  | InvalidMethodName | BadPeriod | BadRequests | NoSuchStorage string | NotRedisStorage string
  | NilConfigPanic | RegexPanic string

definition is_method_char :: "char \<Rightarrow> bool" where
  "is_method_char c \<longleftrightarrow> (let k = (of_char c :: nat) in
     (97 \<le> k \<and> k \<le> 122) \<or> (65 \<le> k \<and> k \<le> 90) \<or> (48 \<le> k \<and> k \<le> 57) \<or> k = 95)"

definition methodRegex_match :: "string \<Rightarrow> bool" where
  "methodRegex_match s \<longleftrightarrow> s \<noteq> [] \<and> list_all is_method_char s"

fun RateLimiterConfig_validate :: "RateLimitRule list \<Rightarrow> rl_error option" where
  "RateLimiterConfig_validate [] = None"
| "RateLimiterConfig_validate (r # rs) =
     (if rlMethod r = [] \<and> Pattern r = [] then Some NoMethodOrPattern
      else if rlMethod r \<noteq> [] \<and> Pattern r \<noteq> [] then Some BothMethodAndPattern
      else if rlMethod r \<noteq> [] \<and> \<not> methodRegex_match (rlMethod r) then Some InvalidMethodName
      else if Period r \<le> 0 then Some BadPeriod
      else if Requests r < 1 then Some BadRequests
      else RateLimiterConfig_validate rs)"

definition RateLimitBudget_validate ::
  "RateLimitBudgetConfig \<Rightarrow> (string, string) gomap \<Rightarrow> rl_error option" where
  "RateLimitBudget_validate b storages =
     (if budgetName b = [] then Some EmptyBudgetName
      else case (case budgetConfig b of None \<Rightarrow> None | Some rs \<Rightarrow> RateLimiterConfig_validate rs) of
        Some e \<Rightarrow> Some e
      | None \<Rightarrow>
          if budgetStorage b = [] then None
          else (case map_of storages (budgetStorage b) of
                 None \<Rightarrow> Some (NoSuchStorage (budgetStorage b))
               | Some t \<Rightarrow> if t \<noteq> ''redis'' then Some (NotRedisStorage (budgetStorage b)) else None))"

fun Budgets_validate ::
  "RateLimitBudgetConfig list \<Rightarrow> string set \<Rightarrow> (string, string) gomap \<Rightarrow> rl_error option \<times> string set"
where
  "Budgets_validate [] names storages = (None, names)"
| "Budgets_validate (b # bs) names storages =
     (if budgetName b = [] then (Some EmptyBudgetName, names)
      else if budgetName b \<in> names then (Some (DuplicateBudgetName (budgetName b)), names)
      else case RateLimitBudget_validate b storages of
        Some e \<Rightarrow> (Some e, names)
      | None \<Rightarrow> Budgets_validate bs (insert (budgetName b) names) storages)"

definition RateLimitBudgetsConfig_validate ::
  "RateLimitBudgetsConfig \<Rightarrow> string set \<Rightarrow> (string, string) gomap \<Rightarrow> rl_error option \<times> string set"
where
  "RateLimitBudgetsConfig_validate c names storages = Budgets_validate (Budgets c) names storages"

record RateLimitAutoTuneConfig =
  atEnabled :: bool
  atPeriod :: int
  ErrorRateThreshold :: rat
  InitRateLimit :: int
  InitRateLimitPeriod :: int

definition RateLimitAutoTuneConfig_validate :: "RateLimitAutoTuneConfig \<Rightarrow> bool" where
  "RateLimitAutoTuneConfig_validate r \<longleftrightarrow>
     \<not> atEnabled r \<or>
     (0 < atPeriod r \<and> 0 \<le> ErrorRateThreshold r \<and> ErrorRateThreshold r \<le> 1
      \<and> 0 < InitRateLimit r \<and> 0 < InitRateLimitPeriod r \<and> InitRateLimitPeriod r \<le> atPeriod r)"

section \<open>Engines\<close>

record ('b, 'r) limiter_ops =
  bk_new :: "int \<Rightarrow> int \<Rightarrow> int \<Rightarrow> int \<Rightarrow> 'b"
  bk_take :: "int \<Rightarrow> 'b \<Rightarrow> int \<Rightarrow> int \<times> 'b"
  rd_exec :: "'r \<Rightarrow> (string \<times> int) list \<Rightarrow> int list option \<times> 'r"

datatype 'b engine = MemoryEngine "(string, 'b) gomap" | RedisEngine string

record 'b UpstreamAutoTune =
  rateLimitPeriod :: int
  bucket :: 'b
  accumErrors :: u32
  accumRateLimited :: u32
  attemptCounts :: "(int, u32) gomap"

record ('b, 'r) limiter_world =
  clock :: int
  engines :: "(nat, 'b engine) gomap"
  redis :: 'r
  autotunes :: "(nat, 'b UpstreamAutoTune) gomap"

text \<open>The loop of \<open>RateLimitMemoryEngine.Execute\<close>: a missing bucket is created and stored even
  when an earlier command was refused, but \<open>result && ...\<close> takes no token then.\<close>

fun memory_Execute ::
  "('b, 'r) limiter_ops \<Rightarrow> int \<Rightarrow> bool \<Rightarrow> RateLimitCommand list \<Rightarrow> (string, 'b) gomap
     \<Rightarrow> bool \<times> (string, 'b) gomap" where
  "memory_Execute ops t result [] limiters = (result, limiters)"
| "memory_Execute ops t result (c # cs) limiters =
     (let limiter = (case map_of limiters (cmdName c) of
            Some b \<Rightarrow> b
          | None \<Rightarrow> bk_new ops t (period (cmdType c)) (requests (cmdType c)) (requests (cmdType c)));
          limiters = AList.update (cmdName c) limiter limiters
      in if result then
           (let (n, limiter') = bk_take ops t limiter 1
            in memory_Execute ops t (0 < n) cs (AList.update (cmdName c) limiter' limiters))
         else memory_Execute ops t False cs limiters)"

definition redis_key :: "string \<Rightarrow> RateLimitCommand \<Rightarrow> string" where
  "redis_key name c = ''ratelimit:'' @ name @ '':'' @ cmdName c"

fun redis_within :: "RateLimitCommand list \<Rightarrow> int list \<Rightarrow> bool" where
  "redis_within (c # cs) (n # ns) \<longleftrightarrow> \<not> n > requests (cmdType c) \<and> redis_within cs ns"
| "redis_within _ _ \<longleftrightarrow> True"

definition redis_Execute ::
  "('b, 'r) limiter_ops \<Rightarrow> string \<Rightarrow> RateLimitCommand list \<Rightarrow> 'r \<Rightarrow> (bool \<times> bool) \<times> 'r" where
  "redis_Execute ops name cs r =
     (case rd_exec ops r (map (\<lambda>c. (redis_key name c, period (cmdType c))) cs) of
        (None, r') \<Rightarrow> ((False, True), r')
      | (Some counts, r') \<Rightarrow> ((redis_within cs counts, False), r'))"

definition engine_at :: "('b, 'r) limiter_world \<Rightarrow> nat \<Rightarrow> 'b engine" where
  "engine_at w a = (case map_of (engines w) a of Some e \<Rightarrow> e | None \<Rightarrow> MemoryEngine [])"

definition engine_Execute ::
  "('b, 'r) limiter_ops \<Rightarrow> nat \<Rightarrow> RateLimitCommand list \<Rightarrow> ('b, 'r) limiter_world
     \<Rightarrow> (bool \<times> bool) \<times> ('b, 'r) limiter_world" where
  "engine_Execute ops a cs w =
     (case engine_at w a of
        MemoryEngine ls \<Rightarrow>
          (let (ok, ls') = memory_Execute ops (clock w) True cs ls
           in ((ok, False), w\<lparr>engines := AList.update a (MemoryEngine ls') (engines w)\<rparr>))
      | RedisEngine name \<Rightarrow>
          (let (res, r') = redis_Execute ops name cs (redis w)
           in (res, w\<lparr>redis := r'\<rparr>)))"

section \<open>Budgets\<close>

record RateLimitBudget =
  Name :: string
  Rules :: "Rule list"
  Engine :: nat

definition command_name :: "string \<Rightarrow> nat \<Rightarrow> ruleCheck \<Rightarrow> string" where
  "command_name bname i chk = bname @ ''-'' @ itoa (int i) @ ''-'' @ rule_name chk"

definition budget_commands :: "RateLimitBudget \<Rightarrow> string \<Rightarrow> RateLimitCommand list" where
  "budget_commands b meth =
     map (\<lambda>(i, r). \<lparr>cmdType = ruleType r, cmdName = command_name (Name b) i (Check r)\<rparr>)
       (filter (\<lambda>(i, r). rule_match (Check r) meth) (enumerate 0 (Rules b)))"

text \<open>\<open>Allow\<close> returns the pair of Go results: whether the call is admitted, and whether the
  engine reported an error.\<close>

definition budget_Allow ::
  "('b, 'r) limiter_ops \<Rightarrow> RateLimitBudget \<Rightarrow> string \<Rightarrow> ('b, 'r) limiter_world
     \<Rightarrow> (bool \<times> bool) \<times> ('b, 'r) limiter_world" where
  "budget_Allow ops b meth w = engine_Execute ops (Engine b) (budget_commands b meth) w"

definition rule_of_config ::
  "(string \<Rightarrow> (string \<Rightarrow> bool) option) \<Rightarrow> RateLimitRule \<Rightarrow> Rule option" where
  "rule_of_config compile r =
     map_option (\<lambda>chk. \<lparr>Check = chk, ruleType = \<lparr>requests = Requests r, period = Period r\<rparr>\<rparr>)
       (if rlMethod r \<noteq> [] then Some (ruleCheckMethod (rlMethod r))
        else map_option (ruleCheckPattern (Pattern r)) (compile (Pattern r)))"

text \<open>\<open>NewRateLimitBudget\<close> dereferences \<open>config.Config\<close> and compiles patterns with
  \<open>regexp.MustCompile\<close>; both panics are values of the result.\<close>

definition NewRateLimitBudget ::
  "(string \<Rightarrow> (string \<Rightarrow> bool) option) \<Rightarrow> RateLimitBudgetConfig \<Rightarrow> nat \<Rightarrow> rl_error + RateLimitBudget"
where
  "NewRateLimitBudget compile cfg e =
     (case budgetConfig cfg of
        None \<Rightarrow> Inl NilConfigPanic
      | Some rs \<Rightarrow>
          (case those (map (rule_of_config compile) rs) of
             None \<Rightarrow> Inl (RegexPanic (budgetName cfg))
           | Some rules \<Rightarrow> Inr \<lparr>Name = budgetName cfg, Rules = rules, Engine = e\<rparr>))"

section \<open>The registry\<close>

datatype storage = RedisStorage | PostgresStorage

datatype registry_error =
    DefaultStorageNotFound string | StorageNotFound string | UnsupportedStorage string
  | BudgetPanic rl_error

text \<open>Engines are allocated at the next free address. \<open>storageToEngine\<close> builds an engine over a
  Redis storage and refuses every other kind.\<close>

definition storageToEngine :: "string \<Rightarrow> storage \<Rightarrow> 'b engine option" where
  "storageToEngine name s = (case s of RedisStorage \<Rightarrow> Some (RedisEngine name) | _ \<Rightarrow> None)"

definition alloc_engine :: "'b engine \<Rightarrow> (nat, 'b engine) gomap \<Rightarrow> nat \<times> (nat, 'b engine) gomap" where
  "alloc_engine e es = (length es, es @ [(length es, e)])"

type_synonym 'b registry_state = "(string, RateLimitBudget) gomap \<times> (nat, 'b engine) gomap"

fun registry_budgets ::
  "(string \<Rightarrow> (string \<Rightarrow> bool) option) \<Rightarrow> (string, storage) gomap \<Rightarrow> nat
     \<Rightarrow> RateLimitBudgetConfig list \<Rightarrow> 'b registry_state \<Rightarrow> registry_error + 'b registry_state" where
  "registry_budgets compile stores dflt [] st = Inr st"
| "registry_budgets compile stores dflt (b # bs) (budgets, es) =
     (case (if budgetStorage b = [] then Inr (dflt, es)
            else case map_of stores (budgetStorage b) of
              None \<Rightarrow> Inl (StorageNotFound (budgetStorage b))
            | Some s \<Rightarrow> (case storageToEngine (budgetStorage b) s of
                None \<Rightarrow> Inl (UnsupportedStorage (budgetStorage b))
              | Some e \<Rightarrow> Inr (alloc_engine e es))) of
        Inl e \<Rightarrow> Inl e
      | Inr (a, es) \<Rightarrow>
          (case NewRateLimitBudget compile b a of
             Inl e \<Rightarrow> Inl (BudgetPanic e)
           | Inr rb \<Rightarrow>
               registry_budgets compile stores dflt bs (AList.update (budgetName b) rb budgets, es)))"

fun NewRateLimitBudgetRegistry ::
  "(string \<Rightarrow> (string \<Rightarrow> bool) option) \<Rightarrow> (string, storage) gomap
     \<Rightarrow> RateLimitBudgetsConfig list \<Rightarrow> 'b registry_state \<Rightarrow> registry_error + 'b registry_state" where
  "NewRateLimitBudgetRegistry compile stores [] st = Inr st"
| "NewRateLimitBudgetRegistry compile stores (c # cs) (budgets, es) =
     (case (if DefaultStorage c = [] then Inr (alloc_engine (MemoryEngine []) es)
            else case map_of stores (DefaultStorage c) of
              None \<Rightarrow> Inl (DefaultStorageNotFound (DefaultStorage c))
            | Some s \<Rightarrow> (case storageToEngine (DefaultStorage c) s of
                None \<Rightarrow> Inl (UnsupportedStorage (DefaultStorage c))
              | Some e \<Rightarrow> Inr (alloc_engine e es))) of
        Inl e \<Rightarrow> Inl e
      | Inr (dflt, es) \<Rightarrow>
          (case registry_budgets compile stores dflt (Budgets c) (budgets, es) of
             Inl e \<Rightarrow> Inl e
           | Inr st \<Rightarrow> NewRateLimitBudgetRegistry compile stores cs st))"

definition registry_Get :: "'b registry_state \<Rightarrow> string \<Rightarrow> RateLimitBudget option" where
  "registry_Get st name = map_of (fst st) name"

section \<open>Auto-tuner: admission\<close>

text \<open>\<open>time.Now().UnixMilli() / int64(u.rateLimitPeriod)\<close>: the clock is in nanoseconds, its
  millisecond reading is divided by a duration, which Go counts in nanoseconds.\<close>

definition autotune_timeKey :: "int \<Rightarrow> int \<Rightarrow> int" where
  "autotune_timeKey t p = (t div 1000000) div p"

definition autotune_Allow ::
  "('b, 'r) limiter_ops \<Rightarrow> int \<Rightarrow> 'b UpstreamAutoTune \<Rightarrow> bool \<times> 'b UpstreamAutoTune" where
  "autotune_Allow ops t u =
     (let key = autotune_timeKey t (rateLimitPeriod u);
          n = (case map_of (attemptCounts u) key of Some n \<Rightarrow> n | None \<Rightarrow> 0);
          (got, bk) = bk_take ops t (bucket u) 1;
          u = u\<lparr>attemptCounts := AList.update key (n + 1) (attemptCounts u), bucket := bk\<rparr>
      in if 0 < got then (True, u)
         else (False, u\<lparr>accumRateLimited := accumRateLimited u + 1\<rparr>))"

definition autotune_IncErrors :: "'b UpstreamAutoTune \<Rightarrow> 'b UpstreamAutoTune" where
  "autotune_IncErrors u = u\<lparr>accumErrors := accumErrors u + 1\<rparr>"

definition world_autotune_Allow ::
  "('b, 'r) limiter_ops \<Rightarrow> nat \<Rightarrow> ('b, 'r) limiter_world \<Rightarrow> bool \<times> ('b, 'r) limiter_world" where
  "world_autotune_Allow ops a w =
     (case map_of (autotunes w) a of
        None \<Rightarrow> (True, w)
      | Some u \<Rightarrow>
          (let (ok, u') = autotune_Allow ops (clock w) u
           in (ok, w\<lparr>autotunes := AList.update a u' (autotunes w)\<rparr>)))"

section \<open>Engine laws\<close>

text \<open>
  What a budget relies on: an engine is asked to execute a list of named commands; with
  nothing to execute it admits the call without an error, and it touches no limiter outside
  the commands it was given.
\<close>

locale rate_limit_engine =
  fixes execute :: "RateLimitCommand list \<Rightarrow> 'e \<Rightarrow> (bool \<times> bool) \<times> 'e"
    and limiter :: "'e \<Rightarrow> string \<Rightarrow> 'l"
  assumes execute_Nil: "execute [] e = ((True, False), e)"
    and execute_frame: "n \<notin> cmdName ` set cs \<Longrightarrow> limiter (snd (execute cs e)) n = limiter e n"
begin

lemma unmatched_method_admitted:
  assumes "\<forall>r \<in> set (Rules b). \<not> rule_match (Check r) meth"
  shows "execute (budget_commands b meth) e = ((True, False), e)"
proof -
  have "filter (\<lambda>(i, r). rule_match (Check r) meth) (enumerate 0 (Rules b)) = []"
    using assms by (auto simp: filter_empty_conv in_set_enumerate_eq)
  then show ?thesis by (simp add: budget_commands_def execute_Nil)
qed

lemma budgets_do_not_interfere:
  assumes "cmdName ` set (budget_commands b meth) \<inter> cmdName ` set (budget_commands b' meth') = {}"
    and "c \<in> set (budget_commands b' meth')"
  shows "limiter (snd (execute (budget_commands b meth) e)) (cmdName c) = limiter e (cmdName c)"
  using assms by (intro execute_frame) auto

end

lemma memory_Execute_frame:
  "n \<notin> cmdName ` set cs \<Longrightarrow> map_of (snd (memory_Execute ops t res cs ls)) n = map_of ls n"
  by (induction ops t res cs ls rule: memory_Execute.induct)
    (auto simp: Let_def split: option.splits prod.splits)

interpretation memory_engine: rate_limit_engine
  "\<lambda>cs ls. ((fst (memory_Execute ops t True cs ls), False), snd (memory_Execute ops t True cs ls))"
  map_of
  for ops :: "('b, 'r) limiter_ops" and t :: int
  by unfold_locales (simp_all add: memory_Execute_frame)

section \<open>Limiter names\<close>

lemma itoa_nat [simp]: "itoa (int n) = dec n"
  by (simp add: itoa_def)

lemma command_name_inject:
  "command_name b i c = command_name b j d \<longleftrightarrow> i = j \<and> rule_name c = rule_name d"
proof -
  have "\<not> is_digit (CHR ''-'')" by (simp add: is_digit_def)
  then show ?thesis by (auto simp: command_name_def dec_append_inject)
qed

lemma budget_commands_distinct: "distinct (map cmdName (budget_commands b meth))"
proof -
  let ?xs = "filter (\<lambda>(i, r). rule_match (Check r) meth) (enumerate 0 (Rules b))"
  have "distinct ?xs" by (simp add: distinct_enumerate)
  moreover have "inj_on (\<lambda>(i, r). command_name (Name b) i (Check r)) (set ?xs)"
    by (auto simp: inj_on_def command_name_inject in_set_enumerate_eq)
  moreover have "map cmdName (budget_commands b meth) =
      map (\<lambda>(i, r). command_name (Name b) i (Check r)) ?xs"
    by (simp add: budget_commands_def comp_def case_prod_unfold)
  ultimately show ?thesis by (simp only: distinct_map)
qed

section \<open>Admission by the in-memory engine\<close>

definition bucket_for ::
  "('b, 'r) limiter_ops \<Rightarrow> int \<Rightarrow> (string, 'b) gomap \<Rightarrow> RateLimitCommand \<Rightarrow> 'b" where
  "bucket_for ops t ls c =
     (case map_of ls (cmdName c) of
        Some b \<Rightarrow> b
      | None \<Rightarrow> bk_new ops t (period (cmdType c)) (requests (cmdType c)) (requests (cmdType c)))"

definition grants :: "('b, 'r) limiter_ops \<Rightarrow> int \<Rightarrow> (string, 'b) gomap \<Rightarrow> RateLimitCommand \<Rightarrow> bool" where
  "grants ops t ls c \<longleftrightarrow> 0 < fst (bk_take ops t (bucket_for ops t ls c) 1)"

lemma memory_Execute_Cons:
  "memory_Execute ops t res (c # cs) ls =
     (if res then memory_Execute ops t (grants ops t ls c) cs
            (AList.update (cmdName c) (snd (bk_take ops t (bucket_for ops t ls c) 1)) ls)
      else memory_Execute ops t False cs (AList.update (cmdName c) (bucket_for ops t ls c) ls))"
  by (simp add: Let_def bucket_for_def grants_def case_prod_unfold)

lemma bucket_for_update:
  "cmdName c \<noteq> n \<Longrightarrow> bucket_for ops t (AList.update n b ls) c = bucket_for ops t ls c"
  by (simp add: bucket_for_def)

lemma grants_update:
  "cmdName c \<noteq> n \<Longrightarrow> grants ops t (AList.update n b ls) c = grants ops t ls c"
  by (simp add: grants_def bucket_for_update)

declare memory_Execute.simps(2) [simp del]

lemma memory_Execute_False: "fst (memory_Execute ops t False cs ls) = False"
  by (induction cs arbitrary: ls) (simp_all add: memory_Execute_Cons)

lemma memory_Execute_grants:
  "distinct (map cmdName cs) \<Longrightarrow>
     fst (memory_Execute ops t True cs ls) \<longleftrightarrow> (\<forall>c \<in> set cs. grants ops t ls c)"
proof (induction cs arbitrary: ls)
  case (Cons c cs)
  have "grants ops t (AList.update (cmdName c) b ls) d = grants ops t ls d" if "d \<in> set cs" for b d
    using distinct_map_Cons_neq [OF Cons.prems that] by (rule grants_update)
  with Cons show ?case
    by (cases "grants ops t ls c") (simp_all add: memory_Execute_Cons memory_Execute_False)
qed simp

lemma memory_Execute_False_bucket:
  assumes "\<And>d. d \<in> set cs \<Longrightarrow> cmdName d = cmdName c \<Longrightarrow> cmdType d = cmdType c"
  shows "bucket_for ops t (snd (memory_Execute ops t False cs ls)) c = bucket_for ops t ls c"
  using assms
proof (induction cs arbitrary: ls)
  case (Cons d cs)
  have same: "bucket_for ops t ls d = bucket_for ops t ls c" if "cmdName d = cmdName c"
    using Cons.prems [OF list.set_intros(1) that] that by (simp add: bucket_for_def split: option.split)
  have "bucket_for ops t (AList.update (cmdName d) (bucket_for ops t ls d) ls) c = bucket_for ops t ls c"
  proof (cases "cmdName d = cmdName c")
    case True
    then show ?thesis by (simp add: same) (simp add: bucket_for_def)
  qed (simp add: bucket_for_update)
  moreover have "bucket_for ops t (snd (memory_Execute ops t False cs ls')) c = bucket_for ops t ls' c" for ls'
    by (rule Cons.IH, rule Cons.prems) simp_all
  ultimately show ?case by (simp only: memory_Execute_Cons if_False)
qed simp

text \<open>A refusal charges nothing after it: the buckets of the later commands are as before.\<close>

lemma memory_Execute_refused_suffix:
  assumes "distinct (map cmdName (pre @ c # post))" and "\<not> grants ops t ls c"
    and "d \<in> set post"
  shows "bucket_for ops t (snd (memory_Execute ops t True (pre @ c # post) ls)) d =
     bucket_for ops t ls d"
  using assms(1,2)
proof (induction pre arbitrary: ls)
  case Nil
  let ?ls = "AList.update (cmdName c) (snd (bk_take ops t (bucket_for ops t ls c) 1)) ls"
  have "bucket_for ops t (snd (memory_Execute ops t False post ?ls)) d = bucket_for ops t ?ls d"
  proof (rule memory_Execute_False_bucket)
    have dist: "distinct (map cmdName post)" using Nil(1) by simp
    show "cmdType e = cmdType d" if "e \<in> set post" "cmdName e = cmdName d" for e
      using distinct_map_same [OF dist that(1) assms(3) that(2)] by simp
  qed
  moreover have "bucket_for ops t ?ls d = bucket_for ops t ls d"
    using distinct_map_mid_neq [OF Nil(1) assms(3)] by (rule bucket_for_update)
  ultimately show ?case using Nil by (simp add: memory_Execute_Cons)
next
  case (Cons x pre)
  have xs: "distinct (map cmdName (x # pre @ c # post))" using Cons.prems(1) by simp
  have d: "cmdName d \<noteq> cmdName x" by (rule distinct_map_Cons_neq [OF xs]) (simp add: assms(3))
  have c: "cmdName c \<noteq> cmdName x" by (rule distinct_map_Cons_neq [OF xs]) simp
  have rest: "bucket_for ops t (AList.update (cmdName x) b ls) d = bucket_for ops t ls d" for b
    using d by (rule bucket_for_update)
  have dist: "distinct (map cmdName (pre @ c # post))" using xs by simp
  show ?case
  proof (cases "grants ops t ls x")
    case True
    let ?ls = "AList.update (cmdName x) (snd (bk_take ops t (bucket_for ops t ls x) 1)) ls"
    have "\<not> grants ops t ?ls c"
      by (subst grants_update [OF c]) (rule Cons.prems(2))
    note step = Cons.IH [OF dist this]
    show ?thesis
      by (simp only: append_Cons memory_Execute_Cons if_True True step rest)
  next
    case False
    have "d \<in> set (pre @ c # post)" using assms(3) by simp
    note same = distinct_map_same [OF dist _ this]
    have "bucket_for ops t (snd (memory_Execute ops t False (pre @ c # post) ls')) d =
        bucket_for ops t ls' d" for ls'
    proof (rule memory_Execute_False_bucket)
      show "cmdType e = cmdType d" if "e \<in> set (pre @ c # post)" "cmdName e = cmdName d" for e
        using same [OF that] by simp
    qed
    then show ?thesis
      by (simp only: append_Cons memory_Execute_Cons if_True False rest)
  qed
qed

section \<open>Quota of a burst\<close>

text \<open>The documented behaviour of \<open>juju/ratelimit\<close> buckets at one instant \<open>t\<close>: a new bucket is
  full, and \<open>TakeAvailable(1)\<close> takes one token exactly when one is available.\<close>

definition token_bucket :: "('b, 'r) limiter_ops \<Rightarrow> int \<Rightarrow> ('b \<Rightarrow> int) \<Rightarrow> bool" where
  "token_bucket ops t tokens \<longleftrightarrow>
     (\<forall>p n. 0 < p \<and> 0 < n \<longrightarrow> tokens (bk_new ops t p n n) = n) \<and>
     (\<forall>b. fst (bk_take ops t b 1) = (if 0 < tokens b then 1 else 0)
        \<and> tokens (snd (bk_take ops t b 1)) = tokens b - fst (bk_take ops t b 1))"

definition tokens_left :: "('b, 'r) limiter_ops \<Rightarrow> int \<Rightarrow> ('b \<Rightarrow> int) \<Rightarrow> (string, 'b) gomap \<Rightarrow> RateLimitCommand \<Rightarrow> int" where
  "tokens_left ops t tokens ls c = tokens (bucket_for ops t ls c)"

fun allow_burst ::
  "('b, 'r) limiter_ops \<Rightarrow> RateLimitBudget \<Rightarrow> string \<Rightarrow> nat \<Rightarrow> ('b, 'r) limiter_world
     \<Rightarrow> nat \<times> ('b, 'r) limiter_world" where
  "allow_burst ops b meth 0 w = (0, w)"
| "allow_burst ops b meth (Suc k) w =
     (let ((ok, _), w) = budget_Allow ops b meth w; (n, w) = allow_burst ops b meth k w
      in ((if ok then Suc n else n), w))"

lemma grants_tokens_left:
  "token_bucket ops t tokens \<Longrightarrow> grants ops t ls c \<longleftrightarrow> 0 < tokens_left ops t tokens ls c"
  by (simp add: grants_def tokens_left_def token_bucket_def)

lemma tokens_left_update_other:
  "cmdName c \<noteq> n \<Longrightarrow> tokens_left ops t tokens (AList.update n b ls) c = tokens_left ops t tokens ls c"
  by (simp add: tokens_left_def bucket_for_update)

lemma tokens_left_update_same:
  "tokens_left ops t tokens (AList.update (cmdName c) b ls) c = tokens b"
  by (simp add: tokens_left_def bucket_for_def)

lemma memory_Execute_not_in:
  "cmdName c \<notin> cmdName ` set cs \<Longrightarrow>
     tokens_left ops t tokens (snd (memory_Execute ops t res cs ls)) c = tokens_left ops t tokens ls c"
  using memory_Execute_frame [of "cmdName c" cs ops t res ls] by (simp add: tokens_left_def bucket_for_def)

text \<open>One execution: a command loses a token when all are granted, and never gains one.\<close>

lemma memory_Execute_tokens:
  assumes tb: "token_bucket ops t tokens" and "distinct (map cmdName cs)" and "c \<in> set cs"
  shows "tokens_left ops t tokens (snd (memory_Execute ops t True cs ls)) c \<le> tokens_left ops t tokens ls c
     \<and> (fst (memory_Execute ops t True cs ls) \<longrightarrow>
          tokens_left ops t tokens (snd (memory_Execute ops t True cs ls)) c = tokens_left ops t tokens ls c - 1)"
  using assms(2,3)
proof (induction cs arbitrary: ls)
  case (Cons d cs)
  let ?ls = "AList.update (cmdName d) (snd (bk_take ops t (bucket_for ops t ls d) 1)) ls"
  have dist: "distinct (map cmdName cs)" and d: "cmdName d \<notin> cmdName ` set cs" using Cons.prems by auto
  have step: "memory_Execute ops t True (d # cs) ls = memory_Execute ops t (grants ops t ls d) cs ?ls"
    by (simp add: memory_Execute_Cons)
  have take: "tokens_left ops t tokens ?ls d = tokens_left ops t tokens ls d - (if grants ops t ls d then 1 else 0)"
    unfolding tokens_left_update_same using tb by (simp add: tokens_left_def grants_def token_bucket_def)
  show ?case
  proof (cases "c = d")
    case True
    have "tokens_left ops t tokens (snd (memory_Execute ops t (grants ops t ls d) cs ?ls)) d = tokens_left ops t tokens ?ls d"
      using d by (rule memory_Execute_not_in)
    with True step take memory_Execute_False [of ops t cs ?ls] show ?thesis
      by (cases "grants ops t ls d") simp_all
  next
    case False
    then have c: "c \<in> set cs" using Cons.prems by simp
    with d have "cmdName c \<noteq> cmdName d" by (metis image_eqI)
    then have same: "tokens_left ops t tokens ?ls c = tokens_left ops t tokens ls c" by (rule tokens_left_update_other)
    show ?thesis
    proof (cases "grants ops t ls d")
      case True
      with step Cons.IH [OF dist c, of ?ls] same show ?thesis by simp
    next
      case False
      have "bucket_for ops t (snd (memory_Execute ops t False cs ?ls)) c = bucket_for ops t ?ls c"
      proof (rule memory_Execute_False_bucket)
        show "cmdType e = cmdType c" if "e \<in> set cs" "cmdName e = cmdName c" for e
          using distinct_map_same [OF dist that(1) c that(2)] by simp
      qed
      with False step same memory_Execute_False [of ops t cs ?ls] show ?thesis
        by (simp add: tokens_left_def)
    qed
  qed
qed simp

definition least_tokens ::
  "('b, 'r) limiter_ops \<Rightarrow> int \<Rightarrow> ('b \<Rightarrow> int) \<Rightarrow> (string, 'b) gomap \<Rightarrow> RateLimitCommand list \<Rightarrow> int" where
  "least_tokens ops t tokens ls cs = Min (tokens_left ops t tokens ls ` set cs)"

lemma least_tokens_step:
  fixes ls :: "(string, 'b) gomap" and ops :: "('b, 'r) limiter_ops"
  assumes tb: "token_bucket ops t tokens" and dist: "distinct (map cmdName cs)" and ne: "cs \<noteq> []"
  defines "r \<equiv> memory_Execute ops t True cs ls"
  shows "fst r \<longleftrightarrow> 0 < least_tokens ops t tokens ls cs"
    and "fst r \<Longrightarrow> least_tokens ops t tokens (snd r) cs = least_tokens ops t tokens ls cs - 1"
    and "least_tokens ops t tokens (snd r) cs \<le> least_tokens ops t tokens ls cs"
proof -
  have fin: "finite (tokens_left ops t tokens ls' ` set cs)" "tokens_left ops t tokens ls' ` set cs \<noteq> {}" for ls'
    using ne by simp_all
  note step = memory_Execute_tokens [OF tb dist, of _ ls]
  show "fst r \<longleftrightarrow> 0 < least_tokens ops t tokens ls cs"
    using memory_Execute_grants [OF dist, of ops t ls] grants_tokens_left [OF tb] fin
    by (simp add: r_def least_tokens_def Min_gr_iff)
  show "least_tokens ops t tokens (snd r) cs \<le> least_tokens ops t tokens ls cs"
    unfolding least_tokens_def
  proof (rule Min.boundedI [OF fin])
    fix x assume "x \<in> tokens_left ops t tokens ls ` set cs"
    then obtain c where c: "c \<in> set cs" "x = tokens_left ops t tokens ls c" by blast
    have "Min (tokens_left ops t tokens (snd r) ` set cs) \<le> tokens_left ops t tokens (snd r) c"
      using c fin by (intro Min_le) simp_all
    with step [OF c(1)] c(2) show "Min (tokens_left ops t tokens (snd r) ` set cs) \<le> x" by (simp add: r_def)
  qed
  assume "fst r"
  then have "tokens_left ops t tokens (snd r) ` set cs = (\<lambda>x. x - 1) ` tokens_left ops t tokens ls ` set cs"
    using step by (simp add: r_def image_image cong: image_cong)
  moreover have "Min ((\<lambda>x. x - 1) ` A) = Min A - 1" if "finite A" "A \<noteq> {}" for A :: "int set"
    using that by (intro mono_Min_commute [symmetric]) (auto simp: mono_def)
  ultimately show "least_tokens ops t tokens (snd r) cs = least_tokens ops t tokens ls cs - 1"
    using fin by (simp add: least_tokens_def)
qed

text \<open>A burst at one instant: the clock stays, and the budget's engine holds the limiters of the
  calls made so far.\<close>

lemma budget_Allow_memory:
  fixes ops :: "('b, 'r) limiter_ops" and meth :: string
  assumes "engine_at w (Engine b) = MemoryEngine ls"
  defines "r \<equiv> memory_Execute ops (clock w) True (budget_commands b meth) ls"
  shows "fst (budget_Allow ops b meth w) = (fst r, False)"
    and "engine_at (snd (budget_Allow ops b meth w)) (Engine b) = MemoryEngine (snd r)"
    and "clock (snd (budget_Allow ops b meth w)) = clock w"
  using assms(1)
  by (simp_all add: budget_Allow_def engine_Execute_def engine_at_def r_def Let_def case_prod_unfold)

lemma allow_burst_memory:
  assumes tb: "token_bucket ops (clock w) tokens"
    and ne: "budget_commands b meth \<noteq> []"
    and "engine_at w (Engine b) = MemoryEngine ls"
  shows "int (fst (allow_burst ops b meth k w)) =
     min (int k) (max 0 (least_tokens ops (clock w) tokens ls (budget_commands b meth)))"
  using assms(1,3)
proof (induction k arbitrary: w ls)
  case (Suc k)
  let ?cs = "budget_commands b meth"
  let ?r = "memory_Execute ops (clock w) True ?cs ls"
  let ?w = "snd (budget_Allow ops b meth w)"
  note step = budget_Allow_memory [OF Suc.prems(2), of ops meth]
  note least = least_tokens_step [OF Suc.prems(1) budget_commands_distinct ne, of ls]
  have tb: "token_bucket ops (clock ?w) tokens" using Suc.prems(1) step(3) by simp
  have "int (fst (allow_burst ops b meth (Suc k) w)) =
      (if fst ?r then 1 else 0) + int (fst (allow_burst ops b meth k ?w))"
    using step(1) by (simp add: Let_def case_prod_unfold)
  also have "int (fst (allow_burst ops b meth k ?w)) =
      min (int k) (max 0 (least_tokens ops (clock w) tokens (snd ?r) ?cs))"
    using Suc.IH [OF tb step(2)] step(3) by simp
  finally show ?case
    using least by (cases "fst ?r") auto
qed simp

lemma budget_commands_set:
  "set (budget_commands b meth) =
     {\<lparr>cmdType = ruleType r, cmdName = command_name (Name b) i (Check r)\<rparr> |i r.
        i < length (Rules b) \<and> r = Rules b ! i \<and> rule_match (Check r) meth}"
  by (auto simp: budget_commands_def in_set_enumerate_eq image_iff)

lemma budget_commands_requests:
  "(\<lambda>c. requests (cmdType c)) ` set (budget_commands b meth) =
     (\<lambda>r. requests (ruleType r)) ` {r \<in> set (Rules b). rule_match (Check r) meth}"
proof -
  let ?xs = "filter (\<lambda>(i, r). rule_match (Check r) meth) (enumerate 0 (Rules b))"
  have "snd ` set ?xs = {r \<in> set (Rules b). rule_match (Check r) meth}"
    using arg_cong [OF filter_map [of "\<lambda>r. rule_match (Check r) meth" snd "enumerate 0 (Rules b)"], of set]
    by (simp add: comp_def case_prod_unfold)
  moreover have "(\<lambda>c. requests (cmdType c)) ` set (budget_commands b meth) =
      (\<lambda>r. requests (ruleType r)) ` snd ` set ?xs"
    by (simp add: budget_commands_def image_image case_prod_unfold)
  ultimately show ?thesis by simp
qed

section \<open>Properties\<close>

text \<open>\<^bold>\<open>C8\<close>. A call against a budget kept in memory is admitted exactly when the bucket of every rule that
  matches its method has a token, and the engine never reports an error.\<close>

theorem budget_admits_iff_every_rule_grants:
  assumes "engine_at w (Engine b) = MemoryEngine ls"
  shows "fst (budget_Allow ops b meth w) =
     ((\<forall>i < length (Rules b). rule_match (Check (Rules b ! i)) meth \<longrightarrow>
         grants ops (clock w) ls
           \<lparr>cmdType = ruleType (Rules b ! i), cmdName = command_name (Name b) i (Check (Rules b ! i))\<rparr>),
      False)"
  using budget_Allow_memory(1) [OF assms, of ops meth]
    memory_Execute_grants [OF budget_commands_distinct, of ops "clock w" b meth ls]
  by (auto simp: budget_commands_set)

text \<open>From fresh limiters, a burst of \<open>k\<close> calls of one method at one instant is admitted exactly as often
  as the strictest matching rule allows: the minimum of \<open>k\<close> and the least \<open>requests\<close> among the rules
  that match.\<close>

theorem burst_admits_strictest_quota:
  assumes "token_bucket ops (clock w) tokens" and "engine_at w (Engine b) = MemoryEngine []"
    and "\<forall>r \<in> set (Rules b). 0 < requests (ruleType r) \<and> 0 < period (ruleType r)"
    and "\<exists>r \<in> set (Rules b). rule_match (Check r) meth"
  shows "int (fst (allow_burst ops b meth k w)) =
     min (int k) (Min ((\<lambda>r. requests (ruleType r)) ` {r \<in> set (Rules b). rule_match (Check r) meth}))"
proof -
  let ?cs = "budget_commands b meth"
  let ?q = "(\<lambda>r. requests (ruleType r)) ` {r \<in> set (Rules b). rule_match (Check r) meth}"
  have ne: "?cs \<noteq> []" using assms(4) budget_commands_requests [of b meth] by fastforce
  have "tokens_left ops (clock w) tokens [] c = requests (cmdType c)" if "c \<in> set ?cs" for c
    using that assms(1,3) by (auto simp: budget_commands_set tokens_left_def bucket_for_def token_bucket_def)
  then have "least_tokens ops (clock w) tokens [] ?cs = Min ?q"
    unfolding least_tokens_def budget_commands_requests [symmetric] by (simp cong: image_cong)
  moreover have "0 < Min ?q" using assms(3,4) by (subst Min_gr_iff) auto
  ultimately show ?thesis using allow_burst_memory [OF assms(1) ne assms(2), of k] by simp
qed

text \<open>A refused rule charges no rule after it: when the rule at index \<open>i\<close> has no token, the bucket of every
  matching rule behind it is left as it was.\<close>

theorem refusal_charges_no_later_rule:
  assumes "engine_at w (Engine b) = MemoryEngine ls" and "budget_commands b meth = pre @ c # post"
    and "\<not> grants ops (clock w) ls c" and "d \<in> set post"
  shows "\<exists>ls'. engine_at (snd (budget_Allow ops b meth w)) (Engine b) = MemoryEngine ls'
     \<and> bucket_for ops (clock w) ls' d = bucket_for ops (clock w) ls d"
  using budget_Allow_memory(2) [OF assms(1), of ops meth] assms(2)
    memory_Execute_refused_suffix [OF _ assms(3,4), of pre] budget_commands_distinct [of b meth]
  by simp

text \<open>The attempt counter of the auto-tuner is keyed by the number of whole periods, each a million
  times as long as configured.\<close>

lemma autotune_timeKey_scale: "0 < p \<Longrightarrow> autotune_timeKey t p = t div (1000000 * p)"
  by (simp add: autotune_timeKey_def zdiv_zmult2_eq)

section \<open>Concrete instances\<close>

text \<open>A bucket that is its number of tokens, and a budget with a rule of two requests on one
  method and a rule of three on all.\<close>

definition counting_ops :: "(int, unit) limiter_ops" where
  "counting_ops = \<lparr>bk_new = (\<lambda>t p n q. n), bk_take = (\<lambda>t b n. if 0 < b then (1, b - 1) else (0, b)),
     rd_exec = (\<lambda>r cs. (None, r))\<rparr>"

definition sample_budget :: RateLimitBudget where
  "sample_budget = \<lparr>Name = ''b'', Rules =
     [\<lparr>Check = ruleCheckMethod ''eth_call'', ruleType = \<lparr>requests = 2, period = 1000000000\<rparr>\<rparr>,
      \<lparr>Check = ruleCheckPattern ''.*'' (\<lambda>s. True), ruleType = \<lparr>requests = 3, period = 1000000000\<rparr>\<rparr>],
     Engine = 0\<rparr>"

definition sample_world :: "(int, unit) limiter_world" where
  "sample_world = \<lparr>clock = 0, engines = [(0, MemoryEngine [])], redis = (), autotunes = []\<rparr>"

lemmas limiter_samples = counting_ops_def sample_budget_def sample_world_def

lemma counting_token_bucket: "token_bucket counting_ops t (\<lambda>b. b)"
  by (simp add: token_bucket_def counting_ops_def)

lemma sample_engine: "engine_at sample_world (Engine sample_budget) = MemoryEngine []"
  by (simp add: limiter_samples engine_at_def)

theorem budget_admits_iff_every_rule_grants_witness:
  "fst (budget_Allow counting_ops sample_budget ''eth_call'' sample_world) = (True, False)"
  unfolding budget_admits_iff_every_rule_grants [OF sample_engine]
  by (auto simp: limiter_samples grants_def bucket_for_def less_Suc_eq)

theorem burst_admits_strictest_quota_witness:
  "fst (allow_burst counting_ops sample_budget ''eth_call'' 5 sample_world) = 2"
proof -
  have rules: "{r \<in> set (Rules sample_budget). rule_match (Check r) ''eth_call''} = set (Rules sample_budget)"
    by (auto simp: sample_budget_def)
  have "int (fst (allow_burst counting_ops sample_budget ''eth_call'' 5 sample_world)) = 2"
    using burst_admits_strictest_quota [OF counting_token_bucket sample_engine, of "''eth_call''" 5]
    unfolding rules by (simp add: sample_budget_def)
  then show ?thesis by simp
qed

theorem refusal_charges_no_later_rule_witness:
  "\<exists>w ls ls' c d. engine_at w (Engine sample_budget) = MemoryEngine ls
     \<and> budget_commands sample_budget ''eth_call'' = [] @ c # [d]
     \<and> \<not> grants counting_ops (clock w) ls c
     \<and> engine_at (snd (budget_Allow counting_ops sample_budget ''eth_call'' w)) (Engine sample_budget) = MemoryEngine ls'
     \<and> bucket_for counting_ops (clock w) ls' d = bucket_for counting_ops (clock w) ls d"
proof -
  let ?c = "\<lparr>cmdType = \<lparr>requests = 2, period = 1000000000\<rparr>,
    cmdName = command_name ''b'' 0 (ruleCheckMethod ''eth_call'')\<rparr>"
  let ?d = "\<lparr>cmdType = \<lparr>requests = 3, period = 1000000000\<rparr>,
    cmdName = command_name ''b'' 1 (ruleCheckPattern ''.*'' (\<lambda>s. True))\<rparr>"
  let ?ls = "[(cmdName ?c, 0::int)]"
  let ?w = "sample_world\<lparr>engines := [(0, MemoryEngine ?ls)]\<rparr>"
  have e: "engine_at ?w (Engine sample_budget) = MemoryEngine ?ls"
    by (simp add: limiter_samples engine_at_def)
  have cs: "budget_commands sample_budget ''eth_call'' = [] @ ?c # [?d]"
    by (simp add: budget_commands_def sample_budget_def)
  have g: "\<not> grants counting_ops (clock ?w) ?ls ?c"
    by (simp add: grants_def bucket_for_def counting_ops_def)
  from refusal_charges_no_later_rule [OF e cs g, of ?d] e cs g show ?thesis by fastforce
qed

end
