(* ===== verification/Protocol.thy ===== *)
theory Protocol
  imports Specs RateLimiter
begin

text \<open>
  The protocol types of \<open>internal/protocol\<close> and \<open>pkg/blockchain\<close>: blocks, the per-upstream tables of
  tracked blocks, lower bounds and labels, availability and its dependence on the head lag, the state
  an upstream publishes, and the state events with their \<open>Same\<close> and \<open>ProcessEvent\<close> methods.

  The tables are \<open>utils.CMap\<close> values, modelled as association lists. Their \<open>Copy\<close> methods range
  over the table; the lemmas show that the order of that iteration does not matter. A pointer or an
  interface that may be nil is an \<open>option\<close>, and dereferencing nil is the value \<open>None\<close> of the operation.
\<close>

section \<open>Hashes and blocks\<close>

type_synonym HashId = "byte list"

definition HashId_Equals :: "HashId \<Rightarrow> HashId \<Rightarrow> bool" where
  "HashId_Equals h k \<longleftrightarrow> h = k"

fun ToHex :: "HashId \<Rightarrow> string" where
  "ToHex [] = []"
| "ToHex (b # bs) =
     hex_char (unat (drop_bit 4 (and b 0xF0))) # hex_char (unat (and b 0x0F)) # ToHex bs"

definition ToHexWithPrefix :: "HashId \<Rightarrow> string" where
  "ToHexWithPrefix h = ''0x'' @ ToHex h"

definition NewHashIdFromBytes :: "byte list \<Rightarrow> HashId" where
  "NewHashIdFromBytes v =
     (if 2 \<le> length v \<and> v ! 0 = 0x30 \<and> (v ! 1 = 0x78 \<or> v ! 1 = 0x58) then drop 2 v else v)"

subsection \<open>Base64, as far as hashes use it\<close>

text \<open>\<open>encoding/base64\<close>: line breaks are skipped; the standard decoder wants the padding of the last
  group, the raw decoder refuses it. Both ignore the spare bits of the last character.\<close>

definition b64_val :: "char \<Rightarrow> nat option" where
  "b64_val c =
     (let k = (of_char c :: nat) in
      if 65 \<le> k \<and> k \<le> 90 then Some (k - 65)
      else if 97 \<le> k \<and> k \<le> 122 then Some (k - 71)
      else if 48 \<le> k \<and> k \<le> 57 then Some (k + 4)
      else if k = 43 then Some 62
      else if k = 47 then Some 63
      else None)"

definition b64_bytes :: "nat \<Rightarrow> nat \<Rightarrow> nat \<Rightarrow> nat \<Rightarrow> byte list" where
  "b64_bytes a b c d =
     (let n = ((a * 64 + b) * 64 + c) * 64 + d
      in [of_nat (n div 65536), of_nat (n div 256 mod 256), of_nat (n mod 256)])"

fun b64_raw :: "string \<Rightarrow> byte list option" where
  "b64_raw [] = Some []"
| "b64_raw [a] = None"
| "b64_raw [a, b] =
     (case (b64_val a, b64_val b) of
        (Some x, Some y) \<Rightarrow> Some (take 1 (b64_bytes x y 0 0)) | _ \<Rightarrow> None)"
| "b64_raw [a, b, c] =
     (case (b64_val a, b64_val b, b64_val c) of
        (Some x, Some y, Some z) \<Rightarrow> Some (take 2 (b64_bytes x y z 0)) | _ \<Rightarrow> None)"
| "b64_raw (a # b # c # d # s) =
     (case (b64_val a, b64_val b, b64_val c, b64_val d) of
        (Some x, Some y, Some z, Some w) \<Rightarrow> map_option ((@) (b64_bytes x y z w)) (b64_raw s)
      | _ \<Rightarrow> None)"

fun b64_padded :: "string \<Rightarrow> byte list option" where
  "b64_padded [] = Some []"
| "b64_padded (a # b # c # d # s) =
     (if d = CHR ''='' then
        (if s \<noteq> [] then None
         else if c = CHR ''='' then b64_raw [a, b] else b64_raw [a, b, c])
      else case b64_raw [a, b, c, d] of
        None \<Rightarrow> None
      | Some bs \<Rightarrow> map_option ((@) bs) (b64_padded s))"
| "b64_padded _ = None"

definition b64_clean :: "string \<Rightarrow> string" where
  "b64_clean s = filter (\<lambda>c. c \<noteq> CHR 0x0A \<and> c \<noteq> CHR 0x0D) s"

definition b64_StdEncoding :: "string \<Rightarrow> byte list option" where
  "b64_StdEncoding s = b64_padded (b64_clean s)"

definition b64_RawStdEncoding :: "string \<Rightarrow> byte list option" where
  "b64_RawStdEncoding s = b64_raw (b64_clean s)"

definition string_bytes :: "string \<Rightarrow> byte list" where
  "string_bytes s = map (\<lambda>c. of_nat (of_char c)) s"

definition NewHashIdFromString :: "string \<Rightarrow> HashId" where
  "NewHashIdFromString value =
     (let clean = (if hasPrefix value ''0x'' \<or> hasPrefix value ''0X'' then drop 2 value else value);
          clean = (if length clean mod 2 \<noteq> 0 then ''0'' @ clean else clean)
      in case hex_decode clean of
           Some bs \<Rightarrow> bs
         | None \<Rightarrow>
             (case b64_StdEncoding value of
                Some bs \<Rightarrow> bs
              | None \<Rightarrow>
                  (case b64_RawStdEncoding value of
                     Some bs \<Rightarrow> bs
                   | None \<Rightarrow> string_bytes value)))"

lemma ToHex_step:
  fixes b :: byte
  shows "unat (drop_bit 4 (and b 0xF0)) = unat b div 16" and "unat (and b 0x0F) = unat b mod 16"
proof -
  have all: "list_all (\<lambda>n. unat (drop_bit 4 (and (of_nat n :: byte) 0xF0)) = n div 16
      \<and> unat (and (of_nat n :: byte) 0x0F) = n mod 16) [0..<256]"
    by code_simp
  have b: "of_nat (unat b) = b" by (simp only: of_nat_unat ucast_id)
  have "unat b \<in> set [0..<256]" using unsigned_less [of b, where 'a = nat] by simp
  from bspec [OF all [unfolded list_all_iff] this] b
  show "unat (drop_bit 4 (and b 0xF0)) = unat b div 16" "unat (and b 0x0F) = unat b mod 16"
    by (simp_all only:)
qed

lemma ToHex_hex_encode: "ToHex h = hex_encode h"
  by (induction h) (simp_all only: ToHex.simps ToHex_step hex_encode_def list.map concat.simps append.simps)

lemma hex_encode_no_prefix: "\<not> hasPrefix (hex_encode h) ''0x''" "\<not> hasPrefix (hex_encode h) ''0X''"
proof -
  have digits: "hex_char n \<noteq> CHR ''x'' \<and> hex_char n \<noteq> CHR ''X''" if "n < 16" for n
    using hex_val_hex_char [OF that] by (auto simp: hex_val_def Let_def)
  have "unat b mod 16 < 16" for b :: byte by simp
  from digits [OF this] show "\<not> hasPrefix (hex_encode h) ''0x''" "\<not> hasPrefix (hex_encode h) ''0X''"
    by (cases h; simp add: hex_encode_def hasPrefix_iff)+
qed

lemma NewHashIdFromString_ToHex:
  "NewHashIdFromString (ToHexWithPrefix h) = h" "NewHashIdFromString (ToHex h) = h"
proof -
  have "hasPrefix (''0x'' @ hex_encode h) ''0x''" by (rule hasPrefix_append)
  then show "NewHashIdFromString (ToHexWithPrefix h) = h" "NewHashIdFromString (ToHex h) = h"
    by (simp_all add: NewHashIdFromString_def ToHexWithPrefix_def ToHex_hex_encode hex_encode_no_prefix
        length_hex_encode hex_decode_encode)
qed

record Block =
  Height :: u64
  Slot :: u64
  Hash :: HashId
  ParentHash :: HashId
  RawData :: "byte list"

definition ZeroBlock :: Block where
  "ZeroBlock = \<lparr>Height = 0, Slot = 0, Hash = [], ParentHash = [], RawData = []\<rparr>"

definition Block_Equals :: "Block \<Rightarrow> Block \<Rightarrow> bool" where
  "Block_Equals b c \<longleftrightarrow> Height b = Height c \<and> Slot b = Slot c
     \<and> HashId_Equals (Hash b) (Hash c) \<and> HashId_Equals (ParentHash b) (ParentHash c)"

definition CompareWithHeight :: "Block \<Rightarrow> Block \<Rightarrow> int" where
  "CompareWithHeight b c = cmp_u64 (Height b) (Height c)"

definition IsEmptyByHeight :: "Block \<Rightarrow> bool" where
  "IsEmptyByHeight b \<longleftrightarrow> Height b = 0 \<and> length (Hash b) = 0 \<and> length (ParentHash b) = 0"

definition IsFullEmpty :: "Block \<Rightarrow> bool" where
  "IsFullEmpty b \<longleftrightarrow> Height b = 0 \<and> Slot b = 0 \<and> length (Hash b) = 0 \<and> length (ParentHash b) = 0"

definition NewBlockWithHeight :: "u64 \<Rightarrow> Block" where
  "NewBlockWithHeight h = ZeroBlock\<lparr>Height := h\<rparr>"

definition NewBlock :: "u64 \<Rightarrow> u64 \<Rightarrow> HashId \<Rightarrow> HashId \<Rightarrow> Block" where
  "NewBlock h s hash parent = ZeroBlock\<lparr>Height := h, Slot := s, Hash := hash, ParentHash := parent\<rparr>"

definition NewBlockWithHeights :: "u64 \<Rightarrow> u64 \<Rightarrow> Block" where
  "NewBlockWithHeights h s = ZeroBlock\<lparr>Height := h, Slot := s\<rparr>"

datatype BlockType = FinalizedBlock | SafeBlock

type_synonym BlockInfo = "(BlockType, Block) gomap"

definition AddBlock :: "Block \<Rightarrow> BlockType \<Rightarrow> BlockInfo \<Rightarrow> BlockInfo" where
  "AddBlock data t b = AList.update t data b"

definition GetBlock :: "BlockInfo \<Rightarrow> BlockType \<Rightarrow> Block" where
  "GetBlock b t = (case map_of b t of None \<Rightarrow> ZeroBlock | Some x \<Rightarrow> x)"

definition BlockInfo_Copy :: "BlockInfo \<Rightarrow> BlockInfo" where
  "BlockInfo_Copy b = fold (\<lambda>(k, v). AddBlock v k) b []"

definition GetBlocks :: "BlockInfo \<Rightarrow> (BlockType, Block) gomap" where
  "GetBlocks b = fold (\<lambda>(k, v). AList.update k v) b []"

section \<open>Lower bounds\<close>

datatype LowerBoundType =
    UnknownBound | SlotBound | StateBound | ReceiptsBound | TxBound | BlockBound
  | LogsBound | TraceBound | ProofBound | EpochBound | BlobBound

fun LowerBoundType_String :: "LowerBoundType \<Rightarrow> string" where
  "LowerBoundType_String SlotBound = ''SLOT''"
| "LowerBoundType_String UnknownBound = ''UNKNOWN''"
| "LowerBoundType_String StateBound = ''STATE''"
| "LowerBoundType_String ReceiptsBound = ''RECEIPTS''"
| "LowerBoundType_String TxBound = ''TX''"
| "LowerBoundType_String BlockBound = ''BLOCK''"
| "LowerBoundType_String LogsBound = ''LOGS''"
| "LowerBoundType_String TraceBound = ''TRACE''"
| "LowerBoundType_String ProofBound = ''PROOF''"
| "LowerBoundType_String EpochBound = ''EPOCH''"
| "LowerBoundType_String BlobBound = ''BLOB''"

fun bound_code :: "LowerBoundType \<Rightarrow> int" where
  "bound_code UnknownBound = 1"
| "bound_code SlotBound = 2"
| "bound_code StateBound = 3"
| "bound_code ReceiptsBound = 4"
| "bound_code TxBound = 5"
| "bound_code BlockBound = 6"
| "bound_code LogsBound = 7"
| "bound_code TraceBound = 8"
| "bound_code ProofBound = 9"
| "bound_code EpochBound = 10"
| "bound_code BlobBound = 11"

lemma bound_code_inj [simp]: "bound_code a = bound_code b \<longleftrightarrow> a = b"
  by (cases a; cases b) simp_all

lemma LowerBoundType_String_inj: "LowerBoundType_String a = LowerBoundType_String b \<longleftrightarrow> a = b"
  by (cases a; cases b) simp_all

instantiation LowerBoundType :: linorder
begin

definition less_eq_LowerBoundType :: "LowerBoundType \<Rightarrow> LowerBoundType \<Rightarrow> bool" where
  "less_eq_LowerBoundType a b \<longleftrightarrow> bound_code a \<le> bound_code b"

definition less_LowerBoundType :: "LowerBoundType \<Rightarrow> LowerBoundType \<Rightarrow> bool" where
  "less_LowerBoundType a b \<longleftrightarrow> bound_code a < bound_code b"

instance
  by standard (auto simp: less_eq_LowerBoundType_def less_LowerBoundType_def)

end

record LowerBoundData =
  Bound :: i64
  Timestamp :: i64
  boundType :: LowerBoundType

definition NewLowerBoundData :: "i64 \<Rightarrow> i64 \<Rightarrow> LowerBoundType \<Rightarrow> LowerBoundData" where
  "NewLowerBoundData b t ty = \<lparr>Bound = b, Timestamp = t, boundType = ty\<rparr>"

type_synonym LowerBoundInfo = "(LowerBoundType, LowerBoundData) gomap"

definition GetLowerBound :: "LowerBoundInfo \<Rightarrow> LowerBoundType \<Rightarrow> LowerBoundData option" where
  "GetLowerBound l t = map_of l t"

definition AddLowerBound :: "LowerBoundData \<Rightarrow> LowerBoundInfo \<Rightarrow> LowerBoundInfo" where
  "AddLowerBound d l = AList.update (boundType d) d l"

definition GetAllBounds :: "LowerBoundInfo \<Rightarrow> LowerBoundData list" where
  "GetAllBounds l = map snd l"

definition LowerBoundInfo_Copy :: "LowerBoundInfo \<Rightarrow> LowerBoundInfo" where
  "LowerBoundInfo_Copy l = fold (\<lambda>(k, v). AddLowerBound v) l []"

section \<open>Labels\<close>

type_synonym LabelsMap = "(string, string) gomap"

definition GetLabel :: "LabelsMap \<Rightarrow> string \<Rightarrow> string option" where
  "GetLabel l k = map_of l k"

definition AddLabel :: "string \<Rightarrow> string \<Rightarrow> LabelsMap \<Rightarrow> LabelsMap" where
  "AddLabel k v l = AList.update k v l"

definition GetAllLabels :: "LabelsMap \<Rightarrow> (string, string) gomap" where
  "GetAllLabels l = fold (\<lambda>(k, v). AList.update k v) l []"

definition Labels_Copy :: "LabelsMap \<Rightarrow> LabelsMap" where
  "Labels_Copy l = fold (\<lambda>(k, v). AddLabel k v) l []"

text \<open>Copying an association list entry by entry, in any order, gives the same map back.\<close>

lemma fold_update_copy:
  assumes "range_order ro" and "gm_wf m"
  shows "map_of (fold (\<lambda>(k, v). AList.update k v) (ro m) []) = map_of m"
proof -
  have "gm_wf (ro m)" using assms by (simp add: range_order_wf)
  then show ?thesis
    using assms by (simp add: map_of_fold_update map_of_rev_wf range_order_map_of)
qed

lemma gm_wf_fold_update: "gm_wf m \<Longrightarrow> gm_wf (fold (\<lambda>(k, v). AList.update k v) xs m)"
  by (induction xs arbitrary: m) auto

lemma BlockInfo_Copy_eq: "BlockInfo_Copy b = fold (\<lambda>(k, v). AList.update k v) b []"
  by (simp add: BlockInfo_Copy_def AddBlock_def [abs_def])

lemma Labels_Copy_eq: "Labels_Copy l = fold (\<lambda>(k, v). AList.update k v) l []"
  by (simp add: Labels_Copy_def AddLabel_def [abs_def])

lemma copy_same_map:
  "gm_wf b \<Longrightarrow> map_of (BlockInfo_Copy b) = map_of b"
  "gm_wf l \<Longrightarrow> map_of (Labels_Copy l) = map_of l"
  "gm_wf b \<Longrightarrow> map_of (GetBlocks b) = map_of b"
  "gm_wf l \<Longrightarrow> map_of (GetAllLabels l) = map_of l"
  using fold_update_copy [OF range_order_id(1)]
  by (simp_all add: BlockInfo_Copy_eq Labels_Copy_eq GetBlocks_def GetAllLabels_def)

definition bounds_wf :: "LowerBoundInfo \<Rightarrow> bool" where
  "bounds_wf l \<longleftrightarrow> gm_wf l \<and> (\<forall>(k, d) \<in> set l. boundType d = k)"

lemma LowerBoundInfo_Copy_eq:
  "\<forall>(k, d) \<in> set l. boundType d = k \<Longrightarrow>
     LowerBoundInfo_Copy l = fold (\<lambda>(k, v). AList.update k v) l []"
  unfolding LowerBoundInfo_Copy_def AddLowerBound_def by (intro fold_cong) auto

lemma LowerBoundInfo_Copy_same: "bounds_wf l \<Longrightarrow> map_of (LowerBoundInfo_Copy l) = map_of l"
  using fold_update_copy [OF range_order_id(1), of l]
  by (simp add: bounds_wf_def LowerBoundInfo_Copy_eq)

lemma map_wf_values:
  assumes "gm_wf l"
  shows "(\<forall>(k, d) \<in> set l. P k d) \<longleftrightarrow> (\<forall>k d. map_of l k = Some d \<longrightarrow> P k d)"
proof -
  have "(\<forall>(k, d) \<in> set l. P k d) \<longleftrightarrow> (\<forall>k d. (k, d) \<in> set l \<longrightarrow> P k d)" by auto
  then show ?thesis by (simp only: gm_ran_wf [OF assms])
qed

lemma bounds_wf_iff:
  "bounds_wf l \<longleftrightarrow> gm_wf l \<and> (\<forall>k d. map_of l k = Some d \<longrightarrow> boundType d = k)"
  using map_wf_values [of l "\<lambda>k d. boundType d = k"] by (auto simp only: bounds_wf_def)

lemma bounds_wf_Add: "bounds_wf l \<Longrightarrow> bounds_wf (AddLowerBound d l)"
  by (auto simp: bounds_wf_iff AddLowerBound_def)

lemma bounds_wf_Copy: "bounds_wf l \<Longrightarrow> bounds_wf (LowerBoundInfo_Copy l)"
proof -
  assume l: "bounds_wf l"
  then have "gm_wf (LowerBoundInfo_Copy l)"
    by (simp add: bounds_wf_def LowerBoundInfo_Copy_eq gm_wf_fold_update)
  with l show ?thesis using LowerBoundInfo_Copy_same [OF l] by (simp add: bounds_wf_iff)
qed

section \<open>Availability\<close>

datatype AvailabilityStatus = Available | Immature | Syncing | Unavailable | UnknownStatus

fun status_code :: "AvailabilityStatus \<Rightarrow> int" where
  "status_code Available = 1"
| "status_code Immature = 2"
| "status_code Syncing = 3"
| "status_code Unavailable = 4"
| "status_code UnknownStatus = 9223372036854775807"

lemma status_code_inj [simp]: "status_code a = status_code b \<longleftrightarrow> a = b"
  by (cases a; cases b) simp_all

instantiation AvailabilityStatus :: linorder
begin

definition less_eq_AvailabilityStatus :: "AvailabilityStatus \<Rightarrow> AvailabilityStatus \<Rightarrow> bool" where
  "less_eq_AvailabilityStatus a b \<longleftrightarrow> status_code a \<le> status_code b"

definition less_AvailabilityStatus :: "AvailabilityStatus \<Rightarrow> AvailabilityStatus \<Rightarrow> bool" where
  "less_AvailabilityStatus a b \<longleftrightarrow> status_code a < status_code b"

instance
  by standard (auto simp: less_eq_AvailabilityStatus_def less_AvailabilityStatus_def)

end

lemma Available_least [simp]: "Available \<le> s"
  by (cases s) (simp_all add: less_eq_AvailabilityStatus_def)

lemma UnknownStatus_greatest [simp]: "s \<le> UnknownStatus"
  by (cases s) (simp_all add: less_eq_AvailabilityStatus_def)

fun AvailabilityStatus_String :: "AvailabilityStatus \<Rightarrow> string" where
  "AvailabilityStatus_String Available = ''AVAILABLE''"
| "AvailabilityStatus_String Unavailable = ''UNAVAILABLE''"
| "AvailabilityStatus_String UnknownStatus = ''UNKNOWN''"
| "AvailabilityStatus_String Syncing = ''SYNCING''"
| "AvailabilityStatus_String Immature = ''IMMATURE''"

definition LagExceeds :: "i64 \<Rightarrow> i64 \<Rightarrow> bool" where
  "LagExceeds lag syncingLag \<longleftrightarrow> syncingLag > 0 \<and> lag > syncingLag"

definition StatusByLag :: "i64 \<Rightarrow> AvailabilityStatus \<Rightarrow> i64 \<Rightarrow> AvailabilityStatus" where
  "StatusByLag lag avail syncingLag =
     (if avail = Available \<and> LagExceeds lag syncingLag then Syncing else avail)"

section \<open>Upstream state\<close>

datatype Cap = WsCap | NewHeadsCap | LogsCap | PendingTxCap

record UpstreamState =
  Status :: AvailabilityStatus
  HeadData :: Block
  upMethods :: "Methods option"
  Caps :: "Cap set option"
  UpstreamIndex :: string
  RateLimiterBudget :: "RateLimitBudget option"
  AutoTuneRateLimiter :: "nat option"
  upBlockInfo :: "BlockInfo option"
  LowerBoundsInfo :: "LowerBoundInfo option"
  upLabels :: "LabelsMap option"

definition DefaultUpstreamState ::
  "Methods option \<Rightarrow> Cap set option \<Rightarrow> string \<Rightarrow> RateLimitBudget option \<Rightarrow> nat option \<Rightarrow> UpstreamState" where
  "DefaultUpstreamState m caps idx rt tuner =
     \<lparr>Status = Available, HeadData = ZeroBlock, upMethods = m, Caps = caps, UpstreamIndex = idx,
      RateLimiterBudget = rt, AutoTuneRateLimiter = tuner, upBlockInfo = Some [], LowerBoundsInfo = Some [],
      upLabels = Some []\<rparr>"

datatype UpstreamEventType =
    StateUpstreamEvent UpstreamState
  | HeadUpstreamEvent AvailabilityStatus Block
  | RemoveUpstreamEvent
  | ValidUpstreamEvent UpstreamState

section \<open>State events\<close>

datatype StateEvent =
    InitUpstreamStateEvent
  | LowerBoundUpstreamStateEvent LowerBoundData
  | StatusUpstreamStateEvent AvailabilityStatus "i64 option"
  | FatalErrorUpstreamStateEvent
  | ValidUpstreamStateEvent
  | HeadUpstreamStateEvent Block
  | BlockUpstreamStateEvent Block BlockType
  | BanMethodUpstreamStateEvent string
  | UnbanMethodUpstreamStateEvent string
  | UnsupportedMethodsUpstreamStateEvent "string set"
  | CapsUpstreamStateEvent "Cap set option"
  | LabelsUpstreamStateEvent string string

fun Same :: "StateEvent \<Rightarrow> UpstreamState \<Rightarrow> bool option" where
  "Same (LowerBoundUpstreamStateEvent d) s =
     (case LowerBoundsInfo s of
        None \<Rightarrow> None
      | Some l \<Rightarrow> Some (case GetLowerBound l (boundType d) of None \<Rightarrow> False | Some b \<Rightarrow> b = d))"
| "Same (BlockUpstreamStateEvent b t) s =
     (case upBlockInfo s of None \<Rightarrow> None | Some i \<Rightarrow> Some (Block_Equals (GetBlock i t) b))"
| "Same (CapsUpstreamStateEvent c) s =
     Some (case (Caps s, c) of (Some a, Some b) \<Rightarrow> a = b | _ \<Rightarrow> False)"
| "Same (LabelsUpstreamStateEvent k v) s =
     (case upLabels s of
        None \<Rightarrow> None
      | Some l \<Rightarrow> Some (case GetLabel l k of None \<Rightarrow> False | Some x \<Rightarrow> x = v))"
| "Same _ s = Some False"

fun ProcessEvent :: "StateEvent \<Rightarrow> UpstreamState \<Rightarrow> UpstreamState option" where
  "ProcessEvent (LowerBoundUpstreamStateEvent d) s =
     map_option (\<lambda>l. s\<lparr>LowerBoundsInfo := Some (AddLowerBound d (LowerBoundInfo_Copy l))\<rparr>) (LowerBoundsInfo s)"
| "ProcessEvent (HeadUpstreamStateEvent b) s = Some (s\<lparr>HeadData := b\<rparr>)"
| "ProcessEvent (BlockUpstreamStateEvent b t) s =
     map_option (\<lambda>i. s\<lparr>upBlockInfo := Some (AddBlock b t (BlockInfo_Copy i))\<rparr>) (upBlockInfo s)"
| "ProcessEvent (CapsUpstreamStateEvent c) s = map_option (\<lambda>x. s\<lparr>Caps := Some x\<rparr>) c"
| "ProcessEvent (LabelsUpstreamStateEvent k v) s =
     map_option (\<lambda>l. s\<lparr>upLabels := Some (AddLabel k v (Labels_Copy l))\<rparr>) (upLabels s)"
| "ProcessEvent _ s = Some s"

text \<open>The tables of a state that came from \<open>DefaultUpstreamState\<close> are present and well formed, and
  stay so.\<close>

definition state_wf :: "UpstreamState \<Rightarrow> bool" where
  "state_wf s \<longleftrightarrow>
     (case LowerBoundsInfo s of None \<Rightarrow> False | Some l \<Rightarrow> bounds_wf l)
   \<and> (case upBlockInfo s of None \<Rightarrow> False | Some b \<Rightarrow> gm_wf b)
   \<and> (case upLabels s of None \<Rightarrow> False | Some l \<Rightarrow> gm_wf l)"

lemma state_wf_Default [simp]: "state_wf (DefaultUpstreamState m c i r a)"
  by (simp add: state_wf_def DefaultUpstreamState_def bounds_wf_def)

lemma state_wf_ProcessEvent: "ProcessEvent e s = Some s' \<Longrightarrow> state_wf s \<Longrightarrow> state_wf s'"
  by (cases e) (auto simp: state_wf_def bounds_wf_Add bounds_wf_Copy AddBlock_def AddLabel_def
      BlockInfo_Copy_eq Labels_Copy_eq gm_wf_fold_update split: option.splits)

lemma Same_total: "state_wf s \<Longrightarrow> Same e s \<noteq> None"
  by (cases e) (auto simp: state_wf_def split: option.splits)

lemma ProcessEvent_total:
  "state_wf s \<Longrightarrow> e \<noteq> CapsUpstreamStateEvent None \<Longrightarrow> ProcessEvent e s \<noteq> None"
  by (cases e) (auto simp: state_wf_def split: option.splits)

text \<open>An event is idempotent: right after it was processed, the state already reflects it.\<close>

lemma Same_after_ProcessEvent:
  assumes "ProcessEvent e s = Some s'"
    and "(\<exists>d. e = LowerBoundUpstreamStateEvent d) \<or> (\<exists>b t. e = BlockUpstreamStateEvent b t)
      \<or> (\<exists>c. e = CapsUpstreamStateEvent c) \<or> (\<exists>k v. e = LabelsUpstreamStateEvent k v)"
  shows "Same e s' = Some True"
  using assms by (auto simp: GetLowerBound_def AddLowerBound_def GetBlock_def AddBlock_def GetLabel_def
      AddLabel_def Block_Equals_def HashId_Equals_def)

end
