(* ===== verification/Selectors.thy ===== *)
theory Selectors
  imports Protocol
begin

text \<open>
  Request selectors, \<open>internal/protocol/data.go\<close> and \<open>request_selector_key.go\<close>: the sum type by which a
  client narrows down the upstreams that may answer, and its two string identities, \<open>Key\<close> and the
  node-class key \<open>LabelCacheKey\<close> that goes into cache keys.

  \<open>NilSelector\<close> is the nil interface value. \<open>Key\<close> calls a method on every child, so a nil child is a
  panic, the value \<open>None\<close>.
\<close>

section \<open>Selectors\<close>

datatype RequestSelector =
    NilSelector
  | AnySelector
  | LabelSelector string "string list"
  | ExistsSelector string
  | AndSelector "RequestSelector list"
  | OrSelector "RequestSelector list"
  | NotSelector RequestSelector
  | HeightSelector i64
  | BlockTagSelector int
  | SlotHeightSelector i64
  | LowerHeightSelector i64 LowerBoundType i64 i64
  | UnsupportedSelector string

definition BlockTagLatest :: int where "BlockTagLatest = 0"
definition BlockTagSafe :: int where "BlockTagSafe = 1"
definition BlockTagFinalized :: int where "BlockTagFinalized = 2"

lemmas block_tags = BlockTagLatest_def BlockTagSafe_def BlockTagFinalized_def

section \<open>Keys\<close>

definition label_key_text :: "string \<Rightarrow> string list \<Rightarrow> string" where
  "label_key_text name values = ''label('' @ name @ ''='' @ join ''|'' (sort values) @ '')''"

definition exists_key_text :: "string \<Rightarrow> string" where
  "exists_key_text name = ''exists('' @ name @ '')''"

fun Key :: "RequestSelector \<Rightarrow> string option" where
  "Key NilSelector = None"
| "Key AnySelector = Some ''any''"
| "Key (LabelSelector name values) = Some (label_key_text name values)"
| "Key (ExistsSelector name) = Some (exists_key_text name)"
| "Key (AndSelector cs) =
     map_option (\<lambda>parts. ''and('' @ join ''|'' (sort parts) @ '')'') (those (map Key cs))"
| "Key (OrSelector cs) =
     map_option (\<lambda>parts. ''or('' @ join ''|'' (sort parts) @ '')'') (those (map Key cs))"
| "Key (NotSelector c) = map_option (\<lambda>k. ''not('' @ k @ '')'') (Key c)"
| "Key (HeightSelector h) = Some (''height('' @ itoa h @ '')'')"
| "Key (BlockTagSelector t) = Some (''tag('' @ itoa t @ '')'')"
| "Key (SlotHeightSelector h) = Some (''slot('' @ itoa h @ '')'')"
| "Key (LowerHeightSelector h t off d) =
     Some (''lower('' @ itoa h @ '','' @ itoa (bound_code t) @ '','' @ itoa off @ '','' @ itoa d @ '')'')"
| "Key (UnsupportedSelector reason) = Some (''unsupported('' @ reason @ '')'')"

text \<open>\<open>labelClassKey\<close>: the label part of a selector. In \<open>or\<close> the loop returns at the first child whose
  key is empty.\<close>

fun labelClassKey :: "RequestSelector \<Rightarrow> string" where
  "labelClassKey (LabelSelector name values) = label_key_text name values"
| "labelClassKey (ExistsSelector name) = exists_key_text name"
| "labelClassKey (AndSelector cs) =
     (let parts = sort (filter (\<lambda>k. k \<noteq> []) (map labelClassKey cs))
      in case parts of
           [] \<Rightarrow> []
         | [p] \<Rightarrow> p
         | _ \<Rightarrow> ''and('' @ join ''|'' parts @ '')'')"
| "labelClassKey (OrSelector cs) =
     (let parts = map labelClassKey cs
      in if list_ex (\<lambda>k. k = []) parts then []
         else case parts of
           [] \<Rightarrow> []
         | [p] \<Rightarrow> p
         | _ \<Rightarrow> ''or('' @ join ''|'' (sort parts) @ '')'')"
| "labelClassKey (NotSelector c) =
     (let key = labelClassKey c in if key = [] then [] else ''not('' @ key @ '')'')"
| "labelClassKey _ = []"

definition LabelCacheKey :: "RequestSelector list \<Rightarrow> string" where
  "LabelCacheKey selectors = labelClassKey (AndSelector selectors)"

section \<open>Order of children\<close>

text \<open>Two selectors that differ only in the order of the children of their groups, at any depth, and in
  the order of label values.\<close>

inductive same_selector :: "RequestSelector \<Rightarrow> RequestSelector \<Rightarrow> bool" where
  refl: "same_selector s s"
| label: "mset vs = mset vs' \<Longrightarrow> same_selector (LabelSelector n vs) (LabelSelector n vs')"
| and_perm: "list_all2 same_selector cs ds \<Longrightarrow> mset ds = mset es \<Longrightarrow> same_selector (AndSelector cs) (AndSelector es)"
| or_perm: "list_all2 same_selector cs ds \<Longrightarrow> mset ds = mset es \<Longrightarrow> same_selector (OrSelector cs) (OrSelector es)"
| not: "same_selector s t \<Longrightarrow> same_selector (NotSelector s) (NotSelector t)"
monos list_all2_mono

lemma sort_mset_cong: "mset xs = mset ys \<Longrightarrow> sort xs = sort ys"
  by (rule properties_for_sort) simp_all

lemma those_eq: "those xs = (if None \<in> set xs then None else Some (map the xs))"
  by (induction xs) (auto split: option.splits)

lemma those_sort_mset:
  assumes "mset xs = mset ys"
  shows "map_option (\<lambda>p. f (sort p)) (those xs) = map_option (\<lambda>p. f (sort p)) (those ys)"
proof -
  have "set xs = set ys" using assms by (metis set_mset_mset)
  moreover have "sort (map the xs) = sort (map the ys)"
    using assms by (intro sort_mset_cong) (simp add: mset_map)
  ultimately show ?thesis by (simp add: those_eq)
qed

lemma same_selector_Key: "same_selector s t \<Longrightarrow> Key s = Key t"
proof (induction rule: same_selector.induct)
  case (label vs vs' n)
  then show ?case using sort_mset_cong [of vs vs'] by (simp add: label_key_text_def)
next
  case (and_perm cs ds es)
  have "map Key cs = map Key ds" using and_perm(1) by (induction rule: list_all2_induct) simp_all
  then have "mset (map Key cs) = mset (map Key es)" using and_perm(2) by (simp add: mset_map)
  then show ?case using those_sort_mset [of "map Key cs" "map Key es"] by simp
next
  case (or_perm cs ds es)
  have "map Key cs = map Key ds" using or_perm(1) by (induction rule: list_all2_induct) simp_all
  then have "mset (map Key cs) = mset (map Key es)" using or_perm(2) by (simp add: mset_map)
  then show ?case using those_sort_mset [of "map Key cs" "map Key es"] by simp
qed simp_all

lemma group_text_sort:
  fixes xs :: "string list"
  shows "(case xs of [] \<Rightarrow> [] | [p] \<Rightarrow> p | _ \<Rightarrow> f (sort xs)) =
     (case sort xs of [] \<Rightarrow> [] | [p] \<Rightarrow> p | _ \<Rightarrow> f (sort xs))"
proof (cases xs)
  case (Cons p ys)
  show ?thesis
  proof (cases ys)
    case (Cons q zs)
    have "length (sort xs) = Suc (Suc (length zs))" using \<open>xs = p # ys\<close> Cons by simp
    then obtain a b r where "sort xs = a # b # r" by (metis length_Suc_conv)
    then show ?thesis using \<open>xs = p # ys\<close> Cons by simp
  qed (simp add: \<open>xs = p # ys\<close>)
qed simp

lemma labelClassKey_Or:
  "labelClassKey (OrSelector cs) =
     (let parts = sort (map labelClassKey cs)
      in if [] \<in> set parts then [] else case parts of [] \<Rightarrow> [] | [p] \<Rightarrow> p | _ \<Rightarrow> ''or('' @ join ''|'' parts @ '')'')"
  using group_text_sort [of "\<lambda>parts. ''or('' @ join ''|'' parts @ '')''" "map labelClassKey cs"]
  by (auto simp: Let_def list_ex_iff)

lemma same_selector_labelClassKey: "same_selector s t \<Longrightarrow> labelClassKey s = labelClassKey t"
proof (induction rule: same_selector.induct)
  case (label vs vs' n)
  then show ?case using sort_mset_cong [of vs vs'] by (simp add: label_key_text_def)
next
  case (and_perm cs ds es)
  have "map labelClassKey cs = map labelClassKey ds" using and_perm(1) by (induction rule: list_all2_induct) simp_all
  then have "mset (map labelClassKey cs) = mset (map labelClassKey es)" using and_perm(2) by (simp add: mset_map)
  then have "sort (filter (\<lambda>k. k \<noteq> []) (map labelClassKey cs)) = sort (filter (\<lambda>k. k \<noteq> []) (map labelClassKey es))"
    by (intro sort_mset_cong) (simp only: mset_filter)
  then show ?case by (simp only: labelClassKey.simps)
next
  case (or_perm cs ds es)
  have "map labelClassKey cs = map labelClassKey ds" using or_perm(1) by (induction rule: list_all2_induct) simp_all
  then have "mset (map labelClassKey cs) = mset (map labelClassKey es)" using or_perm(2) by (simp add: mset_map)
  then have "sort (map labelClassKey cs) = sort (map labelClassKey es)" by (rule sort_mset_cong)
  then show ?case by (simp only: labelClassKey_Or)
qed simp_all

section \<open>Node classes\<close>

text \<open>Which label maps a selector admits, with every selector that is not about labels admitting all.\<close>

fun class_admits :: "RequestSelector \<Rightarrow> (string \<rightharpoonup> string) \<Rightarrow> bool" where
  "class_admits (LabelSelector n vs) l = (case l n of None \<Rightarrow> False | Some v \<Rightarrow> vs = [] \<or> v \<in> set vs)"
| "class_admits (ExistsSelector n) l \<longleftrightarrow> l n \<noteq> None"
| "class_admits (AndSelector cs) l \<longleftrightarrow> (\<forall>c \<in> set cs. class_admits c l)"
| "class_admits (OrSelector cs) l \<longleftrightarrow> (\<exists>c \<in> set cs. class_admits c l)"
| "class_admits (NotSelector c) l \<longleftrightarrow> \<not> class_admits c l"
| "class_admits _ l \<longleftrightarrow> True"

text \<open>Selectors without an empty \<open>or\<close> and without a negation of something that says nothing about labels.\<close>

fun class_proper :: "RequestSelector \<Rightarrow> bool" where
  "class_proper (AndSelector cs) \<longleftrightarrow> (\<forall>c \<in> set cs. class_proper c)"
| "class_proper (OrSelector cs) \<longleftrightarrow> cs \<noteq> [] \<and> (\<forall>c \<in> set cs. class_proper c)"
| "class_proper (NotSelector c) \<longleftrightarrow> class_proper c \<and> labelClassKey c \<noteq> []"
| "class_proper _ \<longleftrightarrow> True"

lemma labelClassKey_And_Nil: "labelClassKey (AndSelector cs) = [] \<longleftrightarrow> (\<forall>c \<in> set cs. labelClassKey c = [])"
proof -
  let ?parts = "sort (filter (\<lambda>k. k \<noteq> []) (map labelClassKey cs))"
  have ne: "\<forall>p \<in> set ?parts. p \<noteq> []" by simp
  have "labelClassKey (AndSelector cs) = [] \<longleftrightarrow> ?parts = []"
  proof (cases ?parts)
    case (Cons p ps)
    then have "p \<noteq> []" using ne by (metis list.set_intros(1))
    with Cons show ?thesis by (cases ps) (simp_all add: Let_def)
  qed (simp add: Let_def)
  also have "\<dots> \<longleftrightarrow> set ?parts = {}" by (simp only: set_empty)
  also have "\<dots> \<longleftrightarrow> (\<forall>c \<in> set cs. labelClassKey c = [])" by auto
  finally show ?thesis .
qed

lemma labelClassKey_Or_Nil:
  "cs \<noteq> [] \<Longrightarrow> labelClassKey (OrSelector cs) = [] \<longleftrightarrow> (\<exists>c \<in> set cs. labelClassKey c = [])"
  by (cases cs; cases "tl cs") (force simp: Let_def list_ex_iff)+

lemma empty_class_key_admits_all:
  "class_proper s \<Longrightarrow> labelClassKey s = [] \<Longrightarrow> class_admits s l"
proof (induction s)
  case (AndSelector cs)
  then show ?case by (simp add: labelClassKey_And_Nil del: labelClassKey.simps)
next
  case (OrSelector cs)
  then show ?case using labelClassKey_Or_Nil [of cs] by (auto simp del: labelClassKey.simps)
qed (simp_all add: label_key_text_def exists_key_text_def)

section \<open>Properties\<close>

text \<open>The identity of a selector does not depend on the order in which a client lists the members of its
  groups, at any depth, or the values of a label; neither does the node class in the cache key.\<close>

theorem selector_keys_ignore_order:
  assumes "same_selector s t"
  shows "Key s = Key t \<and> LabelCacheKey [s] = LabelCacheKey [t]"
  using same_selector_Key [OF assms] same_selector_labelClassKey [OF assms] by (simp add: LabelCacheKey_def)

text \<open>Requests share the default cache entry only when they do not constrain the node class: if the class
  key of proper selectors is empty, every label map satisfies all of them.\<close>

theorem empty_class_key_is_unconstrained:
  assumes "\<forall>s \<in> set ss. class_proper s" and "LabelCacheKey ss = []"
  shows "\<forall>s \<in> set ss. class_admits s l"
  using empty_class_key_admits_all [of "AndSelector ss" l] assms by (simp add: LabelCacheKey_def)

section \<open>Concrete instances\<close>

theorem selector_keys_ignore_order_witness:
  "Key (AndSelector [ExistsSelector ''a'', HeightSelector 5]) = Key (AndSelector [HeightSelector 5, ExistsSelector ''a''])"
proof -
  have "same_selector (AndSelector [ExistsSelector ''a'', HeightSelector 5])
      (AndSelector [HeightSelector 5, ExistsSelector ''a''])"
    by (rule same_selector.and_perm [of _ "[ExistsSelector ''a'', HeightSelector 5]"])
      (simp_all add: same_selector.refl)
  then show ?thesis using selector_keys_ignore_order by blast
qed

theorem empty_class_key_is_unconstrained_witness:
  "class_admits (OrSelector [HeightSelector 5, ExistsSelector ''archive'']) Map.empty"
proof -
  let ?ss = "[OrSelector [HeightSelector 5, ExistsSelector ''archive'']]"
  have "\<forall>s \<in> set ?ss. class_proper s" by simp
  moreover have "LabelCacheKey ?ss = []" by code_simp
  ultimately have "\<forall>s \<in> set ?ss. class_admits s Map.empty" by (rule empty_class_key_is_unconstrained)
  then show ?thesis by simp
qed

end
