(* ===== verification/ForkChoice.thy ===== *)
theory ForkChoice
  imports Protocol
begin

text \<open>
  The fork choice of a chain, \<open>internal/upstreams/fork_choice\<close>: which of the heads its upstreams
  report is the head of the chain. \<open>HeightForkChoice\<close> keeps the heads of the live upstreams in a Go map
  and recomputes the highest one after every event; Go ranges over the map in any order, so \<open>Choose\<close>
  takes that order as a parameter.

  The abstract view is the map of live heads, which an event updates by \<open>live_update\<close>, and the height
  \<open>head_height\<close> of the best one. The locale \<open>fork_choice\<close> states what a chain supervisor may rely on;
  its interpretation \<open>height_fc\<close> shows that \<open>HeightForkChoice\<close> provides it.
\<close>

record HeightForkChoice =
  heads :: "(string, Block) gomap"
  fcMax :: Block

definition NewHeightForkChoice :: HeightForkChoice where
  "NewHeightForkChoice = \<lparr>heads = [], fcMax = ZeroBlock\<rparr>"

type_synonym heads_order = "(string, Block) gomap \<Rightarrow> (string, Block) gomap"

definition maxHeight :: "heads_order \<Rightarrow> HeightForkChoice \<Rightarrow> Block" where
  "maxHeight ro h = fold (\<lambda>(_, head) cur. if CompareWithHeight head cur = 1 then head else cur)
     (ro (heads h)) ZeroBlock"

definition Choose ::
  "heads_order \<Rightarrow> string \<Rightarrow> AvailabilityStatus \<Rightarrow> Block \<Rightarrow> HeightForkChoice
     \<Rightarrow> (bool \<times> Block) \<times> HeightForkChoice" where
  "Choose ro upstreamId st head h =
     (let finish = (\<lambda>h. let newMax = maxHeight ro h in
            if CompareWithHeight newMax (fcMax h) = 0 then ((False, fcMax h), h)
            else ((True, newMax), h\<lparr>fcMax := newMax\<rparr>))
      in if st = Available then
           (if IsEmptyByHeight head then ((False, fcMax h), h)
            else finish (h\<lparr>heads := AList.update upstreamId head (heads h)\<rparr>))
         else
           (case map_of (heads h) upstreamId of
              None \<Rightarrow> ((False, fcMax h), h)
            | Some _ \<Rightarrow> finish (h\<lparr>heads := AList.delete upstreamId (heads h)\<rparr>)))"

section \<open>Specification\<close>

definition live_update ::
  "string \<Rightarrow> AvailabilityStatus \<Rightarrow> Block \<Rightarrow> (string \<rightharpoonup> Block) \<Rightarrow> (string \<rightharpoonup> Block)" where
  "live_update i st b m =
     (if st = Available then (if IsEmptyByHeight b then m else m(i \<mapsto> b)) else m(i := None))"

definition head_height :: "(string \<rightharpoonup> Block) \<Rightarrow> u64" where
  "head_height m = Max (insert 0 (Height ` ran m))"

text \<open>
  What a client may rely on. \<open>decide\<close> handles one event in some iteration order, \<open>mx\<close> is the merged
  head and \<open>live\<close> the map of live heads of a state.
\<close>

locale fork_choice =
  fixes decide :: "heads_order \<Rightarrow> string \<Rightarrow> AvailabilityStatus \<Rightarrow> Block \<Rightarrow> 's \<Rightarrow> (bool \<times> Block) \<times> 's"
    and mx :: "'s \<Rightarrow> Block" and live :: "'s \<Rightarrow> string \<rightharpoonup> Block" and inv :: "'s \<Rightarrow> bool"
  assumes keeps_inv: "inv s \<Longrightarrow> range_order ro \<Longrightarrow> inv (snd (decide ro i st b s))"
    and returns_max: "snd (fst (decide ro i st b s)) = mx (snd (decide ro i st b s))"
    and changed_iff: "fst (fst (decide ro i st b s)) \<longleftrightarrow> Height (mx (snd (decide ro i st b s))) \<noteq> Height (mx s)"
    and unchanged: "\<not> fst (fst (decide ro i st b s)) \<Longrightarrow> mx (snd (decide ro i st b s)) = mx s"
    and live_step: "inv s \<Longrightarrow> live (snd (decide ro i st b s)) = live_update i st b (live s)"
    and max_height: "inv s \<Longrightarrow> Height (mx s) = head_height (live s)"
begin

text \<open>A run of the fork choice: each event is handled in an order of its own.\<close>

lemma run_spec:
  assumes "inv s" and "\<forall>(ro, i, st, b) \<in> set es. range_order ro"
  shows "inv (fold (\<lambda>(ro, i, st, b) s. snd (decide ro i st b s)) es s)
     \<and> live (fold (\<lambda>(ro, i, st, b) s. snd (decide ro i st b s)) es s) =
        fold (\<lambda>(ro, i, st, b). live_update i st b) es (live s)"
  using assms
proof (induction es arbitrary: s)
  case (Cons e es)
  then show ?case by (cases e) (simp add: keeps_inv live_step)
qed simp

lemma run_height:
  assumes "inv s" and "\<forall>(ro, i, st, b) \<in> set es. range_order ro"
  shows "Height (mx (fold (\<lambda>(ro, i, st, b) s. snd (decide ro i st b s)) es s)) =
     head_height (fold (\<lambda>(ro, i, st, b). live_update i st b) es (live s))"
  using run_spec [OF assms] max_height by metis

text \<open>Two runs over the same events agree on the height of the merged head, whatever orders they
  met.\<close>

lemma run_order_irrelevant:
  assumes "inv s" and "\<forall>(ro, i, st, b) \<in> set es. range_order ro" "\<forall>(ro, i, st, b) \<in> set es'. range_order ro"
    and "map snd es = map snd es'"
  shows "Height (mx (fold (\<lambda>(ro, i, st, b) s. snd (decide ro i st b s)) es s)) =
     Height (mx (fold (\<lambda>(ro, i, st, b) s. snd (decide ro i st b s)) es' s))"
proof -
  have drop: "fold (\<lambda>(ro, i, st, b). live_update i st b) xs m =
      fold (\<lambda>(i, st, b). live_update i st b) (map snd xs) m"
    for xs :: "(heads_order \<times> string \<times> AvailabilityStatus \<times> Block) list" and m
    by (induction xs arbitrary: m) auto
  show ?thesis
    using run_height [OF assms(1,2)] run_height [OF assms(1,3)] assms(4) by (simp add: drop)
qed

end

section \<open>The height fork choice implements the specification\<close>

definition fc_live :: "HeightForkChoice \<Rightarrow> string \<rightharpoonup> Block" where
  "fc_live h = map_of (heads h)"

definition fc_inv :: "HeightForkChoice \<Rightarrow> bool" where
  "fc_inv h \<longleftrightarrow> gm_wf (heads h) \<and> Height (fcMax h) = head_height (fc_live h)"

lemma Compare_height [simp]:
  "CompareWithHeight a b = 1 \<longleftrightarrow> Height a > Height b" "CompareWithHeight a b = 0 \<longleftrightarrow> Height a = Height b"
  by (simp_all add: CompareWithHeight_def)

lemma Max_insert2:
  "finite A \<Longrightarrow> Max (insert u (insert v A)) = Max (insert (if u < v then v else u) (A :: 'a :: linorder set))"
  by (cases "A = {}") (auto simp: max_def)

lemma max_fold_height:
  "Height (fold (\<lambda>(_, head) cur. if CompareWithHeight head cur = 1 then head else cur) xs c) =
     Max (insert (Height c) (Height ` snd ` set xs))"
proof (induction xs arbitrary: c)
  case (Cons x xs)
  obtain k b where x: "x = (k, b)" by (cases x)
  show ?case
    using Cons.IH [of "if Height c < Height b then b else c"]
    by (simp add: x Max_insert2 if_distrib [of Height] del: Max_insert cong: if_cong)
qed simp

lemma maxHeight_head_height:
  assumes "range_order ro" "gm_wf (heads h)"
  shows "Height (maxHeight ro h) = head_height (fc_live h)"
proof -
  have "snd ` set (ro (heads h)) = ran (map_of (heads h))"
    using assms by (simp add: range_order_set ran_distinct)
  then show ?thesis
    unfolding maxHeight_def max_fold_height by (simp add: head_height_def fc_live_def ZeroBlock_def)
qed

lemma live_update_None: "m i = None \<Longrightarrow> st \<noteq> Available \<Longrightarrow> live_update i st b m = m"
  by (auto simp: live_update_def)

interpretation height_fc: fork_choice Choose fcMax fc_live fc_inv
proof
  show "fc_inv (snd (Choose ro i st b s))" if "fc_inv s" "range_order ro" for s ro i st b
    using that maxHeight_head_height [OF that(2)]
    by (auto simp: Choose_def Let_def fc_inv_def fc_live_def split: option.split)
  show "snd (fst (Choose ro i st b s)) = fcMax (snd (Choose ro i st b s))" for ro i st b s
    by (auto simp: Choose_def Let_def split: option.split)
  show "fst (fst (Choose ro i st b s)) \<longleftrightarrow> Height (fcMax (snd (Choose ro i st b s))) \<noteq> Height (fcMax s)" for ro i st b s
    by (auto simp: Choose_def Let_def split: option.split)
  show "fcMax (snd (Choose ro i st b s)) = fcMax s" if "\<not> fst (fst (Choose ro i st b s))" for ro i st b s
    using that by (auto simp: Choose_def Let_def split: option.splits if_splits)
  show "fc_live (snd (Choose ro i st b s)) = live_update i st b (fc_live s)" if "fc_inv s" for s ro i st b
    using that live_update_None [of "fc_live s" i st b]
    by (auto simp: Choose_def Let_def fc_live_def live_update_def split: option.split)
  show "Height (fcMax s) = head_height (fc_live s)" if "fc_inv s" for s
    using that by (simp add: fc_inv_def)
qed

lemma fc_inv_New: "fc_inv NewHeightForkChoice" "fc_live NewHeightForkChoice = Map.empty"
  by (simp_all add: fc_inv_def fc_live_def NewHeightForkChoice_def head_height_def ZeroBlock_def)

section \<open>Properties\<close>

text \<open>\<^bold>\<open>C1\<close>. After any sequence of head events, each handled in whatever order Go ranges over the map, the
  merged head has the greatest height among the heads of the upstreams that are live, and height 0
  when none is.\<close>

theorem merged_head_is_highest_live_head:
  assumes "\<forall>(ro, i, st, b) \<in> set es. range_order ro"
  shows "Height (fcMax (fold (\<lambda>(ro, i, st, b) h. snd (Choose ro i st b h)) es NewHeightForkChoice)) =
     head_height (fold (\<lambda>(ro, i, st, b). live_update i st b) es Map.empty)"
  using height_fc.run_height [OF fc_inv_New(1) assms] by (simp only: fc_inv_New(2))

text \<open>\<open>Choose\<close> reports a change exactly when the height of the merged head changed, and hands out the
  merged head it keeps; without a change the merged head stays the block it was.\<close>

theorem choose_reports_height_changes:
  "case Choose ro i st b h of ((changed, best), h') \<Rightarrow>
     best = fcMax h' \<and> (changed \<longleftrightarrow> Height (fcMax h') \<noteq> Height (fcMax h)) \<and> (\<not> changed \<longrightarrow> fcMax h' = fcMax h)"
  using height_fc.returns_max [of ro i st b h] height_fc.changed_iff [of ro i st b h]
    height_fc.unchanged [of ro i st b h]
  by (auto simp: case_prod_unfold)

section \<open>Concrete instances\<close>

theorem merged_head_is_highest_live_head_witness:
  "Height (fcMax (fold (\<lambda>(ro, i, st, b) h. snd (Choose ro i st b h))
       [(id, ''a'', Available, NewBlockWithHeight 7), (rev, ''b'', Available, NewBlockWithHeight 9),
        (rev, ''b'', Syncing, NewBlockWithHeight 9)] NewHeightForkChoice)) = 7"
proof -
  let ?es = "[(id, ''a'', Available, NewBlockWithHeight 7), (rev, ''b'', Available, NewBlockWithHeight 9),
    (rev, ''b'', Syncing, NewBlockWithHeight 9)]"
  have "fold (\<lambda>(ro, i, st, b). live_update i st b) ?es Map.empty = [''a'' \<mapsto> NewBlockWithHeight 7]"
    by (auto simp: live_update_def IsEmptyByHeight_def NewBlockWithHeight_def)
  moreover have "head_height [''a'' \<mapsto> NewBlockWithHeight 7] = 7"
    by (simp add: head_height_def NewBlockWithHeight_def)
  ultimately show ?thesis using merged_head_is_highest_live_head [of ?es] by simp
qed

theorem choose_reports_height_changes_witness:
  "fst (Choose id ''a'' Available (NewBlockWithHeight 7) NewHeightForkChoice) = (True, NewBlockWithHeight 7)
     \<and> fcMax (snd (Choose id ''a'' Available (NewBlockWithHeight 7) NewHeightForkChoice)) = NewBlockWithHeight 7"
  using choose_reports_height_changes [where ro = id and i = "''a''" and st = Available
      and b = "NewBlockWithHeight 7" and h = NewHeightForkChoice]
  by (auto simp: Choose_def Let_def IsEmptyByHeight_def NewBlockWithHeight_def NewHeightForkChoice_def
      maxHeight_def ZeroBlock_def)

end
