(* ===== verification/Upstream.thy ===== *)
theory Upstream
  imports Protocol
begin

text \<open>
  One upstream, \<open>internal/upstreams/upstream.go\<close> and \<open>upstream_events.go\<close>: the single event loop that
  owns an upstream's state. \<open>process_event\<close> is one turn of the loop, with every branch of its type
  switch; \<open>upstream_step\<close> interleaves the loop with what happens around it, the emitters that put
  events on the channel, the timers that lift bans, and \<open>UpdateHeadLag\<close>.

  The lemmas show which states and which sequences of published events are reachable.
\<close>

section \<open>The upstream\<close>

text \<open>What is fixed for the life of an upstream: the loaded specs, the name of its chain's method
  spec, its methods configuration (\<open>setDefaults\<close> makes it non-nil), the types of its connectors, and
  the chain's syncing threshold.\<close>

record upstream_env =
  env_specs :: resolvedSpecs
  env_spec :: string
  env_methods :: MethodsConfig
  env_connectors :: "ApiConnectorType list"
  env_syncing :: i64

text \<open>The orders in which one turn of the loop meets maps and sets: two for the Go maps that
  \<open>NewUpstreamMethods\<close> ranges over, one for \<open>mapset.ToSlice\<close>.\<close>

record orders =
  roG :: "methodGroups \<Rightarrow> methodGroups"
  roM :: "methods_map \<Rightarrow> methods_map"
  toSlice :: "string set \<Rightarrow> string list"

definition orders_ok :: "orders \<Rightarrow> bool" where
  "orders_ok o1 \<longleftrightarrow> range_order (roG o1) \<and> range_order (roM o1)
     \<and> (\<forall>A. finite A \<longrightarrow> set (toSlice o1 A) = A)"

text \<open>The variables of the loop, the published state, the events published so far (newest first), and
  the methods whose unban timer has been armed and has not fired.\<close>

record upstream_loop =
  bannedMethods :: "string set"
  unsupportedMethods :: "string set"
  validUpstream :: bool
  baseAvail :: AvailabilityStatus
  headLag :: i64
  upstreamState :: UpstreamState
  published :: "UpstreamEventType list"
  banTimers :: "string list"

fun lo_uniq :: "string set \<Rightarrow> string list \<Rightarrow> string list" where
  "lo_uniq seen [] = []"
| "lo_uniq seen (x # xs) = (if x \<in> seen then lo_uniq seen xs else x # lo_uniq (insert x seen) xs)"

lemma set_lo_uniq: "set (lo_uniq seen xs) = set xs - seen"
  by (induction seen xs rule: lo_uniq.induct) auto

definition newUpstreamMethods ::
  "orders \<Rightarrow> upstream_env \<Rightarrow> string set \<Rightarrow> string set \<Rightarrow> Methods option" where
  "newUpstreamMethods o1 env banned unsupported =
     NewUpstreamMethods (roG o1) (roM o1) (env_specs env) (env_spec env)
       (Some \<lparr>EnableMethods = EnableMethods (env_methods env),
              DisableMethods = lo_uniq {} (toSlice o1 banned @ toSlice o1 unsupported
                @ DisableMethods (env_methods env))\<rparr>)
       (env_connectors env)"

definition forceEnabled :: "upstream_env \<Rightarrow> string \<Rightarrow> bool" where
  "forceEnabled env m =
     IsForceEnabled (Some (env_methods env))
       (Some (GetSpecMethodWithFallback (env_specs env) (env_spec env) m))"

definition publishUpstreamEvent ::
  "UpstreamState \<Rightarrow> UpstreamEventType \<Rightarrow> upstream_loop \<Rightarrow> upstream_loop" where
  "publishUpstreamEvent s e L = L\<lparr>upstreamState := s, published := e # published L\<rparr>"

text \<open>The end of a turn: \<open>if validUpstream { publish }\<close>.\<close>

definition finish_turn :: "UpstreamState \<Rightarrow> UpstreamEventType \<Rightarrow> upstream_loop \<Rightarrow> upstream_loop" where
  "finish_turn s e L = (if validUpstream L then publishUpstreamEvent s e L else L)"

text \<open>One turn of \<open>processStateEvents\<close>; \<open>None\<close> is a panic. The default event carries a pointer to the
  local state, so it shows the state after the branch changed it.\<close>

definition process_event :: "orders \<Rightarrow> upstream_env \<Rightarrow> StateEvent \<Rightarrow> upstream_loop \<Rightarrow> upstream_loop option" where
  "process_event o1 env ev L =
     (let state = upstreamState L in
      case ev of
        FatalErrorUpstreamStateEvent \<Rightarrow>
          Some (if \<not> validUpstream L then L
            else publishUpstreamEvent state RemoveUpstreamEvent (L\<lparr>validUpstream := False\<rparr>))
      | ValidUpstreamStateEvent \<Rightarrow>
          Some (if validUpstream L then L
            else finish_turn state (ValidUpstreamEvent state) (L\<lparr>validUpstream := True\<rparr>))
      | BanMethodUpstreamStateEvent m \<Rightarrow>
          Some (if m \<in> bannedMethods L \<or> forceEnabled env m then L
            else
              (let L = L\<lparr>banTimers := m # banTimers L, bannedMethods := insert m (bannedMethods L)\<rparr>;
                   state = state\<lparr>upMethods := newUpstreamMethods o1 env (bannedMethods L) (unsupportedMethods L)\<rparr>
               in finish_turn state (StateUpstreamEvent state) L))
      | UnbanMethodUpstreamStateEvent m \<Rightarrow>
          Some (if m \<notin> bannedMethods L then L
            else
              (let L = L\<lparr>bannedMethods := bannedMethods L - {m}\<rparr>;
                   state = state\<lparr>upMethods := newUpstreamMethods o1 env (bannedMethods L) (unsupportedMethods L)\<rparr>
               in finish_turn state (StateUpstreamEvent state) L))
      | UnsupportedMethodsUpstreamStateEvent ms \<Rightarrow>
          Some (if unsupportedMethods L = ms then L
            else
              (let L = L\<lparr>unsupportedMethods := ms\<rparr>;
                   state = state\<lparr>upMethods := newUpstreamMethods o1 env (bannedMethods L) (unsupportedMethods L)\<rparr>
               in finish_turn state (StateUpstreamEvent state) L))
      | StatusUpstreamStateEvent st lag \<Rightarrow>
          Some (if \<not> validUpstream L then L
            else
              (let L = (if lag = None then L\<lparr>baseAvail := st\<rparr> else L);
                   newAvail = StatusByLag (headLag L) (baseAvail L) (env_syncing env)
               in if newAvail \<noteq> Status state then
                    (let state = state\<lparr>Status := newAvail\<rparr>
                     in publishUpstreamEvent state (StateUpstreamEvent state) L)
                  else L))
      | HeadUpstreamStateEvent b \<Rightarrow>
          map_option (\<lambda>state. finish_turn state (HeadUpstreamEvent (Status state) (HeadData state)) L)
            (ProcessEvent ev state)
      | _ \<Rightarrow>
          (case Same ev state of
             None \<Rightarrow> None
           | Some True \<Rightarrow> Some L
           | Some False \<Rightarrow>
               map_option (\<lambda>state. finish_turn state (StateUpstreamEvent state) L) (ProcessEvent ev state)))"

text \<open>The loop starts from the state the factory built; \<open>initialValid\<close> is the result of the first
  settings validation.\<close>

definition start_loop :: "UpstreamState \<Rightarrow> bool \<Rightarrow> upstream_loop" where
  "start_loop s initialValid =
     \<lparr>bannedMethods = {}, unsupportedMethods = {}, validUpstream = initialValid, baseAvail = Status s,
      headLag = 0, upstreamState = s, published = [], banTimers = []\<rparr>"

definition UpdateHeadLag :: "i64 \<Rightarrow> upstream_loop \<times> StateEvent list \<Rightarrow> upstream_loop \<times> StateEvent list" where
  "UpdateHeadLag lag = (\<lambda>(L, chan).
     let lag = (if lag < 0 then 0 else lag)
     in (L\<lparr>headLag := lag\<rparr>, chan @ [StatusUpstreamStateEvent Available (Some lag)]))"

definition BanMethod :: "string \<Rightarrow> StateEvent list \<Rightarrow> StateEvent list" where
  "BanMethod m chan = chan @ [BanMethodUpstreamStateEvent m]"

definition UpdateLowerBound :: "LowerBoundData \<Rightarrow> StateEvent list \<Rightarrow> StateEvent list" where
  "UpdateLowerBound d chan = chan @ [LowerBoundUpstreamStateEvent d]"

definition PredictLowerBound ::
  "(LowerBoundType \<Rightarrow> i64 \<Rightarrow> i64) option \<Rightarrow> UpstreamState \<Rightarrow> LowerBoundType \<Rightarrow> i64 \<Rightarrow> i64" where
  "PredictLowerBound aggregator s t off =
     (let predicted = (case aggregator of None \<Rightarrow> 0 | Some f \<Rightarrow> f t off)
      in case LowerBoundsInfo s of
           None \<Rightarrow> predicted
         | Some l \<Rightarrow>
             (case GetLowerBound l t of
                None \<Rightarrow> predicted
              | Some b \<Rightarrow> if Bound b > predicted then Bound b else predicted))"

section \<open>Interleavings\<close>

text \<open>
  A configuration is the loop together with its channel. The loop takes the oldest event; a timer
  emits an unban and is gone; \<open>UpdateHeadLag\<close> stores the lag and emits its marker (its status field
  is not read); the other components emit events at any time, those that satisfy \<open>src\<close>. Emitters
  never send a nil capability set, and sets are finite.
\<close>

definition emitted :: "StateEvent \<Rightarrow> bool" where
  "emitted e \<longleftrightarrow>
     (case e of CapsUpstreamStateEvent c \<Rightarrow> c \<noteq> None
      | UnsupportedMethodsUpstreamStateEvent ms \<Rightarrow> finite ms
      | _ \<Rightarrow> True)"

inductive upstream_step ::
  "upstream_env \<Rightarrow> (StateEvent \<Rightarrow> bool) \<Rightarrow> upstream_loop \<times> StateEvent list
     \<Rightarrow> upstream_loop \<times> StateEvent list \<Rightarrow> bool"
  for env src where
  turn: "orders_ok o1 \<Longrightarrow> process_event o1 env e L = Some L' \<Longrightarrow> upstream_step env src (L, e # chan) (L', chan)"
| timer: "m \<in> set (banTimers L) \<Longrightarrow>
    upstream_step env src (L, chan)
      (L\<lparr>banTimers := remove1 m (banTimers L)\<rparr>, chan @ [UnbanMethodUpstreamStateEvent m])"
| lag: "upstream_step env src c (UpdateHeadLag n c)"
| emit: "emitted e \<Longrightarrow> src e \<Longrightarrow> upstream_step env src (L, chan) (L, chan @ [e])"

abbreviation upstream_steps where "upstream_steps env src \<equiv> (upstream_step env src)\<^sup>*\<^sup>*"

text \<open>An invariant of configurations carries over to everything reachable.\<close>

lemma upstream_invariant:
  assumes "upstream_steps env src c c'" and "I c"
    and "\<And>a b. upstream_step env src a b \<Longrightarrow> I a \<Longrightarrow> I b"
  shows "I c'"
  using assms(1,2) by (induction rule: rtranclp_induct) (use assms(3) in blast)+

section \<open>What a turn changes\<close>

lemma ProcessEvent_keeps:
  "ProcessEvent e s = Some s' \<Longrightarrow> upMethods s' = upMethods s \<and> Status s' = Status s"
  by (cases e) auto

lemmas turn_defs = process_event_def finish_turn_def publishUpstreamEvent_def Let_def

text \<open>The methods of the published state are kept or rebuilt from the sets as they are then.\<close>

lemma process_event_methods:
  assumes "process_event o1 env e L = Some L'"
  shows "upMethods (upstreamState L') = upMethods (upstreamState L)
     \<or> upMethods (upstreamState L') = newUpstreamMethods o1 env (bannedMethods L') (unsupportedMethods L')"
  using assms
  by (cases e) (auto simp: turn_defs dest!: ProcessEvent_keeps split: if_splits option.splits bool.splits)

lemma process_event_sets:
  assumes "process_event o1 env e L = Some L'" and "emitted e"
  shows "finite (bannedMethods L) \<and> finite (unsupportedMethods L) \<Longrightarrow>
     finite (bannedMethods L') \<and> finite (unsupportedMethods L')"
  using assms
  by (cases e) (auto simp: turn_defs emitted_def split: if_splits option.splits bool.splits)

text \<open>A turn of a valid upstream that stays valid leaves the sets alone or rebuilds the methods.\<close>

lemma process_event_methods_valid:
  assumes "process_event o1 env e L = Some L'" and "validUpstream L" "e \<noteq> FatalErrorUpstreamStateEvent"
  shows "validUpstream L' \<and>
     (upMethods (upstreamState L') = newUpstreamMethods o1 env (bannedMethods L') (unsupportedMethods L')
      \<or> upMethods (upstreamState L') = upMethods (upstreamState L)
        \<and> bannedMethods L' = bannedMethods L \<and> unsupportedMethods L' = unsupportedMethods L)"
  using assms
  by (cases e) (auto simp: turn_defs dest!: ProcessEvent_keeps split: if_splits option.splits bool.splits)

lemma process_event_status:
  assumes "process_event o1 env e L = Some L'" and "validUpstream L" "e \<noteq> FatalErrorUpstreamStateEvent"
  shows "headLag L' = headLag L \<and>
     (if \<exists>st lag. e = StatusUpstreamStateEvent st lag
      then Status (upstreamState L') = StatusByLag (headLag L') (baseAvail L') (env_syncing env)
      else Status (upstreamState L') = Status (upstreamState L) \<and> baseAvail L' = baseAvail L)"
  using assms
  by (cases e) (auto simp: turn_defs dest!: ProcessEvent_keeps split: if_splits option.splits bool.splits)

lemma process_event_bans:
  assumes "process_event o1 env e L = Some L'" and "m \<in> bannedMethods L'"
  shows "m \<in> set (banTimers L') \<or> m \<in> bannedMethods L \<and> e \<noteq> UnbanMethodUpstreamStateEvent m"
  using assms
  by (cases e) (auto simp: turn_defs split: if_splits option.splits bool.splits)

lemma process_event_timers:
  "process_event o1 env e L = Some L' \<Longrightarrow> set (banTimers L) \<subseteq> set (banTimers L')"
  by (cases e) (auto simp: turn_defs split: if_splits option.splits bool.splits)

lemma process_event_wf:
  assumes "process_event o1 env e L = Some L'" and "state_wf (upstreamState L)"
  shows "state_wf (upstreamState L')"
  using assms state_wf_ProcessEvent [of e "upstreamState L"]
  by (cases e) (auto simp: turn_defs state_wf_def split: if_splits option.splits bool.splits)

lemma process_event_total:
  assumes "state_wf (upstreamState L)" and "emitted e"
  shows "\<exists>L'. process_event o1 env e L = Some L'"
proof -
  have "e \<noteq> CapsUpstreamStateEvent None" using assms(2) by (auto simp: emitted_def)
  then have "ProcessEvent e (upstreamState L) \<noteq> None" using assms(1) ProcessEvent_total by blast
  moreover have "Same e (upstreamState L) \<noteq> None" using assms(1) Same_total by blast
  ultimately show ?thesis
    by (cases e) (auto simp: turn_defs split: option.splits bool.split)
qed

section \<open>What an upstream offers\<close>

text \<open>\<open>offers env D m\<close>: \<open>m\<close> are the methods of the spec for the upstream's connectors, without those of
  \<open>D\<close> and of the configuration's disable list, and with those of its enable list.\<close>

definition offers :: "upstream_env \<Rightarrow> string set \<Rightarrow> Methods option \<Rightarrow> bool" where
  "offers env D m \<longleftrightarrow>
     (\<exists>rg rm groups ms. range_order rg \<and> range_order rm \<and> m = Some ms
        \<and> GetSpecMethodsByConnectors rg rm (env_specs env) (env_spec env) (env_connectors env) = Some groups
        \<and> GetSupportedMethods ms =
            (fst ` set (defaultMethods groups)
               - (\<Union>d \<in> D \<union> set (DisableMethods (env_methods env)). expand_group groups d))
            \<union> (\<Union>e \<in> set (EnableMethods (env_methods env)). expand_group groups e))"

definition spec_known :: "upstream_env \<Rightarrow> bool" where
  "spec_known env \<longleftrightarrow> (\<exists>rs. map_of (env_specs env) (env_spec env) = Some rs \<and> rsMethods rs \<noteq> None)"

lemma spec_known_groups:
  "spec_known env \<Longrightarrow>
     \<exists>groups. GetSpecMethodsByConnectors rg rm (env_specs env) (env_spec env) (env_connectors env) = Some groups"
  by (auto simp: spec_known_def GetSpecMethodsByConnectors_def split: option.split)

lemma newUpstreamMethods_offers:
  assumes "spec_known env" "orders_ok o1" "finite B" "finite U"
  shows "offers env (B \<union> U) (newUpstreamMethods o1 env B U)"
proof -
  obtain groups where g: "GetSpecMethodsByConnectors (roG o1) (roM o1) (env_specs env) (env_spec env)
      (env_connectors env) = Some groups"
    using spec_known_groups [OF assms(1)] by blast
  then obtain ms where ms: "newUpstreamMethods o1 env B U = Some ms"
    by (auto simp: newUpstreamMethods_def NewUpstreamMethods_def Let_def)
  have D: "set (lo_uniq {} (toSlice o1 B @ toSlice o1 U @ DisableMethods (env_methods env))) =
      B \<union> U \<union> set (DisableMethods (env_methods env))"
    using assms(2,3,4) by (simp add: set_lo_uniq orders_ok_def Un_assoc)
  from NewUpstreamMethods_names [OF g ms [unfolded newUpstreamMethods_def]] D g ms assms(2)
  show ?thesis unfolding offers_def orders_ok_def by auto
qed

text \<open>The factory builds the first methods from the configuration alone.\<close>

lemma factory_methods_offers:
  assumes "NewUpstreamMethods rg rm (env_specs env) (env_spec env) (Some (env_methods env))
      (env_connectors env) = Some ms" and "range_order rg" "range_order rm"
  shows "offers env {} (Some ms) \<and> spec_known env"
proof -
  from assms(1) obtain groups where g: "GetSpecMethodsByConnectors rg rm (env_specs env) (env_spec env)
      (env_connectors env) = Some groups"
    by (auto simp: NewUpstreamMethods_def Let_def split: option.splits)
  then have "spec_known env"
    by (auto simp: spec_known_def GetSpecMethodsByConnectors_def split: option.splits)
  with NewUpstreamMethods_names [OF g assms(1)] g assms(2,3) show ?thesis
    unfolding offers_def by auto
qed

section \<open>Invariants\<close>

definition methods_inv :: "upstream_env \<Rightarrow> upstream_loop \<times> StateEvent list \<Rightarrow> bool" where
  "methods_inv env = (\<lambda>(L, chan). finite (bannedMethods L) \<and> finite (unsupportedMethods L)
     \<and> (\<forall>e \<in> set chan. emitted e) \<and> (\<exists>D. offers env D (upMethods (upstreamState L))))"

lemma methods_inv_step:
  assumes "spec_known env" and "upstream_step env src c c'" and "methods_inv env c"
  shows "methods_inv env c'"
  using assms(2,3)
proof (cases rule: upstream_step.cases)
  case (turn o1 e L L' chan)
  then have fin: "finite (bannedMethods L')" "finite (unsupportedMethods L')"
    using process_event_sets [OF turn(4)] assms(3) by (auto simp: methods_inv_def)
  from process_event_methods [OF turn(4)]
  have "\<exists>D. offers env D (upMethods (upstreamState L'))"
    using newUpstreamMethods_offers [OF assms(1) turn(3) fin] assms(3) turn(1)
    by (auto simp: methods_inv_def)
  with turn fin assms(3) show ?thesis by (auto simp: methods_inv_def)
qed (auto simp: methods_inv_def emitted_def UpdateHeadLag_def)

definition exact_inv :: "upstream_env \<Rightarrow> upstream_loop \<times> StateEvent list \<Rightarrow> bool" where
  "exact_inv env = (\<lambda>(L, chan). validUpstream L \<and> finite (bannedMethods L) \<and> finite (unsupportedMethods L)
     \<and> (\<forall>e \<in> set chan. emitted e \<and> e \<noteq> FatalErrorUpstreamStateEvent)
     \<and> offers env (bannedMethods L \<union> unsupportedMethods L) (upMethods (upstreamState L)))"

lemma exact_inv_step:
  assumes "spec_known env" and "upstream_step env (\<lambda>e. e \<noteq> FatalErrorUpstreamStateEvent) c c'" and "exact_inv env c"
  shows "exact_inv env c'"
  using assms(2,3)
proof (cases rule: upstream_step.cases)
  case (turn o1 e L L' chan)
  then have e: "emitted e" "validUpstream L" "e \<noteq> FatalErrorUpstreamStateEvent"
    using assms(3) by (auto simp: exact_inv_def)
  have fin: "finite (bannedMethods L')" "finite (unsupportedMethods L')"
    using process_event_sets [OF turn(4) e(1)] assms(3) turn by (auto simp: exact_inv_def)
  from process_event_methods_valid [OF turn(4) e(2,3)]
  have "validUpstream L' \<and> offers env (bannedMethods L' \<union> unsupportedMethods L') (upMethods (upstreamState L'))"
    using newUpstreamMethods_offers [OF assms(1) turn(3) fin] assms(3) turn(1)
    by (auto simp: exact_inv_def)
  with turn fin assms(3) show ?thesis by (auto simp: exact_inv_def)
qed (auto simp: exact_inv_def emitted_def UpdateHeadLag_def)

definition ban_inv :: "upstream_loop \<times> StateEvent list \<Rightarrow> bool" where
  "ban_inv = (\<lambda>(L, chan). \<forall>m \<in> bannedMethods L.
     m \<in> set (banTimers L) \<or> UnbanMethodUpstreamStateEvent m \<in> set chan)"

lemma ban_inv_step: "upstream_step env src c c' \<Longrightarrow> ban_inv c \<Longrightarrow> ban_inv c'"
proof (induction rule: upstream_step.induct)
  case (turn o1 e L L' chan)
  show ?case unfolding ban_inv_def prod.case
  proof
    fix m assume "m \<in> bannedMethods L'"
    from process_event_bans [OF turn(2) this]
    show "m \<in> set (banTimers L') \<or> UnbanMethodUpstreamStateEvent m \<in> set chan"
      using process_event_timers [OF turn(2)] turn(3) by (auto simp: ban_inv_def)
  qed
next
  case (timer m L chan)
  then show ?case unfolding ban_inv_def by (auto simp: in_set_remove1 dest!: bspec) (metis in_set_remove1)
qed (auto simp: ban_inv_def UpdateHeadLag_def)

definition settled :: "upstream_env \<Rightarrow> upstream_loop \<Rightarrow> bool" where
  "settled env L \<longleftrightarrow> Status (upstreamState L) = StatusByLag (headLag L) (baseAvail L) (env_syncing env)"

definition status_inv :: "upstream_env \<Rightarrow> upstream_loop \<times> StateEvent list \<Rightarrow> bool" where
  "status_inv env = (\<lambda>(L, chan). validUpstream L \<and> (\<forall>e \<in> set chan. e \<noteq> FatalErrorUpstreamStateEvent)
     \<and> (settled env L \<or> (\<exists>st lag. StatusUpstreamStateEvent st lag \<in> set chan)))"

lemma status_inv_step:
  assumes "upstream_step env (\<lambda>e. e \<noteq> FatalErrorUpstreamStateEvent) c c'" and "status_inv env c"
  shows "status_inv env c'"
  using assms
proof (cases rule: upstream_step.cases)
  case (turn o1 e L L' chan)
  then have e: "validUpstream L" "e \<noteq> FatalErrorUpstreamStateEvent"
    using assms(2) by (auto simp: status_inv_def)
  from process_event_status [OF turn(4) e] process_event_methods_valid [OF turn(4) e] turn assms(2)
  show ?thesis by (auto simp: status_inv_def settled_def split: if_splits)
next
  case (lag n)
  obtain L chan where c: "c = (L, chan)" by (cases c)
  have "StatusUpstreamStateEvent Available (Some (if n < 0 then 0 else n)) \<in> set (snd c')"
    using lag c by (simp add: UpdateHeadLag_def Let_def)
  with lag c assms(2) show ?thesis by (auto simp: status_inv_def UpdateHeadLag_def Let_def)
qed (auto simp: status_inv_def settled_def)

text \<open>The order of published events: an upstream that was removed publishes nothing until it is valid
  again, and it is declared valid only after it was removed.\<close>

fun lifecycle_step :: "UpstreamEventType \<Rightarrow> bool \<Rightarrow> bool option" where
  "lifecycle_step RemoveUpstreamEvent v = (if v then Some False else None)"
| "lifecycle_step (ValidUpstreamEvent _) v = (if v then None else Some True)"
| "lifecycle_step _ v = (if v then Some True else None)"

fun lifecycle :: "bool \<Rightarrow> UpstreamEventType list \<Rightarrow> bool option" where
  "lifecycle v [] = Some v"
| "lifecycle v (e # older) = Option.bind (lifecycle v older) (lifecycle_step e)"

definition lifecycle_inv :: "bool \<Rightarrow> upstream_loop \<times> StateEvent list \<Rightarrow> bool" where
  "lifecycle_inv v = (\<lambda>(L, chan). lifecycle v (published L) = Some (validUpstream L))"

lemma lifecycle_turn:
  assumes "process_event o1 env e L = Some L'" and "lifecycle v (published L) = Some (validUpstream L)"
  shows "lifecycle v (published L') = Some (validUpstream L')"
  using assms
  by (cases e) (auto simp: turn_defs split: if_splits option.splits bool.splits)

lemma lifecycle_inv_step: "upstream_step env src c c' \<Longrightarrow> lifecycle_inv v c \<Longrightarrow> lifecycle_inv v c'"
  by (induction rule: upstream_step.induct)
    (auto simp: lifecycle_inv_def UpdateHeadLag_def intro: lifecycle_turn)

definition wf_inv :: "upstream_loop \<times> StateEvent list \<Rightarrow> bool" where
  "wf_inv = (\<lambda>(L, chan). state_wf (upstreamState L) \<and> (\<forall>e \<in> set chan. emitted e))"

lemma wf_inv_step: "upstream_step env src c c' \<Longrightarrow> wf_inv c \<Longrightarrow> wf_inv c'"
  by (induction rule: upstream_step.induct)
    (auto simp: wf_inv_def UpdateHeadLag_def emitted_def intro: process_event_wf)

text \<open>A list of events, handled one after the other.\<close>

fun process_events :: "orders \<Rightarrow> upstream_env \<Rightarrow> StateEvent list \<Rightarrow> upstream_loop \<Rightarrow> upstream_loop option" where
  "process_events o1 env [] L = Some L"
| "process_events o1 env (e # es) L = Option.bind (process_event o1 env e L) (process_events o1 env es)"

section \<open>Properties\<close>

text \<open>\<^bold>\<open>C4\<close>. While no fatal settings error occurs, an upstream offers, in every interleaving of its event loop
  with timers, lag updates and detectors, exactly the methods of its spec, minus the banned, the
  unsupported and the disabled ones, plus those the configuration enables.\<close>

theorem offered_methods_exact:
  assumes "NewUpstreamMethods rg rm (env_specs env) (env_spec env) (Some (env_methods env))
      (env_connectors env) = Some ms" and "range_order rg" "range_order rm" and "upMethods s = Some ms"
    and "upstream_steps env (\<lambda>e. e \<noteq> FatalErrorUpstreamStateEvent) (start_loop s True, []) (L, chan)"
  shows "offers env (bannedMethods L \<union> unsupportedMethods L) (upMethods (upstreamState L))"
proof -
  note f = factory_methods_offers [OF assms(1,2,3)]
  have "exact_inv env (start_loop s True, [])"
    using f assms(4) by (simp add: exact_inv_def start_loop_def)
  with assms(5) have "exact_inv env (L, chan)"
    by (rule upstream_invariant) (rule exact_inv_step [OF conjunct2 [OF f]])
  then show ?thesis by (simp add: exact_inv_def)
qed

text \<open>Configuration has the last word: in every reachable state, fatal errors included, the methods and
  groups of the enable list are offered; no ban and no detection result removes them.\<close>

theorem enabled_methods_always_offered:
  assumes "NewUpstreamMethods rg rm (env_specs env) (env_spec env) (Some (env_methods env))
      (env_connectors env) = Some ms" and "range_order rg" "range_order rm" and "upMethods s = Some ms"
    and "upstream_steps env src (start_loop s v, []) (L, chan)" and "e \<in> set (EnableMethods (env_methods env))"
  shows "\<exists>now r1 r2 groups. upMethods (upstreamState L) = Some now \<and> range_order r1 \<and> range_order r2
     \<and> GetSpecMethodsByConnectors r1 r2 (env_specs env) (env_spec env) (env_connectors env) = Some groups
     \<and> (\<forall>n \<in> expand_group groups e. HasMethod now n)"
proof -
  note f = factory_methods_offers [OF assms(1,2,3)]
  have "methods_inv env (start_loop s v, [])"
    using f assms(4) by (auto simp: methods_inv_def start_loop_def)
  with assms(5) have "methods_inv env (L, chan)"
    by (rule upstream_invariant) (rule methods_inv_step [OF conjunct2 [OF f]])
  then obtain D where "offers env D (upMethods (upstreamState L))" by (auto simp: methods_inv_def)
  then obtain r1 r2 groups now where o: "range_order r1" "range_order r2" "upMethods (upstreamState L) = Some now"
    "GetSpecMethodsByConnectors r1 r2 (env_specs env) (env_spec env) (env_connectors env) = Some groups"
    and sup: "GetSupportedMethods now = (fst ` set (defaultMethods groups)
               - (\<Union>d \<in> D \<union> set (DisableMethods (env_methods env)). expand_group groups d))
            \<union> (\<Union>e \<in> set (EnableMethods (env_methods env)). expand_group groups e)"
    unfolding offers_def by (elim exE conjE)
  have "\<forall>n \<in> expand_group groups e. HasMethod now n"
    unfolding HasMethod_def sup using assms(6) by blast
  with o show ?thesis by blast
qed

text \<open>\<^bold>\<open>C27\<close>. No ban is forgotten: in every reachable state a banned method has its unban timer armed or its
  unban event on the channel.\<close>

theorem every_ban_has_a_pending_unban:
  assumes "upstream_steps env src (start_loop s v, []) (L, chan)" and "m \<in> bannedMethods L"
  shows "m \<in> set (banTimers L) \<or> UnbanMethodUpstreamStateEvent m \<in> set chan"
proof -
  have "ban_inv (start_loop s v, [])" by (simp add: ban_inv_def start_loop_def)
  with assms(1) have "ban_inv (L, chan)" by (rule upstream_invariant) (rule ban_inv_step)
  with assms(2) show ?thesis by (simp add: ban_inv_def)
qed

text \<open>While no fatal settings error occurs, the published availability is the one the health probes
  report, lowered to syncing by a lag above the chain's threshold, unless an event that will bring it
  about is still on the channel.\<close>

theorem availability_follows_lag:
  assumes "upstream_steps env (\<lambda>e. e \<noteq> FatalErrorUpstreamStateEvent) (start_loop s True, []) (L, chan)"
  shows "Status (upstreamState L) = StatusByLag (headLag L) (baseAvail L) (env_syncing env)
     \<or> (\<exists>st lag. StatusUpstreamStateEvent st lag \<in> set chan)"
proof -
  have "status_inv env (start_loop s True, [])"
    by (simp add: status_inv_def start_loop_def settled_def StatusByLag_def LagExceeds_def)
  with assms have "status_inv env (L, chan)" by (rule upstream_invariant) (rule status_inv_step)
  then show ?thesis by (auto simp: status_inv_def settled_def)
qed

text \<open>\<^bold>\<open>C28\<close>. The events an upstream publishes follow its lifecycle: after a removal nothing is published until it
  is declared valid again, and it is declared valid only after a removal (or an invalid start).\<close>

theorem published_events_follow_lifecycle:
  assumes "upstream_steps env src (start_loop s v, []) (L, chan)"
  shows "lifecycle v (published L) = Some (validUpstream L)"
proof -
  have "lifecycle_inv v (start_loop s v, [])" by (simp add: lifecycle_inv_def start_loop_def)
  with assms have "lifecycle_inv v (L, chan)" by (rule upstream_invariant) (rule lifecycle_inv_step)
  then show ?thesis by (simp add: lifecycle_inv_def)
qed

text \<open>The event loop never panics: from a well-formed start, in every reachable configuration the next
  event of the channel can be handled.\<close>

theorem event_loop_never_panics:
  assumes "upstream_steps env src (start_loop s v, []) (L, e # chan)" and "state_wf s"
  shows "\<exists>L'. process_event o1 env e L = Some L'"
proof -
  have "wf_inv (start_loop s v, [])" using assms(2) by (simp add: wf_inv_def start_loop_def)
  with assms(1) have "wf_inv (L, e # chan)" by (rule upstream_invariant) (rule wf_inv_step)
  then show ?thesis by (intro process_event_total) (simp_all add: wf_inv_def)
qed

section \<open>Concrete instances\<close>

text \<open>An upstream of the small spec without a methods configuration.\<close>

definition sample_env :: upstream_env where
  "sample_env = \<lparr>env_specs = sample_specs, env_spec = ''eth'',
     env_methods = \<lparr>EnableMethods = [''trace_block''], DisableMethods = []\<rparr>,
     env_connectors = [JsonRpcConnector], env_syncing = 10\<rparr>"

definition sample_orders :: orders where
  "sample_orders = \<lparr>roG = id, roM = id, toSlice = sorted_list_of_set\<rparr>"

definition sample_upstream_state :: UpstreamState where
  "sample_upstream_state = DefaultUpstreamState
     (NewUpstreamMethods id id sample_specs ''eth'' (Some (env_methods sample_env)) [JsonRpcConnector])
     (Some {}) ''00001'' None None"

lemma sample_orders_ok: "orders_ok sample_orders"
  by (simp add: orders_ok_def sample_orders_def)

lemma sample_upstream_methods_built:
  "\<exists>ms. NewUpstreamMethods id id (env_specs sample_env) (env_spec sample_env) (Some (env_methods sample_env))
      (env_connectors sample_env) = Some ms \<and> upMethods sample_upstream_state = Some ms"
proof -
  have "NewUpstreamMethods id id sample_specs ''eth'' (Some (env_methods sample_env)) [JsonRpcConnector] \<noteq> None"
    by code_simp
  then show ?thesis
    by (auto simp: sample_upstream_state_def DefaultUpstreamState_def sample_env_def)
qed

text \<open>A ban emitted and handled, as steps of the interleaving.\<close>

definition sample_banned :: upstream_loop where
  "sample_banned = the (process_event sample_orders sample_env (BanMethodUpstreamStateEvent ''eth_call'')
     (start_loop sample_upstream_state True))"

lemma sample_ban_handled:
  "process_event sample_orders sample_env (BanMethodUpstreamStateEvent ''eth_call'')
     (start_loop sample_upstream_state True) = Some sample_banned"
proof -
  have "state_wf (upstreamState (start_loop sample_upstream_state True))"
    by (simp add: start_loop_def sample_upstream_state_def)
  from process_event_total [OF this, of "BanMethodUpstreamStateEvent ''eth_call''" sample_orders sample_env]
  show ?thesis by (auto simp: sample_banned_def emitted_def)
qed

lemma sample_ban_steps:
  "upstream_steps sample_env (\<lambda>e. e \<noteq> FatalErrorUpstreamStateEvent)
     (start_loop sample_upstream_state True, []) (sample_banned, [])"
proof -
  let ?L = "start_loop sample_upstream_state True"
  let ?e = "BanMethodUpstreamStateEvent ''eth_call''"
  have "upstream_step sample_env (\<lambda>e. e \<noteq> FatalErrorUpstreamStateEvent) (?L, []) (?L, [] @ [?e])"
    by (rule upstream_step.emit) (simp_all add: emitted_def)
  moreover have "upstream_step sample_env (\<lambda>e. e \<noteq> FatalErrorUpstreamStateEvent) (?L, [?e]) (sample_banned, [])"
    using sample_orders_ok sample_ban_handled by (rule upstream_step.turn)
  ultimately show ?thesis by simp
qed

lemma sample_banned_set:
  "bannedMethods sample_banned = {''eth_call''}" "unsupportedMethods sample_banned = {}"
proof -
  have "\<not> forceEnabled sample_env ''eth_call''" by code_simp
  then show "bannedMethods sample_banned = {''eth_call''}" "unsupportedMethods sample_banned = {}"
    by (simp_all add: sample_banned_def turn_defs start_loop_def)
qed

theorem offered_methods_exact_witness:
  "offers sample_env {''eth_call''} (upMethods (upstreamState sample_banned))"
proof -
  obtain ms where ms: "NewUpstreamMethods id id (env_specs sample_env) (env_spec sample_env)
      (Some (env_methods sample_env)) (env_connectors sample_env) = Some ms" "upMethods sample_upstream_state = Some ms"
    using sample_upstream_methods_built by blast
  from offered_methods_exact [OF ms(1) _ _ ms(2) sample_ban_steps] show ?thesis
    by (simp add: sample_banned_set)
qed

theorem enabled_methods_always_offered_witness:
  "\<exists>now r1 r2 groups. upMethods (upstreamState sample_banned) = Some now \<and> range_order r1 \<and> range_order r2
     \<and> GetSpecMethodsByConnectors r1 r2 (env_specs sample_env) (env_spec sample_env) (env_connectors sample_env)
         = Some groups
     \<and> (\<forall>n \<in> expand_group groups ''trace_block''. HasMethod now n)"
proof -
  obtain ms where ms: "NewUpstreamMethods id id (env_specs sample_env) (env_spec sample_env)
      (Some (env_methods sample_env)) (env_connectors sample_env) = Some ms" "upMethods sample_upstream_state = Some ms"
    using sample_upstream_methods_built by blast
  from enabled_methods_always_offered [OF ms(1) _ _ ms(2) sample_ban_steps, of "''trace_block''"] show ?thesis
    by (simp add: sample_env_def)
qed

theorem every_ban_has_a_pending_unban_witness: "''eth_call'' \<in> set (banTimers sample_banned)"
  using every_ban_has_a_pending_unban [OF sample_ban_steps, of "''eth_call''"] by (simp add: sample_banned_set)

theorem availability_follows_lag_witness:
  "Status (upstreamState sample_banned) =
     StatusByLag (headLag sample_banned) (baseAvail sample_banned) (env_syncing sample_env)"
  using availability_follows_lag [OF sample_ban_steps] by simp

theorem published_events_follow_lifecycle_witness:
  "lifecycle True (published sample_banned) = Some (validUpstream sample_banned)"
  using published_events_follow_lifecycle [OF sample_ban_steps] .

theorem event_loop_never_panics_witness:
  "\<exists>L'. process_event sample_orders sample_env FatalErrorUpstreamStateEvent sample_banned = Some L'"
proof -
  have "upstream_step sample_env (\<lambda>e. True) (sample_banned, []) (sample_banned, [] @ [FatalErrorUpstreamStateEvent])"
    by (rule upstream_step.emit) (simp_all add: emitted_def)
  moreover have "upstream_steps sample_env (\<lambda>e. True) (start_loop sample_upstream_state True, []) (sample_banned, [])"
    by (rule rtranclp_mono [THEN predicate2D, OF _ sample_ban_steps]) (auto elim!: upstream_step.cases intro: upstream_step.intros)
  ultimately have "upstream_steps sample_env (\<lambda>e. True) (start_loop sample_upstream_state True, [])
      (sample_banned, [FatalErrorUpstreamStateEvent])"
    by simp
  from event_loop_never_panics [OF this] show ?thesis by (simp add: sample_upstream_state_def)
qed


end
