(* ===== verification/ChainSupervisor.thy ===== *)
theory ChainSupervisor
  imports ForkChoice Upstream
begin

text \<open>
  The supervisor of one chain, \<open>internal/upstreams/chain_supervisor.go\<close> and
  \<open>chain_supervisor_state.go\<close>: it keeps the last published state of every upstream of the chain, merges
  them into the state of the chain, follows the head through the fork choice, and tells an upstream
  when its head lag crosses the syncing threshold.

  \<open>handle_event\<close> is one turn of \<open>processEvents\<close>. What the supervisor does to its surroundings, the state
  changes it publishes, the lags it tracks and the \<open>UpdateHeadLag\<close> calls it makes, is a list of outputs,
  newest first. Every \<open>Range\<close> over the upstream states has an order of its own.
\<close>

section \<open>The state of a chain\<close>

record ChainHeadData =
  chHead :: Block
  chUpstreamId :: string

definition NewChainHeadData :: "Block \<Rightarrow> string \<Rightarrow> ChainHeadData" where
  "NewChainHeadData b i = \<lparr>chHead = b, chUpstreamId = i\<rparr>"

definition ChainHeadData_IsEmpty :: "ChainHeadData \<Rightarrow> bool" where
  "ChainHeadData_IsEmpty c = IsEmptyByHeight (chHead c)"

record AggregatedLabels =
  Amount :: nat
  aggLabels :: "(string, string) gomap"

definition NewAggregatedLabels :: "nat \<Rightarrow> (string, string) gomap \<Rightarrow> AggregatedLabels" where
  "NewAggregatedLabels n l = \<lparr>Amount = n, aggLabels = l\<rparr>"

definition AggregatedLabels_Equals :: "AggregatedLabels \<Rightarrow> AggregatedLabels \<Rightarrow> bool" where
  "AggregatedLabels_Equals a b \<longleftrightarrow> Amount a = Amount b \<and> gm_equal (aggLabels a) (aggLabels b)"

definition CompareAggregatedLabels :: "AggregatedLabels list \<Rightarrow> AggregatedLabels list \<Rightarrow> bool" where
  "CompareAggregatedLabels a b \<longleftrightarrow>
     length a = length b \<and> list_all (\<lambda>x. list_ex (\<lambda>y. AggregatedLabels_Equals y x) b) a"

record ChainSupervisorState =
  csStatus :: AvailabilityStatus
  csHeadData :: ChainHeadData
  csMethods :: Methods
  csBlocks :: "(BlockType, Block) gomap"
  csLowerBounds :: "(LowerBoundType, LowerBoundData) gomap"
  csLabels :: "AggregatedLabels list"
  csSubMethods :: "string set"
  csCaps :: "Cap set"

datatype ChainSupervisorStateWrapper =
    StatusWrapper AvailabilityStatus
  | MethodsWrapper "string set"
  | BlocksWrapper "(BlockType, Block) gomap"
  | LowerBoundsWrapper "LowerBoundData list"
  | LabelsWrapper "AggregatedLabels list"
  | SubMethodsWrapper "string set"
  | CapsWrapper "Cap set"
  | HeadWrapper Block string

text \<open>\<open>maps.EqualFunc\<close> and \<open>maps.Equal\<close>: as many entries, and an equal value under every key.\<close>

definition maps_EqualFunc :: "('v \<Rightarrow> 'v \<Rightarrow> bool) \<Rightarrow> ('k, 'v) gomap \<Rightarrow> ('k, 'v) gomap \<Rightarrow> bool" where
  "maps_EqualFunc eq m1 m2 \<longleftrightarrow> length m1 = length m2
     \<and> list_all (\<lambda>(k, v). case map_of m2 k of None \<Rightarrow> False | Some w \<Rightarrow> eq v w) m1"

definition Compare :: "ChainSupervisorState \<Rightarrow> ChainSupervisorState \<Rightarrow> ChainSupervisorStateWrapper list" where
  "Compare c new =
     (if csStatus c \<noteq> csStatus new then [StatusWrapper (csStatus new)] else [])
   @ (if GetSupportedMethods (csMethods c) \<noteq> GetSupportedMethods (csMethods new)
      then [MethodsWrapper (GetSupportedMethods (csMethods new))] else [])
   @ (if \<not> maps_EqualFunc Block_Equals (csBlocks c) (csBlocks new) then [BlocksWrapper (csBlocks new)] else [])
   @ (if \<not> maps_EqualFunc (=) (csLowerBounds c) (csLowerBounds new)
      then [LowerBoundsWrapper (map snd (csLowerBounds new))] else [])
   @ (if \<not> CompareAggregatedLabels (csLabels c) (csLabels new) then [LabelsWrapper (csLabels new)] else [])
   @ (if csSubMethods c \<noteq> csSubMethods new then [SubMethodsWrapper (csSubMethods new)] else [])
   @ (if csCaps c \<noteq> csCaps new then [CapsWrapper (csCaps new)] else [])"

section \<open>Merging upstream states\<close>

definition processCaps :: "UpstreamState list \<Rightarrow> Cap set" where
  "processCaps ups = fold (\<lambda>u caps. case Caps u of None \<Rightarrow> caps | Some c \<Rightarrow> caps \<union> c) ups {}"

fun bump_labels :: "(string, string) gomap \<Rightarrow> AggregatedLabels list \<Rightarrow> AggregatedLabels list" where
  "bump_labels l [] = [NewAggregatedLabels 1 l]"
| "bump_labels l (a # as) =
     (if gm_equal l (aggLabels a) then a\<lparr>Amount := Amount a + 1\<rparr> # as else a # bump_labels l as)"

definition processLabels :: "UpstreamState list \<Rightarrow> AggregatedLabels list" where
  "processLabels ups = fold (\<lambda>u acc.
     case upLabels u of
       None \<Rightarrow> acc
     | Some l \<Rightarrow> (let ls = GetAllLabels l in if ls = [] then acc else bump_labels ls acc)) ups []"

text \<open>\<open>NewChainMethods\<close> calls every delegate, so an upstream without methods is a nil dereference.\<close>

definition processUpstreamMethods :: "UpstreamState list \<Rightarrow> Methods option" where
  "processUpstreamMethods ups = map_option NewChainMethods (those (map upMethods ups))"

definition lower_bound_min :: "LowerBoundData \<Rightarrow> LowerBoundInfo \<Rightarrow> LowerBoundInfo" where
  "lower_bound_min b bounds =
     (case map_of bounds (boundType b) of
        None \<Rightarrow> AList.update (boundType b) b bounds
      | Some cur \<Rightarrow> if Bound b < Bound cur then AList.update (boundType b) b bounds else bounds)"

definition processLowerBounds :: "UpstreamState list \<Rightarrow> LowerBoundInfo" where
  "processLowerBounds ups = fold (\<lambda>u bounds.
     case LowerBoundsInfo u of
       None \<Rightarrow> bounds
     | Some l \<Rightarrow> fold lower_bound_min (GetAllBounds l) bounds) ups []"

definition compareBlocks :: "BlockType \<Rightarrow> Block \<Rightarrow> Block \<Rightarrow> Block" where
  "compareBlocks t cur new = (if Height new > Height cur then new else cur)"

definition merge_block :: "BlockType \<times> Block \<Rightarrow> BlockInfo \<Rightarrow> BlockInfo" where
  "merge_block = (\<lambda>(t, b) blocks.
     case map_of blocks t of
       None \<Rightarrow> AList.update t b blocks
     | Some cur \<Rightarrow> AList.update t (compareBlocks t cur b) blocks)"

definition processUpstreamBlocks :: "UpstreamState list \<Rightarrow> BlockInfo" where
  "processUpstreamBlocks ups = fold (\<lambda>u blocks.
     case upBlockInfo u of
       None \<Rightarrow> blocks
     | Some i \<Rightarrow> fold merge_block (GetBlocks i) blocks) ups []"

definition processSubMethods :: "string set \<Rightarrow> Cap set \<Rightarrow> string set" where
  "processSubMethods subChainMethods caps =
     (if WsCap \<notin> caps then {}
      else if ''eth_subscribe'' \<in> subChainMethods then
        subChainMethods - {''eth_subscribe''}
        \<union> (if NewHeadsCap \<in> caps then {''newHeads''} else {})
        \<union> (if LogsCap \<in> caps then {''logs''} else {})
        \<union> (if PendingTxCap \<in> caps then {''newPendingTransactions'', ''drpc_pendingTransactions''} else {})
      else subChainMethods)"

section \<open>The supervisor\<close>

text \<open>Fixed for a supervisor: the subscription methods of its chain, whether lag is validated, the
  chain's syncing threshold, whether a dimension tracker is configured, and which upstreams
  \<open>getUpstream\<close> knows (\<open>None\<close> when the function itself is nil).\<close>

record chain_env =
  subChainMethods :: "string set"
  validateLag :: bool
  syncingLag :: i64
  hasTracker :: bool
  getUpstream :: "(string \<Rightarrow> bool) option"

datatype chain_output =
    PublishState "ChainSupervisorStateWrapper list"
  | TrackHeadLag string u64
  | TrackFinalizationLag string u64
  | CallUpdateHeadLag string i64

type_synonym ups_map = "(string, UpstreamState) gomap"

record chain_sup =
  fc :: HeightForkChoice
  chState :: ChainSupervisorState
  upstreamStates :: ups_map
  lastOver :: "(string, bool) gomap"
  roundRobinIndex :: u64
  outputs :: "chain_output list"

record chain_orders =
  ro_heads :: heads_order
  ro_avail :: "ups_map \<Rightarrow> ups_map"
  ro_stat :: "ups_map \<Rightarrow> ups_map"
  ro_fin :: "ups_map \<Rightarrow> ups_map"
  ro_lag :: "ups_map \<Rightarrow> ups_map"

definition chain_orders_ok :: "chain_orders \<Rightarrow> bool" where
  "chain_orders_ok ro \<longleftrightarrow> range_order (ro_heads ro) \<and> range_order (ro_avail ro) \<and> range_order (ro_stat ro)
     \<and> range_order (ro_fin ro) \<and> range_order (ro_lag ro)"

definition NewGenericChainSupervisor :: chain_sup where
  "NewGenericChainSupervisor =
     \<lparr>fc = NewHeightForkChoice,
      chState = \<lparr>csStatus = Available, csHeadData = NewChainHeadData ZeroBlock [],
        csMethods = NewChainMethods [], csBlocks = [], csLowerBounds = [], csLabels = [],
        csSubMethods = {}, csCaps = {}\<rparr>,
      upstreamStates = [], lastOver = [], roundRobinIndex = 0, outputs = []\<rparr>"

definition GetUpstreamState :: "chain_sup \<Rightarrow> string \<Rightarrow> UpstreamState option" where
  "GetUpstreamState b i = map_of (upstreamStates b) i"

definition GetUpstreamIds :: "(ups_map \<Rightarrow> ups_map) \<Rightarrow> chain_sup \<Rightarrow> string list" where
  "GetUpstreamIds ro b = sort (map fst (ro (upstreamStates b)))"

definition NextIndex :: "chain_sup \<Rightarrow> u64 \<times> chain_sup" where
  "NextIndex b = (let n = roundRobinIndex b + 1 in (n, b\<lparr>roundRobinIndex := n\<rparr>))"

definition chain_GetMethod :: "chain_sup \<Rightarrow> string \<Rightarrow> Method option" where
  "chain_GetMethod b n = GetMethod (csMethods (chState b)) n"

definition availableUpstreams :: "(ups_map \<Rightarrow> ups_map) \<Rightarrow> chain_sup \<Rightarrow> UpstreamState list" where
  "availableUpstreams ro b = map snd (filter (\<lambda>(k, v). Status v = Available) (ro (upstreamStates b)))"

definition processUpstreamStatuses :: "(ups_map \<Rightarrow> ups_map) \<Rightarrow> chain_sup \<Rightarrow> AvailabilityStatus" where
  "processUpstreamStatuses ro b =
     fold (\<lambda>(i, u) status. if Status u < status then Status u else status) (ro (upstreamStates b)) Unavailable"

text \<open>The lag the tracker sees for one upstream: zero unless both finalized blocks are known.
  \<open>None\<close> is the nil dereference of an upstream without a block table.\<close>

definition finalizationLag :: "ChainSupervisorState \<Rightarrow> UpstreamState \<Rightarrow> u64 option" where
  "finalizationLag s u =
     (case map_of (csBlocks s) FinalizedBlock of
        None \<Rightarrow> Some 0
      | Some f \<Rightarrow>
          if IsEmptyByHeight f then Some 0
          else case upBlockInfo u of
            None \<Rightarrow> None
          | Some i \<Rightarrow>
              (let uf = GetBlock i FinalizedBlock
               in Some (if \<not> IsEmptyByHeight uf \<and> Height f \<ge> Height uf then Height f - Height uf else 0)))"

fun track_finalization :: "ChainSupervisorState \<Rightarrow> ups_map \<Rightarrow> chain_output list \<Rightarrow> chain_output list option" where
  "track_finalization s [] out = Some out"
| "track_finalization s ((i, u) # us) out =
     (case finalizationLag s u of
        None \<Rightarrow> None
      | Some n \<Rightarrow> track_finalization s us (TrackFinalizationLag i n # out))"

definition calculateFinalizationLags :: "chain_orders \<Rightarrow> chain_env \<Rightarrow> chain_sup \<Rightarrow> chain_sup option" where
  "calculateFinalizationLags ro env b =
     (if hasTracker env then
        map_option (\<lambda>out. b\<lparr>outputs := out\<rparr>)
          (track_finalization (chState b) (ro_fin ro (upstreamStates b)) (outputs b))
      else Some b)"

definition headLagOf :: "ChainSupervisorState \<Rightarrow> UpstreamState \<Rightarrow> u64" where
  "headLagOf s u =
     (if Height (chHead (csHeadData s)) \<ge> Height (HeadData u)
      then Height (chHead (csHeadData s)) - Height (HeadData u) else 0)"

definition lag_one :: "chain_env \<Rightarrow> string \<times> UpstreamState \<Rightarrow> chain_sup \<Rightarrow> chain_sup" where
  "lag_one env = (\<lambda>(key, val) b.
     let headLag = headLagOf (chState b) val;
         b = (if hasTracker env then b\<lparr>outputs := TrackHeadLag key headLag # outputs b\<rparr> else b)
     in case getUpstream env of
          None \<Rightarrow> b
        | Some known \<Rightarrow>
            if \<not> validateLag env then b
            else
              (let lag = int64 headLag;
                   over = LagExceeds lag (syncingLag env);
                   last = (case map_of (lastOver b) key of None \<Rightarrow> False | Some x \<Rightarrow> x)
               in if last \<noteq> over \<and> known key
                  then b\<lparr>lastOver := AList.update key over (lastOver b),
                         outputs := CallUpdateHeadLag key lag # outputs b\<rparr>
                  else b))"

definition calculateHeadLags :: "chain_orders \<Rightarrow> chain_env \<Rightarrow> chain_sup \<Rightarrow> chain_sup" where
  "calculateHeadLags ro env b = fold (lag_one env) (ro_lag ro (upstreamStates b)) b"

text \<open>\<open>updateHead\<close> with a non-nil event: an event whose head is empty does not reach the fork choice;
  the chain's head is cleared.\<close>

definition updateHead ::
  "chain_orders \<Rightarrow> chain_env \<Rightarrow> string \<Rightarrow> AvailabilityStatus \<Rightarrow> Block \<Rightarrow> chain_sup \<Rightarrow> chain_sup" where
  "updateHead ro env upstreamId st head b =
     (let b =
        (if \<not> IsEmptyByHeight head then
           (let ((updated, best), h) = Choose (ro_heads ro) upstreamId st head (fc b);
                b = b\<lparr>fc := h\<rparr>
            in if updated then
                 (let b = b\<lparr>chState := (chState b)\<lparr>csHeadData := NewChainHeadData best upstreamId\<rparr>\<rparr>
                  in if \<not> ChainHeadData_IsEmpty (csHeadData (chState b))
                     then b\<lparr>outputs := PublishState [HeadWrapper best upstreamId] # outputs b\<rparr>
                     else b)
               else b)
         else b\<lparr>chState := (chState b)\<lparr>csHeadData := NewChainHeadData ZeroBlock upstreamId\<rparr>\<rparr>)
      in calculateHeadLags ro env b)"

definition merged_state :: "chain_orders \<Rightarrow> chain_env \<Rightarrow> chain_sup \<Rightarrow> ChainSupervisorState option" where
  "merged_state ro env b =
     (let ups = availableUpstreams (ro_avail ro) b in
      map_option (\<lambda>ms.
        (chState b)\<lparr>csStatus := processUpstreamStatuses (ro_stat ro) b, csMethods := ms,
          csBlocks := processUpstreamBlocks ups, csLowerBounds := processLowerBounds ups,
          csLabels := processLabels ups, csCaps := processCaps ups,
          csSubMethods := processSubMethods (subChainMethods env) (processCaps ups)\<rparr>)
        (processUpstreamMethods ups))"

definition updateState :: "chain_orders \<Rightarrow> chain_env \<Rightarrow> chain_sup \<Rightarrow> chain_sup option" where
  "updateState ro env b =
     (case merged_state ro env b of
        None \<Rightarrow> None
      | Some new \<Rightarrow>
          (let ws = Compare (chState b) new;
               b = b\<lparr>chState := new\<rparr>;
               b = (if ws \<noteq> [] then b\<lparr>outputs := PublishState ws # outputs b\<rparr> else b)
           in calculateFinalizationLags ro env b))"

text \<open>One turn of \<open>processEvents\<close>; \<open>None\<close> is a panic.\<close>

definition handle_event ::
  "chain_orders \<Rightarrow> chain_env \<Rightarrow> string \<Rightarrow> UpstreamEventType \<Rightarrow> chain_sup \<Rightarrow> chain_sup option" where
  "handle_event ro env i ev b =
     (case ev of
        RemoveUpstreamEvent \<Rightarrow>
          (case map_of (upstreamStates b) i of
             None \<Rightarrow> Some b
           | Some u \<Rightarrow>
               (let b = b\<lparr>upstreamStates := AList.delete i (upstreamStates b),
                          lastOver := AList.delete i (lastOver b)\<rparr>
                in map_option (updateHead ro env i Unavailable (HeadData u)) (updateState ro env b)))
      | HeadUpstreamEvent st head \<Rightarrow>
          (let b = (case map_of (upstreamStates b) i of
                None \<Rightarrow> b
              | Some u \<Rightarrow> b\<lparr>upstreamStates := AList.update i (u\<lparr>HeadData := head\<rparr>) (upstreamStates b)\<rparr>)
           in Some (updateHead ro env i st head b))
      | StateUpstreamEvent s \<Rightarrow>
          updateState ro env (b\<lparr>upstreamStates := AList.update i s (upstreamStates b)\<rparr>)
      | ValidUpstreamEvent s \<Rightarrow>
          map_option (\<lambda>b. if \<not> IsEmptyByHeight (HeadData s)
              then updateHead ro env i (Status s) (HeadData s) b else b)
            (updateState ro env (b\<lparr>upstreamStates := AList.update i s (upstreamStates b)\<rparr>)))"

fun handle_events ::
  "chain_env \<Rightarrow> (chain_orders \<times> string \<times> UpstreamEventType) list \<Rightarrow> chain_sup \<Rightarrow> chain_sup option" where
  "handle_events env [] b = Some b"
| "handle_events env ((ro, i, ev) # es) b = Option.bind (handle_event ro env i ev b) (handle_events env es)"

section \<open>What the merges compute\<close>

lemma Min_insert2:
  "finite A \<Longrightarrow> Min (insert u (insert v A)) = Min (insert (if v < u then v else u) (A :: 'a :: linorder set))"
  by (cases "A = {}") (auto simp: min_def)

lemma processUpstreamStatuses_Min:
  assumes "range_order ro" "gm_wf (upstreamStates b)"
  shows "processUpstreamStatuses ro b = Min (insert Unavailable (Status ` ran (map_of (upstreamStates b))))"
proof -
  have "fold (\<lambda>(i, u) st. if Status u < st then Status u else st) xs c = Min (insert c (Status ` snd ` set xs))"
    for xs :: ups_map and c
  proof (induction xs arbitrary: c)
    case (Cons x xs)
    obtain i u where x: "x = (i, u)" by (cases x)
    show ?case using Cons.IH [of "if Status u < c then Status u else c"]
      by (simp add: x Min_insert2 del: Min_insert cong: if_cong)
  qed simp
  then show ?thesis
    using assms by (simp add: processUpstreamStatuses_def range_order_set ran_distinct)
qed

lemma availableUpstreams_set:
  assumes "range_order ro" "gm_wf (upstreamStates b)"
  shows "set (availableUpstreams ro b) = {u \<in> ran (map_of (upstreamStates b)). Status u = Available}"
  unfolding ran_distinct [OF assms(2)]
  using assms(1) by (auto simp: availableUpstreams_def range_order_set image_iff)

text \<open>Lower bounds: per type, one of the available upstreams' bounds with the least value.\<close>

definition bounds_of :: "UpstreamState \<Rightarrow> LowerBoundData list" where
  "bounds_of u = (case LowerBoundsInfo u of None \<Rightarrow> [] | Some l \<Rightarrow> GetAllBounds l)"

lemma processLowerBounds_flat:
  "processLowerBounds ups = fold lower_bound_min (concat (map bounds_of ups)) []"
proof -
  have "fold (\<lambda>u bounds. case LowerBoundsInfo u of None \<Rightarrow> bounds
        | Some l \<Rightarrow> fold lower_bound_min (GetAllBounds l) bounds) ups acc =
      fold lower_bound_min (concat (map bounds_of ups)) acc" for acc
    by (induction ups arbitrary: acc) (auto simp: bounds_of_def split: option.split)
  then show ?thesis by (simp add: processLowerBounds_def)
qed

definition least_bound :: "LowerBoundData set \<Rightarrow> LowerBoundType \<Rightarrow> LowerBoundData option \<Rightarrow> bool" where
  "least_bound B t r \<longleftrightarrow>
     (case r of
        None \<Rightarrow> \<forall>d \<in> B. boundType d \<noteq> t
      | Some m \<Rightarrow> m \<in> B \<and> boundType m = t \<and> (\<forall>d \<in> B. boundType d = t \<longrightarrow> Bound m \<le> Bound d))"

lemma lower_bound_min_step:
  assumes "\<forall>t. least_bound B t (map_of bounds t)"
  shows "\<forall>t. least_bound (insert d B) t (map_of (lower_bound_min d bounds) t)"
  using assms
  by (fastforce simp: lower_bound_min_def least_bound_def split: option.splits if_splits)

lemma lower_bound_min_fold:
  assumes "\<forall>t. least_bound B t (map_of bounds t)"
  shows "\<forall>t. least_bound (B \<union> set ds) t (map_of (fold lower_bound_min ds bounds) t)"
  using assms
proof (induction ds arbitrary: B bounds)
  case (Cons d ds)
  from Cons.IH [OF lower_bound_min_step [OF Cons.prems]] show ?case by simp
qed simp

lemma processLowerBounds_least:
  "least_bound (\<Union>u \<in> set ups. set (bounds_of u)) t (map_of (processLowerBounds ups) t)"
  using lower_bound_min_fold [of "{}" "[]" "concat (map bounds_of ups)"]
  by (simp add: processLowerBounds_flat least_bound_def)

text \<open>Blocks: per type, one of the available upstreams' blocks with the greatest height.\<close>

definition blocks_of :: "UpstreamState \<Rightarrow> (BlockType \<times> Block) list" where
  "blocks_of u = (case upBlockInfo u of None \<Rightarrow> [] | Some i \<Rightarrow> GetBlocks i)"

lemma processUpstreamBlocks_flat:
  "processUpstreamBlocks ups = fold merge_block (concat (map blocks_of ups)) []"
proof -
  have "fold (\<lambda>u blocks. case upBlockInfo u of None \<Rightarrow> blocks
        | Some i \<Rightarrow> fold merge_block (GetBlocks i) blocks) ups acc =
      fold merge_block (concat (map blocks_of ups)) acc" for acc
    by (induction ups arbitrary: acc) (auto simp: blocks_of_def split: option.split)
  then show ?thesis by (simp add: processUpstreamBlocks_def)
qed

definition highest_block :: "(BlockType \<times> Block) set \<Rightarrow> BlockType \<Rightarrow> Block option \<Rightarrow> bool" where
  "highest_block B t r \<longleftrightarrow>
     (case r of
        None \<Rightarrow> \<forall>b. (t, b) \<notin> B
      | Some m \<Rightarrow> (t, m) \<in> B \<and> (\<forall>b. (t, b) \<in> B \<longrightarrow> Height b \<le> Height m))"

lemma merge_block_step:
  assumes "\<forall>t. highest_block B t (map_of blocks t)"
  shows "\<forall>t. highest_block (insert d B) t (map_of (merge_block d blocks) t)"
  using assms
  by (cases d) (fastforce simp: merge_block_def compareBlocks_def highest_block_def split: option.splits if_splits)

lemma merge_block_fold:
  assumes "\<forall>t. highest_block B t (map_of blocks t)"
  shows "\<forall>t. highest_block (B \<union> set ds) t (map_of (fold merge_block ds blocks) t)"
  using assms
proof (induction ds arbitrary: B blocks)
  case (Cons d ds)
  from Cons.IH [OF merge_block_step [OF Cons.prems]] show ?case by simp
qed simp

lemma processUpstreamBlocks_highest:
  "highest_block (\<Union>u \<in> set ups. set (blocks_of u)) t (map_of (processUpstreamBlocks ups) t)"
  using merge_block_fold [of "{}" "[]" "concat (map blocks_of ups)"]
  by (simp add: processUpstreamBlocks_flat highest_block_def)

lemma processCaps_union:
  "processCaps ups = (\<Union>u \<in> set ups. case Caps u of None \<Rightarrow> {} | Some c \<Rightarrow> c)"
proof -
  have "fold (\<lambda>u caps. case Caps u of None \<Rightarrow> caps | Some c \<Rightarrow> caps \<union> c) ups acc =
      acc \<union> (\<Union>u \<in> set ups. case Caps u of None \<Rightarrow> {} | Some c \<Rightarrow> c)" for acc
    by (induction ups arbitrary: acc) (auto split: option.split)
  then show ?thesis by (simp add: processCaps_def)
qed

lemma those_Some: "those xs = Some ys \<longleftrightarrow> xs = map Some ys"
  by (induction xs arbitrary: ys) (auto split: option.splits)

lemma processUpstreamMethods_HasMethod:
  assumes "processUpstreamMethods ups = Some m"
  shows "HasMethod m n \<longleftrightarrow> (\<exists>u \<in> set ups. \<exists>um. upMethods u = Some um \<and> HasMethod um n)"
proof -
  from assms obtain ds where ds: "map upMethods ups = map Some ds" "m = NewChainMethods ds"
    by (auto simp: processUpstreamMethods_def those_Some)
  have "(\<exists>d \<in> set ds. HasMethod d n) \<longleftrightarrow> (\<exists>x \<in> set (map Some ds). \<exists>um. x = Some um \<and> HasMethod um n)" by auto
  also have "\<dots> \<longleftrightarrow> (\<exists>u \<in> set ups. \<exists>um. upMethods u = Some um \<and> HasMethod um n)"
    unfolding ds(1) [symmetric] by auto
  finally show ?thesis by (simp add: ds HasMethod_NewChainMethods)
qed

subsection \<open>Labels\<close>

text \<open>\<open>label_key u\<close> is the label map an upstream contributes, if it has labels at all; the aggregated
  labels are a table from label maps to the number of upstreams that carry them.\<close>

definition label_key :: "UpstreamState \<Rightarrow> (string \<rightharpoonup> string) option" where
  "label_key u =
     (case upLabels u of
        None \<Rightarrow> None
      | Some l \<Rightarrow> if GetAllLabels l = [] then None else Some (map_of (GetAllLabels l)))"

definition label_table :: "AggregatedLabels list \<Rightarrow> (string \<rightharpoonup> string, nat) gomap" where
  "label_table as = map (\<lambda>a. (map_of (aggLabels a), Amount a)) as"

definition labels_wf :: "AggregatedLabels list \<Rightarrow> bool" where
  "labels_wf as \<longleftrightarrow> (\<forall>a \<in> set as. gm_wf (aggLabels a)) \<and> gm_wf (label_table as)"

lemma gm_wf_GetAllLabels: "gm_wf (GetAllLabels l)"
  by (simp add: GetAllLabels_def gm_wf_fold_update)

lemma bump_labels_keys:
  assumes "gm_wf l" "\<forall>a \<in> set as. gm_wf (aggLabels a)"
  shows "fst ` set (label_table (bump_labels l as)) = insert (map_of l) (fst ` set (label_table as))
     \<and> (\<forall>a \<in> set (bump_labels l as). gm_wf (aggLabels a))"
  using assms
proof (induction as)
  case (Cons a as)
  then have "gm_equal l (aggLabels a) \<longleftrightarrow> map_of l = map_of (aggLabels a)" by (intro gm_equal_iff) simp_all
  with Cons show ?case by (auto simp: label_table_def)
qed (simp add: label_table_def NewAggregatedLabels_def)

lemma bump_labels_table:
  assumes "gm_wf l" "labels_wf as"
  shows "labels_wf (bump_labels l as)
     \<and> map_of (label_table (bump_labels l as)) =
         (map_of (label_table as))(map_of l \<mapsto>
            (case map_of (label_table as) (map_of l) of None \<Rightarrow> 1 | Some n \<Rightarrow> Suc n))"
  using assms(2)
proof (induction as)
  case Nil
  then show ?case using assms(1) by (simp add: label_table_def NewAggregatedLabels_def labels_wf_def)
next
  case (Cons a as)
  have wf: "\<forall>x \<in> set as. gm_wf (aggLabels x)" "gm_wf (aggLabels a)" "labels_wf as"
    "map_of (aggLabels a) \<notin> fst ` set (label_table as)"
    using Cons.prems by (auto simp: labels_wf_def label_table_def image_image)
  have eq: "gm_equal l (aggLabels a) \<longleftrightarrow> map_of l = map_of (aggLabels a)"
    using assms(1) wf(2) by (rule gm_equal_iff)
  show ?case
  proof (cases "map_of l = map_of (aggLabels a)")
    case True
    with eq Cons.prems show ?thesis by (auto simp: labels_wf_def label_table_def fun_eq_iff)
  next
    case False
    have "map_of (aggLabels a) \<notin> fst ` set (label_table (bump_labels l as))"
      using bump_labels_keys [OF assms(1) wf(1)] wf(4) False by simp
    then have "labels_wf (a # bump_labels l as)"
      using Cons.IH [OF wf(3)] wf(2) by (simp add: labels_wf_def label_table_def image_image)
    with False eq Cons.IH [OF wf(3)] show ?thesis
      by (auto simp: label_table_def fun_eq_iff)
  qed
qed

lemma processLabels_table:
  "labels_wf (processLabels ups)
     \<and> map_of (label_table (processLabels ups)) =
         (\<lambda>k. let n = length (filter (\<lambda>u. label_key u = Some k) ups) in if n = 0 then None else Some n)"
proof -
  let ?f = "\<lambda>u acc. case upLabels u of None \<Rightarrow> acc
     | Some l \<Rightarrow> (let ls = GetAllLabels l in if ls = [] then acc else bump_labels ls acc)"
  have step: "labels_wf (?f u as)
      \<and> map_of (label_table (?f u as)) = (case label_key u of
          None \<Rightarrow> map_of (label_table as)
        | Some k \<Rightarrow> (map_of (label_table as))(k \<mapsto>
            (case map_of (label_table as) k of None \<Rightarrow> 1 | Some n \<Rightarrow> Suc n)))" if "labels_wf as" for u as
    using bump_labels_table [OF gm_wf_GetAllLabels that] that
    by (auto simp: label_key_def Let_def split: option.split)
  have "labels_wf (fold ?f (rev ups) [])
     \<and> map_of (label_table (fold ?f (rev ups) [])) =
         (\<lambda>k. let n = length (filter (\<lambda>u. label_key u = Some k) ups) in if n = 0 then None else Some n)"
    for ups
  proof (induction ups)
    case Nil
    then show ?case by (simp add: labels_wf_def label_table_def)
  next
    case (Cons u ups)
    then show ?case
      using step [of "fold ?f (rev ups) []" u]
      by (simp add: fun_eq_iff Let_def split: option.split)
  qed
  from this [of "rev ups"] show ?thesis by (simp add: processLabels_def rev_filter [symmetric])
qed

lemma CompareAggregatedLabels_table:
  assumes "labels_wf a" "labels_wf b"
  shows "CompareAggregatedLabels a b \<longleftrightarrow> map_of (label_table a) = map_of (label_table b)"
proof -
  have eq: "AggregatedLabels_Equals y x \<longleftrightarrow> Amount y = Amount x \<and> map_of (aggLabels y) = map_of (aggLabels x)"
    if "x \<in> set a" "y \<in> set b" for x y
    using that assms gm_equal_iff [of "aggLabels y" "aggLabels x"]
    by (simp add: AggregatedLabels_Equals_def labels_wf_def)
  have ex: "(\<exists>y \<in> set b. AggregatedLabels_Equals y x) \<longleftrightarrow>
      map_of (label_table b) (map_of (aggLabels x)) = Some (Amount x)" if "x \<in> set a" for x
  proof -
    have "(\<exists>y \<in> set b. AggregatedLabels_Equals y x) \<longleftrightarrow>
        (\<exists>y \<in> set b. Amount y = Amount x \<and> map_of (aggLabels y) = map_of (aggLabels x))"
      by (rule bex_cong) (simp_all add: eq that)
    also have "\<dots> \<longleftrightarrow> (map_of (aggLabels x), Amount x) \<in> set (label_table b)"
      unfolding label_table_def set_map image_iff prod.inject by (intro bex_cong) auto
    also have "\<dots> \<longleftrightarrow> map_of (label_table b) (map_of (aggLabels x)) = Some (Amount x)"
      using assms(2) by (intro gm_ran_wf) (simp add: labels_wf_def)
    finally show ?thesis .
  qed
  have "CompareAggregatedLabels a b \<longleftrightarrow> length a = length b
      \<and> (\<forall>x \<in> set a. map_of (label_table b) (map_of (aggLabels x)) = Some (Amount x))"
    by (simp add: CompareAggregatedLabels_def list_all_iff list_ex_iff ex cong: ball_cong)
  also have "\<dots> \<longleftrightarrow> gm_equal (label_table a) (label_table b)"
    by (simp add: gm_equal_def label_table_def)
  also have "\<dots> \<longleftrightarrow> map_of (label_table a) = map_of (label_table b)"
    using assms by (intro gm_equal_iff) (simp_all add: labels_wf_def)
  finally show ?thesis .
qed

section \<open>The chain state is the merge of its upstreams\<close>

text \<open>\<open>merged_of env ups s\<close>: \<open>s\<close> shows the least status of the upstreams \<open>ups\<close>, and, over the available
  ones, the union of their methods and capabilities, per block type the highest block, per bound type
  the least bound, and per label map the number of upstreams that carry it. No iteration order is
  involved.\<close>

abbreviation available_in :: "(string \<rightharpoonup> UpstreamState) \<Rightarrow> UpstreamState set" where
  "available_in ups \<equiv> {u \<in> ran ups. Status u = Available}"

definition merged_of :: "chain_env \<Rightarrow> (string \<rightharpoonup> UpstreamState) \<Rightarrow> ChainSupervisorState \<Rightarrow> bool" where
  "merged_of env ups s \<longleftrightarrow>
     csStatus s = Min (insert Unavailable (Status ` ran ups))
   \<and> (\<forall>n. HasMethod (csMethods s) n \<longleftrightarrow> (\<exists>u \<in> available_in ups. \<exists>m. upMethods u = Some m \<and> HasMethod m n))
   \<and> (\<forall>t. highest_block (\<Union>u \<in> available_in ups. set (blocks_of u)) t (map_of (csBlocks s) t))
   \<and> (\<forall>t. least_bound (\<Union>u \<in> available_in ups. set (bounds_of u)) t (map_of (csLowerBounds s) t))
   \<and> csCaps s = (\<Union>u \<in> available_in ups. case Caps u of None \<Rightarrow> {} | Some c \<Rightarrow> c)
   \<and> csSubMethods s = processSubMethods (subChainMethods env) (csCaps s)
   \<and> labels_wf (csLabels s)
   \<and> map_of (label_table (csLabels s)) =
       (\<lambda>k. let n = card {i. \<exists>u. ups i = Some u \<and> Status u = Available \<and> label_key u = Some k}
            in if n = 0 then None else Some n)"

lemma length_filter_values:
  assumes "gm_wf m"
  shows "length (filter P (map snd m)) = card {i. \<exists>u. map_of m i = Some u \<and> P u}"
proof -
  have "length (filter P (map snd m)) = length (map fst (filter (P \<circ> snd) m))"
    by (simp add: filter_map)
  also have "\<dots> = card (set (map fst (filter (P \<circ> snd) m)))"
    using assms by (intro distinct_card [symmetric] distinct_map_filter)
  also have "set (map fst (filter (P \<circ> snd) m)) = {i. \<exists>u. map_of m i = Some u \<and> P u}"
    using gm_ran_wf [OF assms] by force
  finally show ?thesis .
qed

lemma merged_state_merged_of:
  assumes "chain_orders_ok ro" "gm_wf (upstreamStates b)" "merged_state ro env b = Some s"
  shows "merged_of env (map_of (upstreamStates b)) s"
proof -
  let ?ups = "availableUpstreams (ro_avail ro) b" and ?m = "map_of (upstreamStates b)"
  have ro: "range_order (ro_avail ro)" "range_order (ro_stat ro)" using assms(1) by (simp_all add: chain_orders_ok_def)
  have set: "set ?ups = available_in ?m" by (rule availableUpstreams_set [OF ro(1) assms(2)])
  have count: "length (filter (\<lambda>u. label_key u = Some k) ?ups) =
      card {i. \<exists>u. ?m i = Some u \<and> Status u = Available \<and> label_key u = Some k}" for k
  proof -
    have "filter (\<lambda>u. label_key u = Some k) ?ups =
        filter (\<lambda>u. Status u = Available \<and> label_key u = Some k) (map snd (ro_avail ro (upstreamStates b)))"
      by (simp add: availableUpstreams_def filter_map comp_def case_prod_unfold conj_commute)
    then show ?thesis
      using length_filter_values [of "ro_avail ro (upstreamStates b)"] ro(1) assms(2)
      by (simp add: range_order_wf range_order_map_of)
  qed
  from assms(3) obtain ms where ms: "processUpstreamMethods ?ups = Some ms"
    and s: "s = (chState b)\<lparr>csStatus := processUpstreamStatuses (ro_stat ro) b, csMethods := ms,
          csBlocks := processUpstreamBlocks ?ups, csLowerBounds := processLowerBounds ?ups,
          csLabels := processLabels ?ups, csCaps := processCaps ?ups,
          csSubMethods := processSubMethods (subChainMethods env) (processCaps ?ups)\<rparr>"
    by (auto simp: merged_state_def Let_def)
  show ?thesis
    unfolding merged_of_def s
    using processUpstreamStatuses_Min [OF ro(2) assms(2)] processUpstreamMethods_HasMethod [OF ms]
      processUpstreamBlocks_highest [of ?ups] processLowerBounds_least [of ?ups]
      processLabels_table [of ?ups] processCaps_union [of ?ups]
    by (simp add: set count)
qed

text \<open>The head of an upstream plays no part in the merge.\<close>

definition forget_head :: "UpstreamState \<Rightarrow> UpstreamState" where
  "forget_head u = u\<lparr>HeadData := ZeroBlock\<rparr>"

lemma forget_head_simps [simp]:
  "Status (forget_head u) = Status u" "upMethods (forget_head u) = upMethods u"
  "blocks_of (forget_head u) = blocks_of u" "bounds_of (forget_head u) = bounds_of u"
  "Caps (forget_head u) = Caps u" "label_key (forget_head u) = label_key u"
  "forget_head (u\<lparr>HeadData := h\<rparr>) = forget_head u"
  by (simp_all add: forget_head_def blocks_of_def bounds_of_def label_key_def)

lemma merged_of_forget: "merged_of env ups s \<longleftrightarrow> merged_of env (map_option forget_head \<circ> ups) s"
proof -
  have ran: "ran (map_option forget_head \<circ> ups) = forget_head ` ran ups"
    unfolding comp_def by (rule ran_map_option)
  have av: "available_in (map_option forget_head \<circ> ups) = forget_head ` available_in ups"
    unfolding ran by auto
  have ids: "{i. \<exists>u. (map_option forget_head \<circ> ups) i = Some u \<and> Status u = Available \<and> label_key u = Some k} =
      {i. \<exists>u. ups i = Some u \<and> Status u = Available \<and> label_key u = Some k}" for k by auto
  show ?thesis
    unfolding merged_of_def av ids unfolding ran UN_simps(10) bex_simps(7) image_image by simp
qed

lemma merged_of_head:
  assumes "ups i = Some u"
  shows "merged_of env (ups(i \<mapsto> u\<lparr>HeadData := h\<rparr>)) s \<longleftrightarrow> merged_of env ups s"
proof -
  have "map_option forget_head \<circ> ups(i \<mapsto> u\<lparr>HeadData := h\<rparr>) = map_option forget_head \<circ> ups"
    using assms by (auto simp: fun_eq_iff)
  then show ?thesis by (metis merged_of_forget)
qed

lemma merged_of_csHeadData [simp]: "merged_of env ups (s\<lparr>csHeadData := x\<rparr>) \<longleftrightarrow> merged_of env ups s"
  by (simp add: merged_of_def)

section \<open>What an event changes\<close>

lemma lag_one_keeps:
  "chState (lag_one env x b) = chState b \<and> upstreamStates (lag_one env x b) = upstreamStates b
     \<and> fc (lag_one env x b) = fc b \<and> roundRobinIndex (lag_one env x b) = roundRobinIndex b"
  by (cases x) (simp add: lag_one_def Let_def split: option.split)

lemma calculateHeadLags_keeps [simp]:
  "chState (calculateHeadLags ro env b) = chState b"
  "upstreamStates (calculateHeadLags ro env b) = upstreamStates b"
  "fc (calculateHeadLags ro env b) = fc b"
proof -
  have "chState (fold (lag_one env) xs c) = chState c \<and> upstreamStates (fold (lag_one env) xs c) = upstreamStates c
      \<and> fc (fold (lag_one env) xs c) = fc c" for xs c
    by (induction xs arbitrary: c) (simp_all add: lag_one_keeps)
  then show "chState (calculateHeadLags ro env b) = chState b"
    "upstreamStates (calculateHeadLags ro env b) = upstreamStates b"
    "fc (calculateHeadLags ro env b) = fc b"
    by (simp_all add: calculateHeadLags_def)
qed

lemma updateHead_keeps [simp]: "upstreamStates (updateHead ro env i st h b) = upstreamStates b"
  by (simp add: updateHead_def Let_def case_prod_unfold)

lemma updateHead_merged [simp]:
  "merged_of env ups (chState (updateHead ro env' i st h b)) \<longleftrightarrow> merged_of env ups (chState b)"
  by (simp add: updateHead_def Let_def case_prod_unfold)

lemma calculateFinalizationLags_keeps:
  "calculateFinalizationLags ro env b = Some b' \<Longrightarrow>
     chState b' = chState b \<and> upstreamStates b' = upstreamStates b \<and> fc b' = fc b \<and> lastOver b' = lastOver b"
  by (auto simp: calculateFinalizationLags_def split: if_splits)

lemma updateState_result:
  assumes "updateState ro env b = Some b'"
  shows "merged_state ro env b = Some (chState b') \<and> upstreamStates b' = upstreamStates b \<and> fc b' = fc b
     \<and> lastOver b' = lastOver b \<and> csHeadData (chState b') = csHeadData (chState b)"
  using assms
  by (auto simp: updateState_def merged_state_def Let_def split: option.splits if_splits
      dest!: calculateFinalizationLags_keeps)

definition chain_inv :: "chain_env \<Rightarrow> chain_sup \<Rightarrow> bool" where
  "chain_inv env b \<longleftrightarrow> gm_wf (upstreamStates b)
     \<and> (upstreamStates b \<noteq> [] \<longrightarrow> merged_of env (map_of (upstreamStates b)) (chState b))"

lemma updateState_merged:
  assumes "updateState ro env b = Some b'" "chain_orders_ok ro" "gm_wf (upstreamStates b)"
  shows "gm_wf (upstreamStates b') \<and> merged_of env (map_of (upstreamStates b')) (chState b')"
  using updateState_result [OF assms(1)] merged_state_merged_of [OF assms(2,3)] assms(3) by auto

lemma chain_inv_step:
  assumes "chain_orders_ok ro" "chain_inv env b" "handle_event ro env i ev b = Some b'"
  shows "chain_inv env b'"
proof (cases ev)
  case (StateUpstreamEvent s)
  with assms show ?thesis
    using updateState_merged [of ro env "b\<lparr>upstreamStates := AList.update i s (upstreamStates b)\<rparr>" b']
    by (simp add: handle_event_def chain_inv_def)
next
  case (HeadUpstreamEvent st h)
  show ?thesis
  proof (cases "map_of (upstreamStates b) i")
    case None
    with HeadUpstreamEvent assms show ?thesis by (auto simp: handle_event_def chain_inv_def)
  next
    case (Some u)
    then have "upstreamStates b \<noteq> []" by auto
    with Some HeadUpstreamEvent assms merged_of_head [where ups = "map_of (upstreamStates b)", OF Some] show ?thesis
      by (auto simp: handle_event_def chain_inv_def)
  qed
next
  case RemoveUpstreamEvent
  with assms show ?thesis
    using updateState_merged [OF _ assms(1), of env "b\<lparr>upstreamStates := AList.delete i (upstreamStates b),
      lastOver := AList.delete i (lastOver b)\<rparr>"]
    by (auto simp: handle_event_def chain_inv_def split: option.splits)
next
  case (ValidUpstreamEvent s)
  with assms show ?thesis
    using updateState_merged [OF _ assms(1), of env "b\<lparr>upstreamStates := AList.update i s (upstreamStates b)\<rparr>"]
    by (auto simp: handle_event_def chain_inv_def split: if_splits)
qed

lemma handle_events_invariant:
  assumes "handle_events env es b = Some b'" and "I b"
    and "\<And>ro i ev a c. (ro, i, ev) \<in> set es \<Longrightarrow> handle_event ro env i ev a = Some c \<Longrightarrow> I a \<Longrightarrow> I c"
  shows "I b'"
  using assms
proof (induction es arbitrary: b)
  case (Cons e es)
  obtain ro i ev where e: "e = (ro, i, ev)" by (cases e)
  with Cons.prems(1) obtain c where c: "handle_event ro env i ev b = Some c" "handle_events env es c = Some b'"
    by (auto simp: bind_eq_Some_conv)
  have "I c" using Cons.prems(3) [of ro i ev b c] c(1) Cons.prems(2) e by simp
  with Cons.IH [OF c(2)] Cons.prems(3) show ?case by (metis list.set_intros(2))
qed simp

section \<open>The head of the chain\<close>

definition head_inv :: "chain_sup \<Rightarrow> bool" where
  "head_inv b \<longleftrightarrow> fc_inv (fc b) \<and> chHead (csHeadData (chState b)) = fcMax (fc b)"

lemma updateHead_head_inv:
  assumes "chain_orders_ok ro" "head_inv b" "\<not> IsEmptyByHeight h"
  shows "head_inv (updateHead ro env i st h b)"
  using assms height_fc.keeps_inv [of "fc b" "ro_heads ro" i st h]
    height_fc.returns_max [of "ro_heads ro" i st h "fc b"] height_fc.unchanged [of "ro_heads ro" i st h "fc b"]
  by (auto simp: head_inv_def updateHead_def Let_def case_prod_unfold chain_orders_ok_def NewChainHeadData_def)

lemma updateState_head_inv:
  assumes "updateState ro env b = Some b'" "fc b = fc c" "chState b = chState c" "head_inv c"
  shows "head_inv b'"
  using updateState_result [OF assms(1)] assms by (simp add: head_inv_def)

text \<open>An event that names a head: a head event with a block, or the removal of an upstream whose head
  is known.\<close>

definition names_head :: "chain_sup \<Rightarrow> string \<Rightarrow> UpstreamEventType \<Rightarrow> bool" where
  "names_head b i ev \<longleftrightarrow>
     (case ev of
        HeadUpstreamEvent st h \<Rightarrow> \<not> IsEmptyByHeight h
      | RemoveUpstreamEvent \<Rightarrow>
          (case map_of (upstreamStates b) i of None \<Rightarrow> True | Some u \<Rightarrow> \<not> IsEmptyByHeight (HeadData u))
      | _ \<Rightarrow> True)"

fun heads_known :: "chain_env \<Rightarrow> (chain_orders \<times> string \<times> UpstreamEventType) list \<Rightarrow> chain_sup \<Rightarrow> bool" where
  "heads_known env [] b \<longleftrightarrow> True"
| "heads_known env ((ro, i, ev) # es) b \<longleftrightarrow> names_head b i ev \<and>
     (case handle_event ro env i ev b of None \<Rightarrow> True | Some b' \<Rightarrow> heads_known env es b')"

lemma head_inv_update [simp]:
  "head_inv (b\<lparr>upstreamStates := x\<rparr>) = head_inv b" "head_inv (b\<lparr>upstreamStates := x, lastOver := y\<rparr>) = head_inv b"
  by (simp_all add: head_inv_def)

lemma head_inv_step:
  assumes "chain_orders_ok ro" "head_inv b" "names_head b i ev" "handle_event ro env i ev b = Some b'"
  shows "head_inv b'"
proof (cases ev)
  case (StateUpstreamEvent s)
  with assms(4) have "updateState ro env (b\<lparr>upstreamStates := AList.update i s (upstreamStates b)\<rparr>) = Some b'"
    by (simp add: handle_event_def)
  then show ?thesis by (rule updateState_head_inv [of _ _ _ _ b]) (simp_all add: assms(2))
next
  case (HeadUpstreamEvent st h)
  with assms show ?thesis
    by (auto simp: handle_event_def names_head_def split: option.splits intro!: updateHead_head_inv)
next
  case RemoveUpstreamEvent
  show ?thesis
  proof (cases "map_of (upstreamStates b) i")
    case None
    with RemoveUpstreamEvent assms show ?thesis by (simp add: handle_event_def)
  next
    case (Some u)
    with RemoveUpstreamEvent assms obtain c where
      c: "updateState ro env (b\<lparr>upstreamStates := AList.delete i (upstreamStates b),
            lastOver := AList.delete i (lastOver b)\<rparr>) = Some c"
      "b' = updateHead ro env i Unavailable (HeadData u) c" by (auto simp: handle_event_def Let_def)
    have "head_inv c" by (rule updateState_head_inv [OF c(1), of b]) (simp_all add: assms(2))
    with c Some RemoveUpstreamEvent assms show ?thesis by (simp add: names_head_def updateHead_head_inv)
  qed
next
  case (ValidUpstreamEvent s)
  with assms obtain c where
    c: "updateState ro env (b\<lparr>upstreamStates := AList.update i s (upstreamStates b)\<rparr>) = Some c"
    "b' = (if \<not> IsEmptyByHeight (HeadData s) then updateHead ro env i (Status s) (HeadData s) c else c)"
    by (auto simp: handle_event_def)
  have "head_inv c" by (rule updateState_head_inv [OF c(1), of b]) (simp_all add: assms(2))
  with c assms show ?thesis by (simp add: updateHead_head_inv)
qed

lemma head_inv_run:
  assumes "handle_events env es b = Some b'" "heads_known env es b" "head_inv b"
    and "\<forall>(ro, i, ev) \<in> set es. chain_orders_ok ro"
  shows "head_inv b'"
  using assms
proof (induction es arbitrary: b)
  case (Cons e es)
  obtain ro i ev where e: "e = (ro, i, ev)" by (cases e)
  with Cons.prems(1) obtain c where c: "handle_event ro env i ev b = Some c" "handle_events env es c = Some b'"
    by (auto simp: bind_eq_Some_conv)
  from Cons.prems e c have "head_inv c" by (intro head_inv_step [OF _ Cons.prems(3) _ c(1)]) simp_all
  with Cons.IH [OF c(2)] Cons.prems e c show ?case by simp
qed simp

lemma head_inv_New: "head_inv NewGenericChainSupervisor"
  using fc_inv_New(1)
  by (simp add: head_inv_def NewGenericChainSupervisor_def NewChainHeadData_def NewHeightForkChoice_def)

section \<open>Head lags\<close>

text \<open>\<open>calls_for i\<close> are the lags pushed to upstream \<open>i\<close>, newest first; \<open>over_now\<close> reads \<open>lastOver\<close> the way
  Go reads a map of booleans.\<close>

definition calls_for :: "string \<Rightarrow> chain_output list \<Rightarrow> i64 list" where
  "calls_for i outs =
     concat (map (\<lambda>x. case x of CallUpdateHeadLag j n \<Rightarrow> if j = i then [n] else [] | _ \<Rightarrow> []) outs)"

definition over_now :: "chain_sup \<Rightarrow> string \<Rightarrow> bool" where
  "over_now b i = (case map_of (lastOver b) i of None \<Rightarrow> False | Some x \<Rightarrow> x)"

definition lag_checked :: "chain_env \<Rightarrow> string \<Rightarrow> bool" where
  "lag_checked env i \<longleftrightarrow> validateLag env \<and> (case getUpstream env of None \<Rightarrow> False | Some known \<Rightarrow> known i)"

definition exceeds :: "chain_env \<Rightarrow> chain_sup \<Rightarrow> UpstreamState \<Rightarrow> bool" where
  "exceeds env b u = LagExceeds (int64 (headLagOf (chState b) u)) (syncingLag env)"

lemma lag_one_other:
  "i \<noteq> j \<Longrightarrow> over_now (lag_one env (j, v) b) i = over_now b i
     \<and> calls_for i (outputs (lag_one env (j, v) b)) = calls_for i (outputs b)"
  by (simp add: lag_one_def over_now_def calls_for_def Let_def split: option.split)

lemma lag_one_same:
  assumes "lag_checked env i"
  shows "over_now (lag_one env (i, u) b) i = exceeds env b u
     \<and> calls_for i (outputs (lag_one env (i, u) b)) =
         (if over_now b i \<noteq> exceeds env b u then [int64 (headLagOf (chState b) u)] else [])
         @ calls_for i (outputs b)"
  using assms
  by (auto simp: lag_one_def over_now_def calls_for_def lag_checked_def exceeds_def Let_def split: option.splits)

lemma exceeds_lag_one [simp]: "exceeds env (lag_one env x b) u = exceeds env b u"
  "headLagOf (chState (lag_one env x b)) u = headLagOf (chState b) u"
  using lag_one_keeps [of env x b] by (simp_all add: exceeds_def)

lemma lag_fold_other:
  "i \<notin> fst ` set xs \<Longrightarrow> over_now (fold (lag_one env) xs b) i = over_now b i
     \<and> calls_for i (outputs (fold (lag_one env) xs b)) = calls_for i (outputs b)"
proof (induction xs arbitrary: b)
  case (Cons x xs)
  then show ?case using lag_one_other [of i "fst x" env "snd x" b] by (cases x) simp
qed simp

lemma lag_fold_same:
  assumes "gm_wf xs" "(i, u) \<in> set xs" "lag_checked env i"
  shows "over_now (fold (lag_one env) xs b) i = exceeds env b u
     \<and> calls_for i (outputs (fold (lag_one env) xs b)) =
         (if over_now b i \<noteq> exceeds env b u then [int64 (headLagOf (chState b) u)] else [])
         @ calls_for i (outputs b)"
  using assms(1,2)
proof (induction xs arbitrary: b)
  case (Cons x xs)
  obtain j v where x: "x = (j, v)" by (cases x)
  show ?case
  proof (cases "i = j")
    case True
    have ni: "i \<notin> fst ` set xs" using Cons.prems(1) True x by simp
    then have "(i, u) \<notin> set xs" by (metis fst_conv image_eqI)
    then have "u = v" using Cons.prems(2) x by simp
    with ni show ?thesis
      using lag_fold_other [of i xs env "lag_one env (i, u) b"] lag_one_same [OF assms(3)] True x by simp
  next
    case False
    with Cons.prems x have "(i, u) \<in> set xs" "gm_wf xs" by auto
    from Cons.IH [OF this(2,1), of "lag_one env (j, v) b"] lag_one_other [OF False] show ?thesis by (simp add: x)
  qed
qed simp

section \<open>Properties\<close>

text \<open>\<^bold>\<open>C5\<close>. After any sequence of upstream events, in any iteration orders, as long as the chain has upstreams its
  published state is the merge of the upstream states it holds: status, methods, blocks, lower bounds,
  labels, capabilities and subscription methods.\<close>

theorem chain_state_is_merge_of_upstreams:
  assumes "handle_events env es NewGenericChainSupervisor = Some b"
    and "\<forall>(ro, i, ev) \<in> set es. chain_orders_ok ro" and "upstreamStates b \<noteq> []"
  shows "merged_of env (map_of (upstreamStates b)) (chState b)"
proof -
  have "chain_inv env NewGenericChainSupervisor"
    by (simp add: chain_inv_def NewGenericChainSupervisor_def)
  with assms(1) have "chain_inv env b"
    by (rule handle_events_invariant) (use assms(2) chain_inv_step in fast)
  with assms(3) show ?thesis by (simp add: chain_inv_def)
qed

text \<open>\<^bold>\<open>C33\<close>. As long as every head event carries a block and no upstream is removed before its head is known, the
  head of the chain is the fork choice's merged head, whose height is the greatest among the live
  upstreams' heads.\<close>

theorem chain_head_follows_fork_choice:
  assumes "handle_events env es NewGenericChainSupervisor = Some b"
    and "heads_known env es NewGenericChainSupervisor"
    and "\<forall>(ro, i, ev) \<in> set es. chain_orders_ok ro"
  shows "chHead (csHeadData (chState b)) = fcMax (fc b)
     \<and> Height (chHead (csHeadData (chState b))) = head_height (fc_live (fc b))"
  using head_inv_run [OF assms(1,2) head_inv_New assms(3)] height_fc.max_height
  by (auto simp: head_inv_def)

text \<open>Lag updates are pushed to an upstream exactly when its head lag crosses the syncing threshold, with the
  lag of that moment, and the supervisor then remembers on which side of the threshold it is.\<close>

theorem lag_pushed_only_at_crossings:
  assumes "range_order (ro_lag ro)" "gm_wf (upstreamStates b)" "map_of (upstreamStates b) i = Some u"
    and "lag_checked env i"
  shows "over_now (calculateHeadLags ro env b) i = exceeds env b u
     \<and> calls_for i (outputs (calculateHeadLags ro env b)) =
         (if over_now b i \<noteq> exceeds env b u then [int64 (headLagOf (chState b) u)] else [])
         @ calls_for i (outputs b)"
proof -
  have "gm_wf (ro_lag ro (upstreamStates b))" using assms(1,2) by (simp add: range_order_wf)
  moreover have "(i, u) \<in> set (ro_lag ro (upstreamStates b))"
    using assms(1,3) by (simp add: range_order_set map_of_SomeD)
  ultimately show ?thesis
    using lag_fold_same [OF _ _ assms(4)] by (simp only: calculateHeadLags_def)
qed

text \<open>The ids a strategy sees are sorted, without duplicates, exactly the upstreams the chain holds, and the
  same list whatever order the table was iterated in.\<close>

theorem upstream_ids_sorted_and_stable:
  assumes "range_order ro" "range_order ro'" "gm_wf (upstreamStates b)"
  shows "sorted (GetUpstreamIds ro b) \<and> distinct (GetUpstreamIds ro b)
     \<and> set (GetUpstreamIds ro b) = dom (map_of (upstreamStates b))
     \<and> GetUpstreamIds ro' b = GetUpstreamIds ro b"
proof -
  have mset: "mset (map fst (r (upstreamStates b))) = mset (map fst (upstreamStates b))" if "range_order r" for r
    using that by (simp add: range_order_def)
  have "distinct (map fst (ro (upstreamStates b)))" using assms by (simp add: range_order_wf)
  moreover have "sort (map fst (ro' (upstreamStates b))) = sort (map fst (ro (upstreamStates b)))"
    using mset [OF assms(1)] mset [OF assms(2)] by (intro properties_for_sort) simp_all
  ultimately show ?thesis
    using range_order_set [OF assms(1), of "upstreamStates b"]
    by (simp add: GetUpstreamIds_def dom_map_of_conv_image_fst)
qed

text \<open>Labels are compared as what they count: two aggregations of upstream lists are reported equal exactly
  when every label map is carried by the same number of upstreams in both.\<close>

theorem label_comparison_counts_upstreams:
  "CompareAggregatedLabels (processLabels us) (processLabels vs) \<longleftrightarrow>
     (\<forall>k. length (filter (\<lambda>u. label_key u = Some k) us) = length (filter (\<lambda>u. label_key u = Some k) vs))"
proof -
  have "(if m = 0 then None else Some m) = (if n = 0 then None else Some n) \<longleftrightarrow> m = n" for m n :: nat by auto
  then show ?thesis
    using CompareAggregatedLabels_table [of "processLabels us" "processLabels vs"]
      processLabels_table [of us] processLabels_table [of vs]
    by (simp only: fun_eq_iff Let_def)
qed

section \<open>Concrete runs\<close>

definition plain_orders :: chain_orders where
  "plain_orders = \<lparr>ro_heads = id, ro_avail = id, ro_stat = id, ro_fin = id, ro_lag = id\<rparr>"

definition sample_chain_env :: chain_env where
  "sample_chain_env = \<lparr>subChainMethods = {}, validateLag = True, syncingLag = 10, hasTracker = False,
     getUpstream = Some (\<lambda>i. True)\<rparr>"

definition fresh_upstream :: UpstreamState where
  "fresh_upstream = DefaultUpstreamState (Some (UpstreamMethods [] {''eth_call''})) (Some {WsCap}) ''00001'' None None"

definition sample_chain_run :: "(chain_orders \<times> string \<times> UpstreamEventType) list" where
  "sample_chain_run =
     [(plain_orders, ''a'', StateUpstreamEvent fresh_upstream),
      (plain_orders, ''b'', StateUpstreamEvent fresh_upstream),
      (plain_orders, ''a'', HeadUpstreamEvent Available (NewBlockWithHeight 100)),
      (plain_orders, ''b'', HeadUpstreamEvent Available (NewBlockWithHeight 200))]"

lemma plain_orders_ok [simp]: "chain_orders_ok plain_orders"
  by (simp add: chain_orders_ok_def plain_orders_def)

definition after :: "(chain_orders \<times> string \<times> UpstreamEventType) list \<Rightarrow> chain_sup" where
  "after es = (case handle_events sample_chain_env es NewGenericChainSupervisor of
     None \<Rightarrow> NewGenericChainSupervisor | Some b \<Rightarrow> b)"

lemma sample_chain_runs:
  "handle_events sample_chain_env sample_chain_run NewGenericChainSupervisor = Some (after sample_chain_run)"
proof -
  have "handle_events sample_chain_env sample_chain_run NewGenericChainSupervisor \<noteq> None" by code_simp
  then show ?thesis by (auto simp: after_def)
qed

lemma sample_chain_orders: "\<forall>(ro, i, ev) \<in> set sample_chain_run. chain_orders_ok ro"
  by (simp add: sample_chain_run_def)

theorem chain_state_is_merge_of_upstreams_witness:
  "merged_of sample_chain_env (map_of (upstreamStates (after sample_chain_run))) (chState (after sample_chain_run))"
proof -
  have "upstreamStates (after sample_chain_run) \<noteq> []" by code_simp
  with sample_chain_runs sample_chain_orders show ?thesis by (rule chain_state_is_merge_of_upstreams)
qed

theorem chain_head_follows_fork_choice_witness:
  "chHead (csHeadData (chState (after sample_chain_run))) = fcMax (fc (after sample_chain_run))
     \<and> Height (chHead (csHeadData (chState (after sample_chain_run)))) = 200"
proof -
  have known: "heads_known sample_chain_env sample_chain_run NewGenericChainSupervisor" by code_simp
  have "Height (fcMax (fc (after sample_chain_run))) = 200" by code_simp
  with chain_head_follows_fork_choice [OF sample_chain_runs known sample_chain_orders] show ?thesis by simp
qed

theorem lag_pushed_only_at_crossings_witness:
  "calls_for ''a'' (outputs (calculateHeadLags plain_orders sample_chain_env
      ((after sample_chain_run)\<lparr>lastOver := []\<rparr>))) = [100, 100]"
proof -
  let ?b = "(after sample_chain_run)\<lparr>lastOver := []\<rparr>"
  have "case map_of (upstreamStates ?b) ''a'' of None \<Rightarrow> False
      | Some u \<Rightarrow> exceeds sample_chain_env ?b u \<and> int64 (headLagOf (chState ?b) u) = 100"
    by code_simp
  then obtain u where u: "map_of (upstreamStates ?b) ''a'' = Some u" "exceeds sample_chain_env ?b u"
    "int64 (headLagOf (chState ?b) u) = 100"
    by (auto split: option.splits)
  have b: "gm_wf (upstreamStates ?b)" "calls_for ''a'' (outputs ?b) = [100]" "\<not> over_now ?b ''a''"
    by code_simp+
  have env: "range_order (ro_lag plain_orders)" "lag_checked sample_chain_env ''a''"
    by (simp_all add: plain_orders_def lag_checked_def sample_chain_env_def)
  show ?thesis
    using lag_pushed_only_at_crossings [OF env(1) b(1) u(1) env(2)] b(2,3) u(2,3) by simp
qed

theorem upstream_ids_sorted_and_stable_witness: "GetUpstreamIds rev (after sample_chain_run) = [''a'', ''b'']"
proof -
  have "gm_wf (upstreamStates (after sample_chain_run))"
    "GetUpstreamIds id (after sample_chain_run) = [''a'', ''b'']" by code_simp+
  with upstream_ids_sorted_and_stable [of id rev "after sample_chain_run"] show ?thesis by simp
qed


text \<open>A lagging upstream that is removed and comes back can be left in syncing although it has no lag: the
  last lag it was told is 100, its lag is 0, and the supervisor believes there is nothing to tell.\<close>

theorem readmitted_upstream_keeps_stale_lag:
  "\<exists>b u. handle_events sample_chain_env
       (sample_chain_run @
        [(plain_orders, ''a'', StateUpstreamEvent (fresh_upstream\<lparr>Status := Syncing, HeadData := NewBlockWithHeight 100\<rparr>)),
         (plain_orders, ''a'', RemoveUpstreamEvent),
         (plain_orders, ''b'', RemoveUpstreamEvent),
         (plain_orders, ''a'', ValidUpstreamEvent (fresh_upstream\<lparr>Status := Syncing, HeadData := NewBlockWithHeight 100\<rparr>))])
       NewGenericChainSupervisor = Some b
     \<and> map_of (upstreamStates b) ''a'' = Some u \<and> Status u = Syncing \<and> csStatus (chState b) = Syncing
     \<and> headLagOf (chState b) u = 0 \<and> calls_for ''a'' (outputs b) = [100] \<and> \<not> over_now b ''a''"
proof -
  have "case handle_events sample_chain_env
       (sample_chain_run @
        [(plain_orders, ''a'', StateUpstreamEvent (fresh_upstream\<lparr>Status := Syncing, HeadData := NewBlockWithHeight 100\<rparr>)),
         (plain_orders, ''a'', RemoveUpstreamEvent),
         (plain_orders, ''b'', RemoveUpstreamEvent),
         (plain_orders, ''a'', ValidUpstreamEvent (fresh_upstream\<lparr>Status := Syncing, HeadData := NewBlockWithHeight 100\<rparr>))])
       NewGenericChainSupervisor of
      None \<Rightarrow> False
    | Some b \<Rightarrow> (case map_of (upstreamStates b) ''a'' of None \<Rightarrow> False
        | Some u \<Rightarrow> Status u = Syncing \<and> csStatus (chState b) = Syncing \<and> headLagOf (chState b) u = 0)
        \<and> calls_for ''a'' (outputs b) = [100] \<and> \<not> over_now b ''a''"
    by code_simp
  then show ?thesis by (auto split: option.splits)
qed

end
