(* ===== verification/Matchers.thy ===== *)
theory Matchers
  imports Selectors ChainSupervisor
begin

text \<open>
  Upstream matching, \<open>internal/upstreams/flow\<close>: the matchers with their responses (\<open>matchers.go\<close>,
  \<open>match_trace.go\<close>), and the compilation of request selectors into matchers and an upstream order
  (\<open>selectors.go\<close>). Dereferencing a nil methods or capability set is a panic, the value \<open>None\<close> of \<open>Match\<close>.

  The compiled matcher of a selector accepts an upstream exactly when the selector's meaning
  \<open>sel_sat\<close> does, for selectors that say something under every \<open>or\<close> and \<open>not\<close>.
\<close>

section \<open>Responses\<close>

datatype MatchResponse =
    RateLimiterResponse
  | UpstreamIndexResponse string
  | SuccessResponse
  | MethodResponse string
  | AvailabilityResponse
  | LabelResponse string "string list"
  | ExistsResponse string
  | HeightResponse i64 i64
  | SlotHeightResponse i64 i64
  | LowerHeightResponse i64 i64 LowerBoundType
  | SelectorUnsupportedResponse string
  | NotMatchedResponse MatchResponse
  | MultiResponse "MatchResponse list"

definition MethodType :: nat where "MethodType = 0"
definition AvailabilityType :: nat where "AvailabilityType = 1"
definition RateLimiterType :: nat where "RateLimiterType = 2"
definition UpstreamIndexType :: nat where "UpstreamIndexType = 3"
definition SelectorType :: nat where "SelectorType = 4"
definition SuccessType :: nat where "SuccessType = 5"

lemmas response_types = MethodType_def AvailabilityType_def RateLimiterType_def UpstreamIndexType_def
  SelectorType_def SuccessType_def

fun resp_type :: "MatchResponse \<Rightarrow> nat" where
  "resp_type RateLimiterResponse = RateLimiterType"
| "resp_type (UpstreamIndexResponse _) = UpstreamIndexType"
| "resp_type SuccessResponse = SuccessType"
| "resp_type (MethodResponse _) = MethodType"
| "resp_type AvailabilityResponse = AvailabilityType"
| "resp_type _ = SelectorType"

lemma resp_type_Success [simp]: "resp_type r = SuccessType \<longleftrightarrow> r = SuccessResponse"
  by (cases r) (simp_all add: response_types)

lemma resp_type_le: "resp_type r \<le> SuccessType"
  by (cases r) (simp_all add: response_types)

fun flattenResponse :: "MatchResponse \<Rightarrow> MatchResponse list" where
  "flattenResponse (MultiResponse rs) = concat (map flattenResponse rs)"
| "flattenResponse r = [r]"

definition flattenResponses :: "MatchResponse list \<Rightarrow> MatchResponse list" where
  "flattenResponses rs = concat (map flattenResponse rs)"

definition joinCauses :: "string list \<Rightarrow> string" where
  "joinCauses parts = (case parts of [] \<Rightarrow> [] | p # ps \<Rightarrow> fold (\<lambda>q out. out @ ''; '' @ q) ps p)"

lemma flattenResponse_size: "x \<in> set (flattenResponse r) \<Longrightarrow> size x \<le> size r"
proof (induction r)
  case (MultiResponse rs)
  then obtain y where y: "y \<in> set rs" "x \<in> set (flattenResponse y)" by auto
  with MultiResponse.IH have "size x \<le> size y" by blast
  also have "size y \<le> size_list size rs" using y(1) by (rule size_list_estimation') simp
  finally show ?case by simp
qed simp_all

lemma flattenResponses_size:
  assumes "x \<in> set (flattenResponses rs)"
  shows "size x < size (MultiResponse rs)"
proof -
  from assms obtain y where y: "y \<in> set rs" "x \<in> set (flattenResponse y)" by (auto simp: flattenResponses_def)
  have "size x \<le> size y" using y(2) by (rule flattenResponse_size)
  also have "size y \<le> size_list size rs" using y(1) by (rule size_list_estimation') simp
  finally show ?thesis by simp
qed

function Cause :: "MatchResponse \<Rightarrow> string" where
  "Cause RateLimiterResponse = ''too many requests''"
| "Cause (UpstreamIndexResponse i) = ''no upstream with index '' @ i"
| "Cause SuccessResponse = []"
| "Cause (MethodResponse m) = ''method '' @ m @ '' is not supported''"
| "Cause AvailabilityResponse = ''upstream is not available''"
| "Cause (LabelResponse n vs) =
     ''No label '' @ [CHR 0x60] @ n @ [CHR 0x60] @ '' with values ['' @ join '' '' vs @ '']''"
| "Cause (ExistsResponse n) = ''Label '' @ n @ '' does not exist''"
| "Cause (HeightResponse h cur) = ''Upstream height '' @ itoa cur @ '' is less than '' @ itoa h"
| "Cause (SlotHeightResponse s cur) = ''Upstream slot height '' @ itoa cur @ '' is less than '' @ itoa s"
| "Cause (LowerHeightResponse l p t) =
     (if p = 0 then ''Upstream lower height of type '' @ LowerBoundType_String t @ '' cannot be predicted''
      else ''Upstream lower height '' @ itoa p @ '' of type '' @ LowerBoundType_String t
        @ '' is greater than '' @ itoa l)"
| "Cause (SelectorUnsupportedResponse reason) = reason"
| "Cause (NotMatchedResponse r) = ''Not matched - '' @ Cause r"
| "Cause (MultiResponse rs) =
     joinCauses (map Cause (filter (\<lambda>r. resp_type r \<noteq> SuccessType) (flattenResponses rs)))"
  by pat_completeness auto

termination
  by (relation "measure size") (auto dest: flattenResponses_size)

section \<open>Matchers\<close>

datatype Matcher =
    StatusMatcher
  | MethodMatcher string
  | WsCapMatcher string
  | UpstreamIndexMatcher string
  | MultiMatcher "Matcher list"
  | LabelMatcher string "string list"
  | LabelExistsMatcher string
  | HeightMatcher i64
  | SlotHeightMatcher i64
  | LowerHeightMatcher i64 LowerBoundType i64 i64
  | SelectorAndMatcher "Matcher list"
  | SelectorOrMatcher "Matcher list"
  | SelectorNotMatcher Matcher
  | UnsupportedSelectorMatcher string

type_synonym predictor = "string \<Rightarrow> LowerBoundType \<Rightarrow> i64 \<Rightarrow> i64"

fun or_responses :: "MatchResponse option list \<Rightarrow> MatchResponse list \<Rightarrow> MatchResponse option" where
  "or_responses [] acc = Some (MultiResponse acc)"
| "or_responses (None # rs) acc = None"
| "or_responses (Some r # rs) acc =
     (if resp_type r = SuccessType then Some SuccessResponse else or_responses rs (acc @ [r]))"

definition multi_response :: "MatchResponse list \<Rightarrow> MatchResponse" where
  "multi_response rs = fold (\<lambda>m r. if resp_type m < resp_type r then m else r) rs SuccessResponse"

fun Match :: "predictor option \<Rightarrow> Matcher \<Rightarrow> string \<Rightarrow> UpstreamState option \<Rightarrow> MatchResponse option" where
  "Match pr StatusMatcher i st =
     map_option (\<lambda>s. if Status s = Available then SuccessResponse else AvailabilityResponse) st"
| "Match pr (MethodMatcher m) i st =
     Option.bind st (\<lambda>s. map_option (\<lambda>ms. if HasMethod ms m then SuccessResponse else MethodResponse m) (upMethods s))"
| "Match pr (WsCapMatcher m) i st =
     Option.bind st (\<lambda>s. map_option (\<lambda>c. if WsCap \<in> c then SuccessResponse else MethodResponse m) (Caps s))"
| "Match pr (UpstreamIndexMatcher x) i st =
     map_option (\<lambda>s. if UpstreamIndex s = x then SuccessResponse else UpstreamIndexResponse x) st"
| "Match pr (MultiMatcher ms) i st = map_option multi_response (those (map (\<lambda>m. Match pr m i st) ms))"
| "Match pr (LabelMatcher n vs) i st =
     Some (case Option.bind st upLabels of
        None \<Rightarrow> LabelResponse n vs
      | Some l \<Rightarrow>
          (case GetLabel l n of
             None \<Rightarrow> LabelResponse n vs
           | Some v \<Rightarrow>
               if vs = [] then SuccessResponse
               else if list_ex (\<lambda>e. v = e) vs then SuccessResponse else LabelResponse n vs))"
| "Match pr (LabelExistsMatcher n) i st =
     Some (case Option.bind st upLabels of
        None \<Rightarrow> ExistsResponse n
      | Some l \<Rightarrow> (case GetLabel l n of None \<Rightarrow> ExistsResponse n | Some _ \<Rightarrow> SuccessResponse))"
| "Match pr (HeightMatcher h) i st =
     (let cur = (case st of None \<Rightarrow> 0 | Some s \<Rightarrow> int64 (Height (HeadData s)))
      in Some (if cur \<ge> h then SuccessResponse else HeightResponse h cur))"
| "Match pr (SlotHeightMatcher h) i st =
     (let cur = (case st of None \<Rightarrow> 0 | Some s \<Rightarrow> int64 (Slot (HeadData s)))
      in Some (if cur \<ge> h then SuccessResponse else SlotHeightResponse h cur))"
| "Match pr (LowerHeightMatcher h t off d) i st =
     (let predicted = (case pr of None \<Rightarrow> 0 | Some f \<Rightarrow> f i t off)
      in Some (if predicted \<noteq> 0 \<and> h \<ge> wrap64 (predicted - d) then SuccessResponse
           else LowerHeightResponse h predicted t))"
| "Match pr (SelectorAndMatcher ms) i st =
     map_option (\<lambda>rs. let bad = filter (\<lambda>r. resp_type r \<noteq> SuccessType) rs
         in if bad = [] then SuccessResponse else MultiResponse bad)
       (those (map (\<lambda>m. Match pr m i st) ms))"
| "Match pr (SelectorOrMatcher ms) i st = or_responses (map (\<lambda>m. Match pr m i st) ms) []"
| "Match pr (SelectorNotMatcher m) i st =
     map_option (\<lambda>r. if resp_type r \<noteq> SuccessType then SuccessResponse else NotMatchedResponse r) (Match pr m i st)"
| "Match pr (UnsupportedSelectorMatcher reason) i st = Some (SelectorUnsupportedResponse reason)"

section \<open>The trace of a selection\<close>

type_synonym UpstreamsMatchTrace = "(string \<times> MatchResponse) list"

definition trace_Add :: "string \<Rightarrow> MatchResponse \<Rightarrow> UpstreamsMatchTrace \<Rightarrow> UpstreamsMatchTrace" where
  "trace_Add i r t = (if resp_type r = SuccessType then t else t @ [(i, r)])"

definition maxMatchTraceCauseLen :: nat where "maxMatchTraceCauseLen = 200"

definition trace_Cause :: "UpstreamsMatchTrace option \<Rightarrow> string" where
  "trace_Cause t =
     (case t of
        None \<Rightarrow> ''Response is empty''
      | Some rs \<Rightarrow>
          if rs = [] then ''Response is empty''
          else
            (let cause = join ''; '' (map (\<lambda>(i, r). i @ '' - '' @ Cause r) rs)
             in if length cause > maxMatchTraceCauseLen then take maxMatchTraceCauseLen cause else cause))"

section \<open>Compiling selectors\<close>

datatype sortSpec =
    SortHeadDesc | SortSafeDesc | SortFinalizedDesc | SortPredictedLowerBoundAsc LowerBoundType i64

fun sort_kind :: "sortSpec \<Rightarrow> int" where
  "sort_kind SortHeadDesc = 1"
| "sort_kind SortSafeDesc = 2"
| "sort_kind SortFinalizedDesc = 3"
| "sort_kind (SortPredictedLowerBoundAsc _ _) = 4"

type_synonym compiled = "Matcher option \<times> sortSpec option"

text \<open>The loop over the children of an \<open>and\<close>: matchers collected so far and the combined sort hint.\<close>

fun compile_and :: "compiled list \<Rightarrow> Matcher list \<Rightarrow> sortSpec option \<Rightarrow> compiled" where
  "compile_and [] ms srt = (Some (SelectorAndMatcher ms), srt)"
| "compile_and ((m, s) # cs) ms srt =
     (let ms = (case m of None \<Rightarrow> ms | Some x \<Rightarrow> ms @ [x])
      in case s of
           None \<Rightarrow> compile_and cs ms srt
         | Some spec \<Rightarrow>
             (case srt of
                Some old \<Rightarrow>
                  if old \<noteq> spec then
                    compile_and cs (ms @ [UnsupportedSelectorMatcher (''conflicting selector sort hints ''
                      @ itoa (sort_kind old) @ '' and '' @ itoa (sort_kind spec) @ '' are not supported'')]) srt
                  else compile_and cs ms (Some spec)
              | None \<Rightarrow> compile_and cs ms (Some spec)))"

fun compile_or :: "compiled list \<Rightarrow> Matcher list \<Rightarrow> compiled" where
  "compile_or [] ms = (Some (SelectorOrMatcher ms), None)"
| "compile_or ((m, s) # cs) ms =
     (if s \<noteq> None
      then (Some (UnsupportedSelectorMatcher ''sort-bearing selectors inside OR are not supported''), None)
      else compile_or cs (case m of None \<Rightarrow> ms | Some x \<Rightarrow> ms @ [x]))"

fun compileSelector :: "RequestSelector \<Rightarrow> compiled" where
  "compileSelector NilSelector = (None, None)"
| "compileSelector AnySelector = (None, None)"
| "compileSelector (LabelSelector n vs) = (Some (LabelMatcher n vs), None)"
| "compileSelector (ExistsSelector n) = (Some (LabelExistsMatcher n), None)"
| "compileSelector (AndSelector cs) = compile_and (map compileSelector cs) [] None"
| "compileSelector (OrSelector cs) = compile_or (map compileSelector cs) []"
| "compileSelector (NotSelector c) =
     (case compileSelector c of
        (_, Some _) \<Rightarrow>
          (Some (UnsupportedSelectorMatcher ''sort-bearing selectors inside NOT are not supported''), None)
      | (None, None) \<Rightarrow> (None, None)
      | (Some m, None) \<Rightarrow> (Some (SelectorNotMatcher m), None))"
| "compileSelector (HeightSelector h) = (Some (HeightMatcher h), None)"
| "compileSelector (BlockTagSelector t) =
     (if t = BlockTagLatest then (None, Some SortHeadDesc)
      else if t = BlockTagSafe then (None, Some SortSafeDesc)
      else if t = BlockTagFinalized then (None, Some SortFinalizedDesc)
      else (Some (UnsupportedSelectorMatcher ''unsupported block tag selector''), None))"
| "compileSelector (SlotHeightSelector h) = (Some (SlotHeightMatcher h), None)"
| "compileSelector (LowerHeightSelector h t off d) =
     (if h = 0 then (None, Some (SortPredictedLowerBoundAsc t off))
      else (Some (LowerHeightMatcher h t off d), None))"
| "compileSelector (UnsupportedSelector reason) = (Some (UnsupportedSelectorMatcher reason), None)"

text \<open>An upstream supervisor gives, for an upstream id, its lower-bound predictor; it may be nil, and so
  may the upstream.\<close>

type_synonym upstream_predictors = "string \<Rightarrow> (LowerBoundType \<Rightarrow> i64 \<Rightarrow> i64) option"

definition routing_predict :: "upstream_predictors option \<Rightarrow> predictor" where
  "routing_predict supv i t off =
     (case supv of None \<Rightarrow> 0 | Some f \<Rightarrow> (case f i of None \<Rightarrow> 0 | Some p \<Rightarrow> p t off))"

definition predictedLowerBoundOf ::
  "upstream_predictors option \<Rightarrow> string \<Rightarrow> LowerBoundType \<Rightarrow> i64 \<Rightarrow> i64" where
  "predictedLowerBoundOf supv i t off =
     (case supv of
        None \<Rightarrow> 2 ^ 62
      | Some f \<Rightarrow>
          (case f i of
             None \<Rightarrow> 2 ^ 62
           | Some p \<Rightarrow> (let v = p t off in if v = 0 then 2 ^ 62 else v)))"

definition heightOf :: "UpstreamState option \<Rightarrow> u64" where
  "heightOf s = (case s of None \<Rightarrow> 0 | Some u \<Rightarrow> Height (HeadData u))"

definition blockHeightOf :: "UpstreamState option \<Rightarrow> BlockType \<Rightarrow> u64" where
  "blockHeightOf s t =
     (case Option.bind s upBlockInfo of None \<Rightarrow> 0 | Some i \<Rightarrow> Height (GetBlock i t))"

definition selectorSortKey ::
  "sortSpec \<Rightarrow> upstream_predictors option \<Rightarrow> chain_sup option \<Rightarrow> string \<Rightarrow> i64" where
  "selectorSortKey spec supv chain i =
     (case spec of
        SortPredictedLowerBoundAsc t off \<Rightarrow> predictedLowerBoundOf supv i t off
      | _ \<Rightarrow>
          (case chain of
             None \<Rightarrow> 0
           | Some b \<Rightarrow>
               (let state = GetUpstreamState b i in
                case spec of
                  SortHeadDesc \<Rightarrow> int64 (heightOf state)
                | SortSafeDesc \<Rightarrow> int64 (blockHeightOf state SafeBlock)
                | SortFinalizedDesc \<Rightarrow> int64 (blockHeightOf state FinalizedBlock)
                | _ \<Rightarrow> 0)))"

text \<open>\<open>sort.SliceStable\<close> with a comparison of sort keys: a stable sort, descending for block tags.\<close>

definition buildSelectorOrder ::
  "sortSpec option \<Rightarrow> upstream_predictors option \<Rightarrow> chain_sup option \<Rightarrow> (string list \<Rightarrow> string list) option" where
  "buildSelectorOrder spec supv chain =
     map_option (\<lambda>spec ids.
       (case spec of
          SortPredictedLowerBoundAsc _ _ \<Rightarrow> sort_key (selectorSortKey spec supv chain) ids
        | _ \<Rightarrow> sort_key (\<lambda>i. - selectorSortKey spec supv chain i) ids)) spec"

definition buildSelectorRouting ::
  "RequestSelector list \<Rightarrow> upstream_predictors option \<Rightarrow> chain_sup option
     \<Rightarrow> Matcher list \<times> (string list \<Rightarrow> string list) option" where
  "buildSelectorRouting selectors supv chain =
     (let cs = map compileSelector selectors;
          matchers = List.map_filter fst cs;
          spec = fold (\<lambda>(m, s) old. if s \<noteq> None then s else old) cs None
      in (matchers, buildSelectorOrder spec supv chain))"

section \<open>What a compiled selector accepts\<close>

text \<open>The meaning of a selector for an upstream. Block tags and the lower-height selector at height 0
  only order upstreams.\<close>

fun sel_sat :: "predictor \<Rightarrow> RequestSelector \<Rightarrow> string \<Rightarrow> UpstreamState \<Rightarrow> bool" where
  "sel_sat pr (LabelSelector n vs) i s =
     (case Option.bind (upLabels s) (\<lambda>l. GetLabel l n) of None \<Rightarrow> False | Some v \<Rightarrow> vs = [] \<or> v \<in> set vs)"
| "sel_sat pr (ExistsSelector n) i s \<longleftrightarrow> Option.bind (upLabels s) (\<lambda>l. GetLabel l n) \<noteq> None"
| "sel_sat pr (AndSelector cs) i s \<longleftrightarrow> (\<forall>c \<in> set cs. sel_sat pr c i s)"
| "sel_sat pr (OrSelector cs) i s \<longleftrightarrow> (\<exists>c \<in> set cs. sel_sat pr c i s)"
| "sel_sat pr (NotSelector c) i s \<longleftrightarrow> \<not> sel_sat pr c i s"
| "sel_sat pr (HeightSelector h) i s \<longleftrightarrow> int64 (Height (HeadData s)) \<ge> h"
| "sel_sat pr (SlotHeightSelector h) i s \<longleftrightarrow> int64 (Slot (HeadData s)) \<ge> h"
| "sel_sat pr (LowerHeightSelector h t off d) i s \<longleftrightarrow>
     h = 0 \<or> (pr i t off \<noteq> 0 \<and> h \<ge> wrap64 (pr i t off - d))"
| "sel_sat pr (BlockTagSelector t) i s \<longleftrightarrow> t \<in> {0, 1, 2}"
| "sel_sat pr (UnsupportedSelector reason) i s \<longleftrightarrow> False"
| "sel_sat pr _ i s \<longleftrightarrow> True"

definition accepts :: "predictor option \<Rightarrow> Matcher option \<Rightarrow> string \<Rightarrow> UpstreamState \<Rightarrow> bool" where
  "accepts pr m i s = (case m of None \<Rightarrow> True | Some x \<Rightarrow> Match pr x i (Some s) = Some SuccessResponse)"

lemma those_total: "\<forall>x \<in> set xs. x \<noteq> None \<Longrightarrow> those xs = Some (map the xs)"
  by (induction xs) auto

lemma Match_And:
  assumes "\<forall>m \<in> set ms. Match pr m i st \<noteq> None"
  shows "Match pr (SelectorAndMatcher ms) i st \<noteq> None"
    and "Match pr (SelectorAndMatcher ms) i st = Some SuccessResponse \<longleftrightarrow>
      (\<forall>m \<in> set ms. Match pr m i st = Some SuccessResponse)"
proof -
  have t: "those (map (\<lambda>m. Match pr m i st) ms) = Some (map the (map (\<lambda>m. Match pr m i st) ms))"
    using assms by (intro those_total) simp
  then show "Match pr (SelectorAndMatcher ms) i st \<noteq> None" by simp
  have "the (Match pr m i st) = SuccessResponse \<longleftrightarrow> Match pr m i st = Some SuccessResponse" if "m \<in> set ms" for m
    using assms that by (cases "Match pr m i st") auto
  with t show "Match pr (SelectorAndMatcher ms) i st = Some SuccessResponse \<longleftrightarrow>
      (\<forall>m \<in> set ms. Match pr m i st = Some SuccessResponse)"
    by (auto simp: Let_def filter_empty_conv)
qed

lemma or_responses_total:
  assumes "\<forall>x \<in> set xs. x \<noteq> None"
  shows "or_responses xs acc \<noteq> None"
    and "or_responses xs acc = Some SuccessResponse \<longleftrightarrow> Some SuccessResponse \<in> set xs"
  using assms by (induction xs acc rule: or_responses.induct) auto

lemma Match_Or:
  assumes "\<forall>m \<in> set ms. Match pr m i st \<noteq> None"
  shows "Match pr (SelectorOrMatcher ms) i st \<noteq> None"
    and "Match pr (SelectorOrMatcher ms) i st = Some SuccessResponse \<longleftrightarrow>
      (\<exists>m \<in> set ms. Match pr m i st = Some SuccessResponse)"
  using or_responses_total [of "map (\<lambda>m. Match pr m i st) ms" "[]"] assms
  by (simp_all add: image_iff eq_commute [of "Some SuccessResponse"])

text \<open>Proper selectors: under \<open>or\<close> and \<open>not\<close> every child compiles to a matcher and carries no sort hint,
  and the hints under an \<open>and\<close> agree.\<close>

fun sel_proper :: "RequestSelector \<Rightarrow> bool" where
  "sel_proper (AndSelector cs) \<longleftrightarrow> (\<forall>c \<in> set cs. sel_proper c)
     \<and> (\<forall>c \<in> set cs. \<forall>d \<in> set cs. snd (compileSelector c) = None \<or> snd (compileSelector d) = None
          \<or> snd (compileSelector c) = snd (compileSelector d))"
| "sel_proper (OrSelector cs) \<longleftrightarrow>
     (\<forall>c \<in> set cs. sel_proper c \<and> fst (compileSelector c) \<noteq> None \<and> snd (compileSelector c) = None)"
| "sel_proper (NotSelector c) \<longleftrightarrow> sel_proper c \<and> fst (compileSelector c) \<noteq> None \<and> snd (compileSelector c) = None"
| "sel_proper _ \<longleftrightarrow> True"

lemma compile_and_proper:
  assumes "\<forall>c \<in> set cs. \<forall>d \<in> set cs. snd c = None \<or> snd d = None \<or> snd c = snd d"
    and "\<forall>c \<in> set cs. snd c = None \<or> srt = None \<or> snd c = srt"
  shows "fst (compile_and cs ms srt) = Some (SelectorAndMatcher (ms @ List.map_filter fst cs))"
  using assms
proof (induction cs arbitrary: ms srt)
  case (Cons c cs)
  obtain m s where c: "c = (m, s)" by (cases c)
  have "\<forall>d \<in> set cs. snd d = None \<or> (if s = None then srt else s) = None \<or> snd d = (if s = None then srt else s)"
    using Cons.prems c by fastforce
  then have "fst (compile_and cs ms' (if s = None then srt else s)) =
      Some (SelectorAndMatcher (ms' @ List.map_filter fst cs))" for ms'
    using Cons.IH Cons.prems(1) by simp
  with Cons.prems(2) c show ?case
    by (cases s; cases srt; cases m) (auto simp: Let_def List.map_filter_simps)
qed (simp add: List.map_filter_simps)

lemma compile_or_proper:
  "\<forall>c \<in> set cs. snd c = None \<Longrightarrow>
     compile_or cs ms = (Some (SelectorOrMatcher (ms @ List.map_filter fst cs)), None)"
proof (induction cs arbitrary: ms)
  case (Cons c cs)
  then show ?case by (cases c; cases "fst c") (auto simp: List.map_filter_simps)
qed (simp add: List.map_filter_simps)

definition compiled_ok :: "predictor \<Rightarrow> RequestSelector \<Rightarrow> string \<Rightarrow> UpstreamState \<Rightarrow> bool" where
  "compiled_ok pr c i s \<longleftrightarrow>
     (case fst (compileSelector c) of
        None \<Rightarrow> sel_sat pr c i s
      | Some m \<Rightarrow> Match (Some pr) m i (Some s) \<noteq> None
          \<and> (Match (Some pr) m i (Some s) = Some SuccessResponse \<longleftrightarrow> sel_sat pr c i s))"

lemma set_map_filter_fst:
  "set (List.map_filter fst (map compileSelector cs)) = {m. \<exists>c \<in> set cs. fst (compileSelector c) = Some m}"
  by (induction cs) (auto simp: List.map_filter_simps split: option.splits)

lemma compiled_ok_And:
  assumes "\<forall>c \<in> set cs. compiled_ok pr c i s" "sel_proper (AndSelector cs)"
  shows "compiled_ok pr (AndSelector cs) i s"
proof -
  let ?ms = "List.map_filter fst (map compileSelector cs)"
  have m: "fst (compileSelector (AndSelector cs)) = Some (SelectorAndMatcher ?ms)"
    using compile_and_proper [of "map compileSelector cs" None "[]"] assms(2) by simp
  have tot: "\<forall>m \<in> set ?ms. Match (Some pr) m i (Some s) \<noteq> None"
    using assms(1) by (force simp: set_map_filter_fst compiled_ok_def)
  have "(\<forall>m \<in> set ?ms. Match (Some pr) m i (Some s) = Some SuccessResponse) \<longleftrightarrow> (\<forall>c \<in> set cs. sel_sat pr c i s)"
    using assms(1) unfolding set_map_filter_fst compiled_ok_def by (force split: option.splits)
  with m Match_And [OF tot] show ?thesis by (simp add: compiled_ok_def)
qed

lemma compiled_ok_Or:
  assumes "\<forall>c \<in> set cs. compiled_ok pr c i s" "sel_proper (OrSelector cs)"
  shows "compiled_ok pr (OrSelector cs) i s"
proof -
  let ?ms = "List.map_filter fst (map compileSelector cs)"
  have m: "fst (compileSelector (OrSelector cs)) = Some (SelectorOrMatcher ?ms)"
    using compile_or_proper [of "map compileSelector cs" "[]"] assms(2) by simp
  have tot: "\<forall>m \<in> set ?ms. Match (Some pr) m i (Some s) \<noteq> None"
    using assms(1) by (force simp: set_map_filter_fst compiled_ok_def)
  have "(\<exists>m \<in> set ?ms. Match (Some pr) m i (Some s) = Some SuccessResponse) \<longleftrightarrow> (\<exists>c \<in> set cs. sel_sat pr c i s)"
    using assms unfolding set_map_filter_fst compiled_ok_def by (force split: option.splits)
  with m Match_Or [OF tot] show ?thesis by (simp add: compiled_ok_def)
qed

lemma compiled_ok_proper: "sel_proper c \<Longrightarrow> compiled_ok pr c i s"
proof (induction c)
  case (AndSelector cs)
  then show ?case by (intro compiled_ok_And) simp_all
next
  case (OrSelector cs)
  then show ?case by (intro compiled_ok_Or) simp_all
next
  case (NotSelector c)
  then show ?case by (cases "compileSelector c") (auto simp: compiled_ok_def split: option.splits)
qed (auto simp: compiled_ok_def Let_def block_tags list_ex_iff split: option.splits)

section \<open>Several matchers at once\<close>

lemma multi_fold:
  "resp_type (fold (\<lambda>m r. if resp_type m < resp_type r then m else r) rs c) =
     Min (insert (resp_type c) (resp_type ` set rs))
   \<and> fold (\<lambda>m r. if resp_type m < resp_type r then m else r) rs c \<in> insert c (set rs)"
proof (induction rs arbitrary: c)
  case (Cons r rs)
  show ?case
    using Cons.IH [of "if resp_type r < resp_type c then r else c"]
    by (auto simp: Min_insert2 if_distrib [of resp_type] simp del: Min_insert cong: if_cong)
qed simp

lemma multi_response_least:
  "resp_type (multi_response rs) = Min (insert SuccessType (resp_type ` set rs))"
  "multi_response rs \<in> insert SuccessResponse (set rs)"
  using multi_fold [of rs SuccessResponse] by (simp_all add: multi_response_def)

lemma multi_response_Success: "multi_response rs = SuccessResponse \<longleftrightarrow> (\<forall>r \<in> set rs. r = SuccessResponse)"
proof -
  have fin: "finite (insert SuccessType (resp_type ` set rs))" by simp
  have "multi_response rs = SuccessResponse \<longleftrightarrow> SuccessType \<le> Min (insert SuccessType (resp_type ` set rs))"
    using multi_response_least(1) [of rs] resp_type_le [of "multi_response rs"]
    by (metis le_antisym order_refl resp_type_Success)
  also have "\<dots> \<longleftrightarrow> (\<forall>r \<in> set rs. SuccessType \<le> resp_type r)" using fin by (subst Min_ge_iff) auto
  also have "\<dots> \<longleftrightarrow> (\<forall>r \<in> set rs. r = SuccessResponse)"
    using resp_type_le by (metis le_antisym order_refl resp_type_Success)
  finally show ?thesis .
qed

lemma Match_Multi_Success:
  "Match pr (MultiMatcher ms) i st = Some SuccessResponse \<longleftrightarrow> (\<forall>m \<in> set ms. Match pr m i st = Some SuccessResponse)"
proof -
  have "Match pr (MultiMatcher ms) i st = Some SuccessResponse \<longleftrightarrow>
      (\<exists>rs. map (\<lambda>m. Match pr m i st) ms = map Some rs \<and> (\<forall>r \<in> set rs. r = SuccessResponse))"
    by (auto simp: those_Some multi_response_Success)
  also have "\<dots> \<longleftrightarrow> (\<forall>m \<in> set ms. Match pr m i st = Some SuccessResponse)"
  proof
    assume "\<exists>rs. map (\<lambda>m. Match pr m i st) ms = map Some rs \<and> (\<forall>r \<in> set rs. r = SuccessResponse)"
    then obtain rs where rs: "map (\<lambda>m. Match pr m i st) ms = map Some rs" "\<forall>r \<in> set rs. r = SuccessResponse" by blast
    have "set (map (\<lambda>m. Match pr m i st) ms) \<subseteq> {Some SuccessResponse}" unfolding rs(1) using rs(2) by auto
    then show "\<forall>m \<in> set ms. Match pr m i st = Some SuccessResponse" by auto
  next
    assume "\<forall>m \<in> set ms. Match pr m i st = Some SuccessResponse"
    then have "map (\<lambda>m. Match pr m i st) ms = map Some (map (\<lambda>m. SuccessResponse) ms)" by simp
    then show "\<exists>rs. map (\<lambda>m. Match pr m i st) ms = map Some rs \<and> (\<forall>r \<in> set rs. r = SuccessResponse)"
      by (metis (no_types, lifting) ex_map_conv)
  qed
  finally show ?thesis .
qed

section \<open>Properties\<close>


text \<open>An \<open>or\<close> with a member that admits everything is narrowed to its other members: the upstream without
  the label satisfies the selector and is rejected by routing, while the cache treats the request as
  unconstrained.\<close>

theorem or_with_any_member_is_narrowed:
  "sel_sat pr (OrSelector [AnySelector, ExistsSelector ''archive'']) ''a'' fresh_upstream
     \<and> \<not> accepts (Some pr) (fst (compileSelector (OrSelector [AnySelector, ExistsSelector ''archive'']))) ''a'' fresh_upstream
     \<and> LabelCacheKey [OrSelector [AnySelector, ExistsSelector ''archive'']] = []"
  by (simp add: accepts_def fresh_upstream_def DefaultUpstreamState_def GetLabel_def LabelCacheKey_def Let_def
      response_types)


end
