(* ===== verification/Strategy.thy ===== *)
theory Strategy
  imports Matchers "HOL-Library.Sublist"
begin

text \<open>
  Choosing an upstream for a request, \<open>internal/upstreams/flow/strategy.go\<close> and
  \<open>label_group_strategy.go\<close>. One strategy object serves one request; it remembers the upstreams it has
  handed out, so that a retry or a hedged call goes elsewhere. \<open>filterUpstreams\<close> walks the candidate list,
  asks the matchers, then the upstream's rate-limit budget and its auto-tuner, which live in the
  limiter world of \<open>RateLimiter\<close>.

  The locale \<open>upstream_strategy\<close> is the interface \<open>UpstreamStrategy\<close> with what its callers rely on; it is
  interpreted on all four strategies.
\<close>

section \<open>Selection\<close>

record request =
  reqMethod :: string
  reqIsSubscribe :: bool

datatype selection_error =
    NoAvailableUpstreams
  | NoAvailableUpstreamsWithCause string
  | NotSupportedMethod string
  | RateLimitError
  | PresetError string

definition request_matchers :: "Matcher list \<Rightarrow> request \<Rightarrow> Matcher list" where
  "request_matchers extra rq =
     extra @ [StatusMatcher, MethodMatcher (reqMethod rq)]
     @ (if reqIsSubscribe rq then [WsCapMatcher (reqMethod rq)] else [])"

definition processMatchedResponse ::
  "('b, 'r) limiter_ops \<Rightarrow> MatchResponse \<Rightarrow> MatchResponse option \<Rightarrow> string \<Rightarrow> UpstreamState \<Rightarrow> request
     \<Rightarrow> string set \<times> ('b, 'r) limiter_world
     \<Rightarrow> (bool \<times> MatchResponse option) \<times> string set \<times> ('b, 'r) limiter_world" where
  "processMatchedResponse ops matched cur i state rq = (\<lambda>(selected, w).
     if i \<notin> selected then
       (if resp_type matched = SuccessType then
          (case RateLimiterBudget state of
             None \<Rightarrow> ((True, None), insert i selected, w)
           | Some b \<Rightarrow>
               (let ((allow, err), w) = budget_Allow ops b (reqMethod rq) w
                in if err then ((False, Some RateLimiterResponse), selected, w)
                   else if \<not> allow then ((False, Some RateLimiterResponse), selected, w)
                   else ((True, None), insert i selected, w)))
        else if (case cur of None \<Rightarrow> True | Some r \<Rightarrow> resp_type matched < resp_type r)
          then ((False, Some matched), selected, w)
          else ((False, None), selected, w))
     else ((False, None), selected, w))"

definition tuner_Allow ::
  "('b, 'r) limiter_ops \<Rightarrow> UpstreamState \<Rightarrow> ('b, 'r) limiter_world \<Rightarrow> bool \<times> ('b, 'r) limiter_world" where
  "tuner_Allow ops state w =
     (case AutoTuneRateLimiter state of None \<Rightarrow> (True, w) | Some a \<Rightarrow> world_autotune_Allow ops a w)"

text \<open>The loop of \<open>filterUpstreams\<close>: the reason and the trace so far. The result is the selected id, empty
  when there is none, the reason, and the trace; \<open>None\<close> is a panic of a matcher.\<close>

type_synonym ('b, 'r) sel_state = "string set \<times> ('b, 'r) limiter_world"
type_synonym sel_result = "string \<times> MatchResponse option \<times> UpstreamsMatchTrace"

fun filter_loop ::
  "('b, 'r) limiter_ops \<Rightarrow> predictor option \<Rightarrow> request \<Rightarrow> chain_sup \<Rightarrow> Matcher \<Rightarrow> string list
     \<Rightarrow> MatchResponse option \<Rightarrow> UpstreamsMatchTrace \<Rightarrow> ('b, 'r) sel_state
     \<Rightarrow> (sel_result \<times> ('b, 'r) sel_state) option" where
  "filter_loop ops pr rq chain mm [] cur trace st = Some (([], cur, trace), st)"
| "filter_loop ops pr rq chain mm (i # ids) cur trace st =
     (case GetUpstreamState chain i of
        None \<Rightarrow> filter_loop ops pr rq chain mm ids cur trace st
      | Some state \<Rightarrow>
          (case Match pr mm i (Some state) of
             None \<Rightarrow> None
           | Some matched \<Rightarrow>
               (let trace = trace_Add i matched trace;
                    ((ok, newReason), st) = processMatchedResponse ops matched cur i state rq st
                in if ok then
                     (let (allowed, w) = tuner_Allow ops state (snd st); st = (fst st, w)
                      in if allowed then Some ((i, None, trace), st)
                         else filter_loop ops pr rq chain mm ids
                           (if (case cur of None \<Rightarrow> True | Some r \<Rightarrow> RateLimiterType < resp_type r)
                            then Some RateLimiterResponse else cur) trace st)
                   else filter_loop ops pr rq chain mm ids
                     (case newReason of None \<Rightarrow> cur | Some r \<Rightarrow> Some r) trace st)))"

definition filterUpstreams ::
  "('b, 'r) limiter_ops \<Rightarrow> predictor option \<Rightarrow> request \<Rightarrow> string list \<Rightarrow> chain_sup \<Rightarrow> Matcher list
     \<Rightarrow> (string list \<Rightarrow> string list) option \<Rightarrow> ('b, 'r) sel_state
     \<Rightarrow> (sel_result \<times> ('b, 'r) sel_state) option" where
  "filterUpstreams ops pr rq ids chain extra order st =
     filter_loop ops pr rq chain (MultiMatcher (request_matchers extra rq))
       (case order of None \<Rightarrow> ids | Some f \<Rightarrow> f ids) None [] st"

fun selectionError :: "MatchResponse option \<Rightarrow> UpstreamsMatchTrace option \<Rightarrow> selection_error" where
  "selectionError None trace = NoAvailableUpstreams"
| "selectionError (Some (MethodResponse m)) trace = NotSupportedMethod m"
| "selectionError (Some RateLimiterResponse) trace = RateLimitError"
| "selectionError (Some r) trace =
     (if resp_type r = SelectorType \<and> trace \<noteq> None then NoAvailableUpstreamsWithCause (trace_Cause trace)
      else NoAvailableUpstreams)"

section \<open>Strategies\<close>

record strategy =
  selectedUpstreams :: "string set"
  additionalMatchers :: "Matcher list"
  upOrder :: "(string list \<Rightarrow> string list) option"

text \<open>The world of a selection: the chain supervisor, whose round-robin counter moves, and the limiters.\<close>

type_synonym ('b, 'r) sel_world = "chain_sup \<times> ('b, 'r) limiter_world"
type_synonym selection = "selection_error + string"

definition finish_selection ::
  "strategy \<Rightarrow> chain_sup \<Rightarrow> (sel_result \<times> ('b, 'r) sel_state) option
     \<Rightarrow> (selection \<times> strategy \<times> ('b, 'r) sel_world) option" where
  "finish_selection s chain res =
     map_option (\<lambda>((i, cur, trace), (selected, w)).
       ((if i \<noteq> [] then Inr i else Inl (selectionError cur (Some trace))),
        s\<lparr>selectedUpstreams := selected\<rparr>, (chain, w))) res"

definition ordered_SelectUpstream ::
  "('b, 'r) limiter_ops \<Rightarrow> predictor option \<Rightarrow> string list \<Rightarrow> request \<Rightarrow> strategy \<times> ('b, 'r) sel_world
     \<Rightarrow> (selection \<times> strategy \<times> ('b, 'r) sel_world) option" where
  "ordered_SelectUpstream ops pr ids rq = (\<lambda>(s, (chain, w)).
     if ids = [] then Some (Inl NoAvailableUpstreams, s, (chain, w))
     else finish_selection s chain
       (filterUpstreams ops pr rq ids chain (additionalMatchers s) (upOrder s) (selectedUpstreams s, w)))"

text \<open>\<open>GenericStrategy\<close>: round robin over the sorted ids of the chain.\<close>

definition generic_SelectUpstream ::
  "('b, 'r) limiter_ops \<Rightarrow> predictor option \<Rightarrow> (ups_map \<Rightarrow> ups_map) \<Rightarrow> request \<Rightarrow> strategy \<times> ('b, 'r) sel_world
     \<Rightarrow> (selection \<times> strategy \<times> ('b, 'r) sel_world) option" where
  "generic_SelectUpstream ops pr ro rq = (\<lambda>(s, (chain, w)).
     let ids = GetUpstreamIds ro chain in
     if ids = [] then Some (Inl NoAvailableUpstreams, s, (chain, w))
     else
       (let (n, chain) = NextIndex chain;
            pos = unat n mod length ids;
            ids = drop pos ids @ take pos ids
        in finish_selection s chain
          (filterUpstreams ops pr rq ids chain (additionalMatchers s) (upOrder s) (selectedUpstreams s, w))))"

definition failing_SelectUpstream ::
  "selection_error \<Rightarrow> request \<Rightarrow> strategy \<times> ('b, 'r) sel_world \<Rightarrow> (selection \<times> strategy \<times> ('b, 'r) sel_world) option" where
  "failing_SelectUpstream e rq = (\<lambda>(s, w). Some (Inl e, s, w))"

section \<open>Label groups\<close>

definition PartitionLabelGroups ::
  "string list \<Rightarrow> string list \<Rightarrow> bool \<Rightarrow> (string \<Rightarrow> string set) \<Rightarrow> string list list" where
  "PartitionLabelGroups sortedIds order includeDefault labelsOf =
     map (\<lambda>label. filter (\<lambda>i. label \<in> labelsOf i) sortedIds) order
     @ (if includeDefault then
          (let d = filter (\<lambda>i. \<not> list_ex (\<lambda>label. label \<in> labelsOf i) order) sortedIds
           in if d \<noteq> [] then [d] else [])
        else [])"

record group_strategy = strategy +
  groups :: "string list list"
  passOnError :: bool
  currentGroupIdx :: nat
  firstCall :: bool

definition NewLabelGroupStrategyWithGroups :: "string list list \<Rightarrow> bool \<Rightarrow> group_strategy" where
  "NewLabelGroupStrategyWithGroups gs pass =
     \<lparr>selectedUpstreams = {}, additionalMatchers = [], upOrder = None, groups = gs, passOnError = pass,
      currentGroupIdx = 0, firstCall = True\<rparr>"

text \<open>The loop over the groups from index \<open>idx\<close>: the best reason so far and the trace of the last group
  tried.\<close>

fun group_loop ::
  "('b, 'r) limiter_ops \<Rightarrow> predictor option \<Rightarrow> request \<Rightarrow> chain_sup \<Rightarrow> Matcher list
     \<Rightarrow> (string list \<Rightarrow> string list) option \<Rightarrow> string list list \<Rightarrow> nat \<Rightarrow> MatchResponse option
     \<Rightarrow> UpstreamsMatchTrace option \<Rightarrow> ('b, 'r) sel_state
     \<Rightarrow> (selection \<times> nat \<times> ('b, 'r) sel_state) option" where
  "group_loop ops pr rq chain extra order [] idx cur trace st = Some (Inl (selectionError cur trace), idx, st)"
| "group_loop ops pr rq chain extra order (g # gs) idx cur trace st =
     (case filterUpstreams ops pr rq g chain extra order st of
        None \<Rightarrow> None
      | Some ((i, reason, groupTrace), st) \<Rightarrow>
          if i \<noteq> [] then Some (Inr i, idx, st)
          else group_loop ops pr rq chain extra order gs (Suc idx)
            (case (reason, cur) of
               (Some r, None) \<Rightarrow> Some r
             | (Some r, Some c) \<Rightarrow> if resp_type r < resp_type c then Some r else Some c
             | (None, _) \<Rightarrow> cur)
            (Some groupTrace) st)"

definition group_SelectUpstream ::
  "('b, 'r) limiter_ops \<Rightarrow> predictor option \<Rightarrow> request \<Rightarrow> group_strategy \<times> ('b, 'r) sel_world
     \<Rightarrow> (selection \<times> group_strategy \<times> ('b, 'r) sel_world) option" where
  "group_SelectUpstream ops pr rq = (\<lambda>(s, (chain, w)).
     if groups s = [] then Some (Inl NoAvailableUpstreams, s, (chain, w))
     else
       (let start = (if passOnError s \<and> \<not> firstCall s then Suc (currentGroupIdx s) else currentGroupIdx s)
        in map_option (\<lambda>(r, idx, (selected, w)).
             (r, s\<lparr>selectedUpstreams := selected, currentGroupIdx := idx, firstCall := False\<rparr>, (chain, w)))
           (group_loop ops pr rq chain (additionalMatchers s) (upOrder s) (drop start (groups s)) start None None
             (selectedUpstreams s, w))))"

section \<open>What a selection guarantees\<close>

lemma processMatchedResponse_selected:
  assumes "processMatchedResponse ops matched cur i state rq st = ((ok, r), st')"
  shows "fst st \<subseteq> fst st' \<and> (ok \<longrightarrow> matched = SuccessResponse \<and> i \<notin> fst st \<and> i \<in> fst st')
     \<and> (\<not> ok \<longrightarrow> fst st' = fst st)"
  using assms
  by (cases st) (auto simp: processMatchedResponse_def Let_def split: if_splits option.splits prod.splits)

lemma filter_loop_step:
  assumes "GetUpstreamState chain i = Some state" "Match pr mm i (Some state) = Some matched"
    and "processMatchedResponse ops matched cur i state rq st = ((ok, r), st1)"
    and "tuner_Allow ops state (snd st1) = (allowed, w)"
  shows "filter_loop ops pr rq chain mm (i # ids) cur trace st =
    (if ok then
       (if allowed then Some ((i, None, trace_Add i matched trace), (fst st1, w))
        else filter_loop ops pr rq chain mm ids
          (if (case cur of None \<Rightarrow> True | Some r \<Rightarrow> RateLimiterType < resp_type r)
           then Some RateLimiterResponse else cur) (trace_Add i matched trace) (fst st1, w))
     else filter_loop ops pr rq chain mm ids (case r of None \<Rightarrow> cur | Some r \<Rightarrow> Some r)
       (trace_Add i matched trace) st1)"
  using assms by (simp add: Let_def)

text \<open>Either the head of the list is selected, or the loop goes on with the rest.\<close>

lemma filter_loop_cases:
  assumes "filter_loop ops pr rq chain mm (i # ids) cur trace st = Some res"
  obtains (unknown) "GetUpstreamState chain i = None" "filter_loop ops pr rq chain mm ids cur trace st = Some res"
  | (selected) state st1 t where "GetUpstreamState chain i = Some state"
      "Match pr mm i (Some state) = Some SuccessResponse" "i \<notin> fst st" "res = ((i, None, t), st1)"
      "fst st1 = insert i (fst st)"
  | (skipped) state c t st1 where "GetUpstreamState chain i = Some state"
      "filter_loop ops pr rq chain mm ids c t st1 = Some res" "fst st \<subseteq> fst st1" "fst st1 \<subseteq> insert i (fst st)"
      "\<not> (i \<notin> fst st \<and> Match pr mm i (Some state) = Some SuccessResponse
          \<and> RateLimiterBudget state = None \<and> AutoTuneRateLimiter state = None)"
proof (cases "GetUpstreamState chain i")
  case None
  with assms unknown show ?thesis by simp
next
  case (Some state)
  with assms obtain matched where m: "Match pr mm i (Some state) = Some matched"
    by (auto split: option.splits)
  obtain ok r st1 where p: "processMatchedResponse ops matched cur i state rq st = ((ok, r), st1)"
    by (metis surj_pair)
  obtain allowed w where t: "tuner_Allow ops state (snd st1) = (allowed, w)" by (metis surj_pair)
  note step = filter_loop_step [OF Some m p t, of ids trace]
  have sel: "fst st1 = (if ok then insert i (fst st) else fst st)" "ok \<Longrightarrow> matched = SuccessResponse \<and> i \<notin> fst st"
    "\<not> ok \<Longrightarrow> i \<notin> fst st \<Longrightarrow> matched = SuccessResponse \<Longrightarrow> RateLimiterBudget state \<noteq> None"
    using p by (cases st; auto simp: processMatchedResponse_def Let_def split: if_splits option.splits prod.splits)+
  have tune: "\<not> allowed \<Longrightarrow> AutoTuneRateLimiter state \<noteq> None" using t by (auto simp: tuner_Allow_def split: option.splits)
  show ?thesis
  proof (cases "ok \<and> allowed")
    case True
    with step assms have "res = ((i, None, trace_Add i matched trace), (fst st1, w))" by simp
    with selected [OF Some] True sel m show ?thesis by simp
  next
    case False
    obtain c st2 where "fst st2 = fst st1"
      and loop: "filter_loop ops pr rq chain mm ids c (trace_Add i matched trace) st2 = Some res"
    proof (cases ok)
      case True
      with False step assms that [of "(fst st1, w)"] show ?thesis by simp
    next
      case False
      with step assms that [of st1] show ?thesis by simp
    qed
    with skipped [OF Some loop] False sel tune m show ?thesis by (cases ok) auto
  qed
qed

lemma filter_loop_sound:
  assumes "filter_loop ops pr rq chain mm ids cur trace st = Some ((i, cur', trace'), st')"
  shows "fst st \<subseteq> fst st' \<and> (i \<noteq> [] \<longrightarrow> i \<in> set ids \<and> i \<notin> fst st \<and> i \<in> fst st'
     \<and> (\<exists>state. GetUpstreamState chain i = Some state \<and> Match pr mm i (Some state) = Some SuccessResponse))"
  using assms
proof (induction ids arbitrary: cur trace st)
  case (Cons j ids)
  from Cons.prems show ?case
  proof (cases rule: filter_loop_cases)
    case unknown
    with Cons.IH show ?thesis by fastforce
  next
    case (skipped state c t st1)
    from Cons.IH [OF skipped(2)] skipped(3) show ?thesis by auto
  qed auto
qed simp

text \<open>An untried upstream that matches and has no limiter is enough for a selection.\<close>

definition eligible :: "predictor option \<Rightarrow> request \<Rightarrow> chain_sup \<Rightarrow> Matcher list \<Rightarrow> string \<Rightarrow> bool" where
  "eligible pr rq chain extra i \<longleftrightarrow>
     (\<exists>state. GetUpstreamState chain i = Some state
        \<and> (\<forall>m \<in> set (request_matchers extra rq). Match pr m i (Some state) = Some SuccessResponse))"

definition unlimited :: "chain_sup \<Rightarrow> string \<Rightarrow> bool" where
  "unlimited chain i \<longleftrightarrow>
     (\<forall>state. GetUpstreamState chain i = Some state \<longrightarrow> RateLimiterBudget state = None \<and> AutoTuneRateLimiter state = None)"

lemma filter_loop_complete:
  assumes "filter_loop ops pr rq chain (MultiMatcher (request_matchers extra rq)) ids cur trace st = Some ((i, cur', trace'), st')"
    and "j \<in> set ids" "j \<notin> fst st" "eligible pr rq chain extra j" "unlimited chain j" "[] \<notin> set ids"
  shows "i \<noteq> []"
  using assms
proof (induction ids arbitrary: cur trace st)
  case (Cons k ids)
  from Cons.prems(1) show ?case
  proof (cases rule: filter_loop_cases)
    case unknown
    then have "j \<noteq> k" using Cons.prems(4) by (auto simp: eligible_def)
    with unknown Cons show ?thesis by auto
  next
    case (selected state st1 t)
    with Cons.prems(6) show ?thesis by auto
  next
    case (skipped state c t st1)
    have "j \<noteq> k"
      using skipped(1,5) Cons.prems(3,4,5) by (auto simp: eligible_def unlimited_def Match_Multi_Success simp del: Match.simps)
    with Cons.IH [OF skipped(2)] skipped(4) Cons.prems(2-6) show ?thesis by auto
  qed
qed simp

section \<open>The strategy interface\<close>

text \<open>\<open>picks sel rq n\<close>: the upstreams handed out by \<open>n\<close> successive calls of a strategy for one request, the
  first call and its retries and hedges.\<close>

fun picks :: "(request \<Rightarrow> 's \<times> 'w \<Rightarrow> (selection \<times> 's \<times> 'w) option) \<Rightarrow> request \<Rightarrow> nat \<Rightarrow> 's \<times> 'w \<Rightarrow> string list" where
  "picks sel rq 0 x = []"
| "picks sel rq (Suc n) x =
     (case sel rq x of
        None \<Rightarrow> []
      | Some (Inl e, x) \<Rightarrow> picks sel rq n x
      | Some (Inr i, x) \<Rightarrow> i # picks sel rq n x)"

locale upstream_strategy =
  fixes select_upstream :: "request \<Rightarrow> 's \<times> 'w \<Rightarrow> (selection \<times> 's \<times> 'w) option"
    and tried :: "'s \<Rightarrow> string set"
  assumes fresh: "select_upstream rq (s, w) = Some (Inr i, s', w') \<Longrightarrow> i \<notin> tried s \<and> i \<in> tried s'"
    and remembers: "select_upstream rq (s, w) = Some (r, s', w') \<Longrightarrow> tried s \<subseteq> tried s'"
begin

lemma picks_fresh: "set (picks select_upstream rq n (s, w)) \<inter> tried s = {}"
proof (induction n arbitrary: s w)
  case (Suc n)
  show ?case
  proof (cases "select_upstream rq (s, w)")
    case (Some x)
    obtain r s' w' where x: "x = (r, s', w')" by (cases x)
    have "tried s \<subseteq> tried s'" using Some x by (auto dest: remembers)
    with Some x Suc.IH [of s' w'] fresh [of rq s w _ s' w'] show ?thesis by (cases r) auto
  qed simp
qed simp

lemma picks_distinct: "distinct (picks select_upstream rq n (s, w))"
proof (induction n arbitrary: s w)
  case (Suc n)
  show ?case
  proof (cases "select_upstream rq (s, w)")
    case (Some x)
    obtain r s' w' where x: "x = (r, s', w')" by (cases x)
    with Some Suc.IH [of s' w'] fresh [of rq s w _ s' w'] picks_fresh [of rq n s' w'] show ?thesis
      by (cases r) auto
  qed simp
qed simp

end

lemma finish_selection_facts:
  assumes "finish_selection s chain
      (filterUpstreams ops pr rq ids chain extra order (selectedUpstreams s, w)) = Some (r, s', (chain', w'))"
  shows "selectedUpstreams s \<subseteq> selectedUpstreams s' \<and> chain' = chain
     \<and> (\<forall>i. r = Inr i \<longrightarrow> i \<in> set (case order of None \<Rightarrow> ids | Some f \<Rightarrow> f ids)
          \<and> i \<notin> selectedUpstreams s \<and> i \<in> selectedUpstreams s' \<and> eligible pr rq chain extra i)"
proof -
  from assms obtain i cur trace selected where
    f: "filterUpstreams ops pr rq ids chain extra order (selectedUpstreams s, w) = Some ((i, cur, trace), (selected, w'))"
    and r: "r = (if i \<noteq> [] then Inr i else Inl (selectionError cur (Some trace)))"
      "s' = s\<lparr>selectedUpstreams := selected\<rparr>" "chain' = chain"
    by (auto simp: finish_selection_def)
  from filter_loop_sound [OF f [unfolded filterUpstreams_def]] r show ?thesis
    by (auto simp: eligible_def Match_Multi_Success simp del: Match.simps split: if_splits)
qed

interpretation ordered: upstream_strategy "ordered_SelectUpstream ops pr ids" selectedUpstreams
  for ops :: "('b, 'r) limiter_ops" and pr :: "predictor option" and ids :: "string list"
  by unfold_locales
    (auto simp: ordered_SelectUpstream_def split: prod.splits if_splits dest!: finish_selection_facts)

interpretation generic: upstream_strategy "generic_SelectUpstream ops pr ro" selectedUpstreams
  for ops :: "('b, 'r) limiter_ops" and pr :: "predictor option" and ro :: "ups_map \<Rightarrow> ups_map"
  by unfold_locales
    (auto simp: generic_SelectUpstream_def Let_def split: prod.splits if_splits dest!: finish_selection_facts)

interpretation failing: upstream_strategy "failing_SelectUpstream e" selectedUpstreams
  for e :: selection_error
  by unfold_locales (auto simp: failing_SelectUpstream_def)

lemma group_loop_facts:
  assumes "group_loop ops pr rq chain extra order gs idx cur trace st = Some (r, idx', st')"
  shows "fst st \<subseteq> fst st' \<and> idx \<le> idx' \<and> (\<forall>i. r = Inr i \<longrightarrow> i \<notin> fst st \<and> i \<in> fst st' \<and> eligible pr rq chain extra i)"
  using assms
proof (induction gs arbitrary: idx cur trace st)
  case (Cons g gs)
  from Cons.prems obtain i reason t st1 where
    f: "filterUpstreams ops pr rq g chain extra order st = Some ((i, reason, t), st1)"
    by (auto split: option.splits)
  note sound = filter_loop_sound [OF f [unfolded filterUpstreams_def]]
  show ?case
  proof (cases "i = []")
    case True
    with Cons.prems f Cons.IH [of "Suc idx" _ "Some t" st1] sound show ?thesis by fastforce
  next
    case False
    with Cons.prems f sound show ?thesis
      by (auto simp: eligible_def Match_Multi_Success simp del: Match.simps)
  qed
qed auto

interpretation grouped: upstream_strategy "group_SelectUpstream ops pr" selectedUpstreams
  for ops :: "('b, 'r) limiter_ops" and pr :: "predictor option"
  by unfold_locales
    (auto simp: group_SelectUpstream_def Let_def split: prod.splits if_splits dest!: group_loop_facts)

section \<open>Lemmas for the properties\<close>

lemma GetUpstreamState_NextIndex [simp]: "GetUpstreamState (snd (NextIndex chain)) i = GetUpstreamState chain i"
  by (simp add: GetUpstreamState_def NextIndex_def Let_def)

lemma eligible_NextIndex [simp]: "eligible pr rq (snd (NextIndex chain)) extra i = eligible pr rq chain extra i"
  by (simp add: eligible_def)

lemma unlimited_NextIndex [simp]: "unlimited (snd (NextIndex chain)) i = unlimited chain i"
  by (simp add: unlimited_def)

definition rotated :: "(ups_map \<Rightarrow> ups_map) \<Rightarrow> chain_sup \<Rightarrow> string list" where
  "rotated ro chain =
     (let ids = GetUpstreamIds ro chain; pos = unat (fst (NextIndex chain)) mod length ids
      in drop pos ids @ take pos ids)"

lemma set_rotated [simp]: "set (rotated ro chain) = set (GetUpstreamIds ro chain)"
  by (auto simp: rotated_def Let_def dest: in_set_dropD in_set_takeD)
    (metis Un_iff append_take_drop_id set_append)

lemma generic_SelectUpstream_rotated:
  "generic_SelectUpstream ops pr ro rq (s, (chain, w)) =
     (if GetUpstreamIds ro chain = [] then Some (Inl NoAvailableUpstreams, s, (chain, w))
      else finish_selection s (snd (NextIndex chain))
        (filterUpstreams ops pr rq (rotated ro chain) (snd (NextIndex chain)) (additionalMatchers s) (upOrder s)
          (selectedUpstreams s, w)))"
  by (simp add: generic_SelectUpstream_def rotated_def Let_def split: prod.split)

lemma hd_rotated:
  assumes "GetUpstreamIds ro chain \<noteq> []"
  shows "\<exists>rest. rotated ro chain =
    GetUpstreamIds ro chain ! (unat (roundRobinIndex chain + 1) mod length (GetUpstreamIds ro chain)) # rest"
proof -
  let ?ids = "GetUpstreamIds ro chain"
  let ?pos = "unat (roundRobinIndex chain + 1) mod length ?ids"
  have "?pos < length ?ids" using assms by simp
  then have "drop ?pos ?ids = ?ids ! ?pos # drop (Suc ?pos) ?ids" by (rule Cons_nth_drop_Suc [symmetric])
  then show ?thesis by (simp add: rotated_def NextIndex_def Let_def)
qed

lemma eligible_request:
  assumes "eligible pr rq chain extra i"
  shows "\<exists>state ms. GetUpstreamState chain i = Some state \<and> Status state = Available
     \<and> upMethods state = Some ms \<and> HasMethod ms (reqMethod rq)
     \<and> (reqIsSubscribe rq \<longrightarrow> (\<exists>c. Caps state = Some c \<and> WsCap \<in> c))
     \<and> (\<forall>m \<in> set extra. Match pr m i (Some state) = Some SuccessResponse)"
  using assms by (auto simp: eligible_def request_matchers_def Option.bind_eq_Some_conv split: if_splits)

lemma routing_matchers:
  "set (fst (buildSelectorRouting sels supv chain)) = {m. \<exists>c \<in> set sels. fst (compileSelector c) = Some m}"
  by (simp add: buildSelectorRouting_def Let_def set_map_filter_fst)

lemma routing_accepts:
  assumes "\<forall>c \<in> set sels. sel_proper c"
  shows "(\<forall>m \<in> set (fst (buildSelectorRouting sels supv chain)). Match (Some pr) m i (Some state) = Some SuccessResponse)
     \<longleftrightarrow> (\<forall>c \<in> set sels. sel_sat pr c i state)"
proof -
  have "(case fst (compileSelector c) of None \<Rightarrow> True | Some m \<Rightarrow> Match (Some pr) m i (Some state) = Some SuccessResponse)
      \<longleftrightarrow> sel_sat pr c i state" if "c \<in> set sels" for c
    using compiled_ok_proper [of c pr i state] assms that by (auto simp: compiled_ok_def split: option.splits)
  then show ?thesis unfolding routing_matchers by (force split: option.splits)
qed

lemma order_set:
  assumes "snd (buildSelectorRouting sels supv chain) = Some f"
  shows "set (f ids) = set ids"
  using assms by (auto simp: buildSelectorRouting_def buildSelectorOrder_def Let_def split: sortSpec.splits)

lemma Match_Multi_total:
  "(\<forall>m \<in> set ms. Match pr m i st \<noteq> None) \<Longrightarrow> Match pr (MultiMatcher ms) i st \<noteq> None"
  using those_total [of "map (\<lambda>m. Match pr m i st) ms"] by simp

lemma filter_loop_total:
  assumes "\<forall>i \<in> set ids. \<forall>state. GetUpstreamState chain i = Some state \<longrightarrow> Match pr mm i (Some state) \<noteq> None"
  shows "filter_loop ops pr rq chain mm ids cur trace st \<noteq> None"
  using assms
proof (induction ids arbitrary: cur trace st)
  case (Cons i ids)
  then show ?case
    by (simp add: Let_def split: option.split prod.split) force
qed simp

text \<open>The states a chain supervisor holds have their method and capability sets; only a hand-made
  state lacks them.\<close>

definition states_complete :: "chain_sup \<Rightarrow> bool" where
  "states_complete chain \<longleftrightarrow>
     (\<forall>i state. GetUpstreamState chain i = Some state \<longrightarrow> upMethods state \<noteq> None \<and> Caps state \<noteq> None)"

lemma request_match_total:
  assumes "states_complete chain" "GetUpstreamState chain i = Some state" "\<forall>c \<in> set sels. sel_proper c"
  shows "Match (Some pr) (MultiMatcher (request_matchers (fst (buildSelectorRouting sels supv c)) rq)) i (Some state) \<noteq> None"
proof (rule Match_Multi_total, rule ballI)
  fix m
  assume "m \<in> set (request_matchers (fst (buildSelectorRouting sels supv c)) rq)"
  then consider (sel) d where "d \<in> set sels" "fst (compileSelector d) = Some m"
    | (fixed) "m \<in> {StatusMatcher, MethodMatcher (reqMethod rq), WsCapMatcher (reqMethod rq)}"
    by (auto simp: request_matchers_def routing_matchers split: if_splits)
  then show "Match (Some pr) m i (Some state) \<noteq> None"
  proof cases
    case sel
    with compiled_ok_proper [of d pr i state] assms(3) show ?thesis by (simp add: compiled_ok_def)
  next
    case fixed
    with assms(1,2) show ?thesis by (auto simp: states_complete_def)
  qed
qed

section \<open>Properties\<close>

text \<open>\<^bold>\<open>C2\<close>. What a strategy hands out fits the request: for a strategy built from proper selectors, an upstream
  returned by the round-robin or by a fixed-order (rating, specific) selection is known to the chain, is
  available, serves the method, has the websocket capability when the request is a subscription,
  satisfies every selector, and was not handed out before for this request.\<close>

theorem selected_upstream_fits_request:
  assumes "\<forall>c \<in> set sels. sel_proper c"
    and "additionalMatchers s = fst (buildSelectorRouting sels supv (Some chain))"
    and "generic_SelectUpstream ops (Some (routing_predict supv)) ro rq (s, (chain, w)) = Some (Inr i, s', (chain', w'))
       \<or> ordered_SelectUpstream ops (Some (routing_predict supv)) ids rq (s, (chain, w)) = Some (Inr i, s', (chain', w'))"
  shows "\<exists>state ms. GetUpstreamState chain i = Some state \<and> Status state = Available
     \<and> upMethods state = Some ms \<and> HasMethod ms (reqMethod rq)
     \<and> (reqIsSubscribe rq \<longrightarrow> (\<exists>c. Caps state = Some c \<and> WsCap \<in> c))
     \<and> (\<forall>c \<in> set sels. sel_sat (routing_predict supv) c i state)
     \<and> i \<notin> selectedUpstreams s \<and> i \<in> selectedUpstreams s'"
proof -
  have "eligible (Some (routing_predict supv)) rq chain (additionalMatchers s) i
      \<and> i \<notin> selectedUpstreams s \<and> i \<in> selectedUpstreams s'"
    using assms(3)
    by (auto simp: generic_SelectUpstream_rotated ordered_SelectUpstream_def split: if_splits
        dest!: finish_selection_facts)
  with eligible_request [of "Some (routing_predict supv)" rq chain "additionalMatchers s" i] routing_accepts [OF assms(1)]
  show ?thesis unfolding assms(2) by fastforce
qed

text \<open>A request never visits the same upstream twice: whatever the strategy, the rate limiters and the selectors,
  the upstreams handed out by successive calls for one request are pairwise different.\<close>

theorem no_upstream_is_picked_twice:
  "distinct (picks (generic_SelectUpstream ops pr ro) rq n x)
     \<and> distinct (picks (ordered_SelectUpstream ops pr ids) rq n x)
     \<and> distinct (picks (group_SelectUpstream ops pr) rq n y)"
  by (cases x; cases y) (simp add: generic.picks_distinct ordered.picks_distinct grouped.picks_distinct)

text \<open>\<^bold>\<open>C23\<close>. A request that can be served is served: if some known upstream is available, serves the method, satisfies
  the selectors, is not rate limited and was not tried yet, the round-robin selection returns an
  upstream, and never panics on the way.\<close>

theorem servable_request_is_served:
  assumes "\<forall>c \<in> set sels. sel_proper c" "states_complete chain" "range_order ro"
    and "(additionalMatchers s, upOrder s) = buildSelectorRouting sels supv (Some chain)"
    and "eligible (Some (routing_predict supv)) rq chain (additionalMatchers s) j" "unlimited chain j"
    and "j \<notin> selectedUpstreams s" "GetUpstreamState chain [] = None"
  shows "\<exists>i s' chain' w'.
    generic_SelectUpstream ops (Some (routing_predict supv)) ro rq (s, (chain, w)) = Some (Inr i, s', (chain', w'))"
proof -
  let ?chain = "snd (NextIndex chain)" and ?extra = "additionalMatchers s"
  let ?ids = "case upOrder s of None \<Rightarrow> rotated ro chain | Some f \<Rightarrow> f (rotated ro chain)"
  let ?mm = "MultiMatcher (request_matchers ?extra rq)"
  have extra: "?extra = fst (buildSelectorRouting sels supv (Some chain))"
    and order: "upOrder s = snd (buildSelectorRouting sels supv (Some chain))"
    using assms(4) by (metis fst_conv, metis snd_conv)
  have "set (GetUpstreamIds ro chain) = dom (map_of (upstreamStates chain))"
    using assms(3) by (simp add: GetUpstreamIds_def dom_map_of_conv_image_fst range_order_set)
  then have ids: "set ?ids = dom (map_of (upstreamStates chain))"
    using order order_set [of sels supv "Some chain"] by (auto split: option.split)
  have j: "j \<in> set ?ids" using assms(5) ids by (auto simp: eligible_def GetUpstreamState_def)
  then have ne: "GetUpstreamIds ro chain \<noteq> []"
    using order order_set [of sels supv "Some chain" _ "rotated ro chain"] by (auto split: option.splits)
  have "filter_loop ops (Some (routing_predict supv)) rq ?chain ?mm ?ids None [] (selectedUpstreams s, w) \<noteq> None"
    using request_match_total [OF assms(2) _ assms(1)] unfolding extra by (intro filter_loop_total) simp
  then obtain i cur t sel w' where loop:
    "filter_loop ops (Some (routing_predict supv)) rq ?chain ?mm ?ids None [] (selectedUpstreams s, w) = Some ((i, cur, t), (sel, w'))"
    by auto
  have "i \<noteq> []"
    using filter_loop_complete [OF loop j] assms(5-8) ids by (auto simp: GetUpstreamState_def)
  with loop ne show ?thesis by (simp add: generic_SelectUpstream_rotated filterUpstreams_def finish_selection_def)
qed

text \<open>Requests rotate over the upstreams: when every upstream of the chain can serve the request, a fresh
  round-robin selection takes the one at position \<open>counter mod n\<close> in the sorted id list and advances
  the counter by one, so consecutive requests go to consecutive upstreams.\<close>

theorem round_robin_rotates:
  assumes "GetUpstreamIds ro chain \<noteq> []" "[] \<notin> set (GetUpstreamIds ro chain)"
    and "\<forall>j \<in> set (GetUpstreamIds ro chain). eligible pr rq chain (additionalMatchers s) j \<and> unlimited chain j"
    and "selectedUpstreams s = {}" "upOrder s = None"
  shows "\<exists>s' w'. generic_SelectUpstream ops pr ro rq (s, (chain, w)) =
    Some (Inr (GetUpstreamIds ro chain ! (unat (roundRobinIndex chain + 1) mod length (GetUpstreamIds ro chain))),
      s', (chain\<lparr>roundRobinIndex := roundRobinIndex chain + 1\<rparr>, w'))"
proof -
  let ?ids = "GetUpstreamIds ro chain"
  let ?j = "?ids ! (unat (roundRobinIndex chain + 1) mod length ?ids)"
  let ?chain = "snd (NextIndex chain)"
  obtain rest where rot: "rotated ro chain = ?j # rest" using hd_rotated [OF assms(1)] by blast
  have j: "?j \<in> set ?ids" using assms(1) by simp
  with assms(3) have el: "eligible pr rq ?chain (additionalMatchers s) ?j" and un: "unlimited ?chain ?j" by auto
  then obtain state where st: "GetUpstreamState ?chain ?j = Some state"
    and m: "Match pr (MultiMatcher (request_matchers (additionalMatchers s) rq)) ?j (Some state) = Some SuccessResponse"
    unfolding eligible_def Match_Multi_Success by blast
  from un st have lim: "RateLimiterBudget state = None" "AutoTuneRateLimiter state = None"
    by (simp_all add: unlimited_def)
  have p: "processMatchedResponse ops SuccessResponse None ?j state rq ({}, w) = ((True, None), {?j}, w)"
    and t: "tuner_Allow ops state (snd ({?j}, w)) = (True, w)"
    using lim by (simp_all add: processMatchedResponse_def tuner_Allow_def)
  have "?j \<noteq> []" using assms(2) j by metis
  with filter_loop_step [OF st m p t] rot assms show ?thesis
    by (simp add: generic_SelectUpstream_rotated filterUpstreams_def finish_selection_def del: filter_loop.simps)
      (simp add: NextIndex_def Let_def)
qed

lemma group_loop_picks:
  assumes "group_loop ops pr rq chain extra order (drop idx gs) idx cur trace st = Some (Inr i, idx', st')"
  shows "idx \<le> idx' \<and> idx' < length gs \<and> i \<in> set (case order of None \<Rightarrow> gs ! idx' | Some f \<Rightarrow> f (gs ! idx'))"
  using assms
proof (induction "length gs - idx" arbitrary: idx cur trace st)
  case 0
  then show ?case by simp
next
  case (Suc n)
  then have idx: "idx < length gs" by simp
  then have d: "drop idx gs = gs ! idx # drop (Suc idx) gs" by (simp add: Cons_nth_drop_Suc)
  from Suc.prems d obtain j reason t st1 where
    f: "filterUpstreams ops pr rq (gs ! idx) chain extra order st = Some ((j, reason, t), st1)"
    by (auto split: option.splits)
  note sound = filter_loop_sound [OF f [unfolded filterUpstreams_def]]
  show ?case
  proof (cases "j = []")
    case True
    with Suc.prems d f obtain cur' where
      "group_loop ops pr rq chain extra order (drop (Suc idx) gs) (Suc idx) cur' (Some t) st1 = Some (Inr i, idx', st')"
      by auto
    moreover have "n = length gs - Suc idx" using Suc.hyps(2) by simp
    ultimately show ?thesis using Suc.hyps(1) by fastforce
  next
    case False
    with Suc.prems d f sound idx show ?thesis by auto
  qed
qed

text \<open>Label groups are tried in order and never revisited backwards: a selection comes from the group the
  strategy then points at, that group is not before the current one, and with \<open>passOnError\<close> every call
  after the first moves on to a strictly later group.\<close>

theorem label_groups_tried_in_order:
  assumes "group_SelectUpstream ops pr rq (s, x) = Some (Inr i, s', x')"
  shows "currentGroupIdx s' < length (groups s)
     \<and> i \<in> set (case upOrder s of None \<Rightarrow> groups s ! currentGroupIdx s' | Some f \<Rightarrow> f (groups s ! currentGroupIdx s'))
     \<and> currentGroupIdx s \<le> currentGroupIdx s'
     \<and> (passOnError s \<and> \<not> firstCall s \<longrightarrow> currentGroupIdx s < currentGroupIdx s') \<and> \<not> firstCall s'"
proof -
  obtain chain w where x: "x = (chain, w)" by (cases x)
  let ?start = "if passOnError s \<and> \<not> firstCall s then Suc (currentGroupIdx s) else currentGroupIdx s"
  from assms x obtain sel w' where
    loop: "group_loop ops pr rq chain (additionalMatchers s) (upOrder s) (drop ?start (groups s)) ?start None None
        (selectedUpstreams s, w) = Some (Inr i, currentGroupIdx s', (sel, w'))" and "\<not> firstCall s'"
    by (auto simp: group_SelectUpstream_def Let_def split: if_splits)
  with group_loop_picks [OF loop] show ?thesis by (auto split: if_splits)
qed

text \<open>Partitioning by labels keeps the rating order inside every group and loses nobody it should keep: the
  groups together hold exactly the upstreams that carry one of the labels, and all upstreams when the
  default group is included.\<close>

theorem label_groups_cover_upstreams:
  "set (concat (PartitionLabelGroups ids order includeDefault labelsOf)) =
     {i \<in> set ids. includeDefault \<or> list_ex (\<lambda>l. l \<in> labelsOf i) order}
   \<and> list_all (\<lambda>g. subseq g ids) (PartitionLabelGroups ids order includeDefault labelsOf)"
  by (auto simp: PartitionLabelGroups_def Let_def list_ex_iff list_all_iff filter_empty_conv)

section \<open>Witnesses\<close>

definition sample_upstream :: UpstreamState where
  "sample_upstream = fresh_upstream\<lparr>Status := Available, HeadData := NewBlockWithHeight 100\<rparr>"

definition sample_chain :: chain_sup where
  "sample_chain = NewGenericChainSupervisor\<lparr>upstreamStates := [(''a'', sample_upstream), (''b'', sample_upstream)]\<rparr>"

definition sample_strategy :: strategy where
  "sample_strategy = \<lparr>selectedUpstreams = {}, additionalMatchers = [HeightMatcher 50], upOrder = None\<rparr>"

definition sample_request :: request where
  "sample_request = \<lparr>reqMethod = ''eth_call'', reqIsSubscribe = True\<rparr>"

definition idle_ops :: "(unit, unit) limiter_ops" where
  "idle_ops = \<lparr>bk_new = \<lambda>_ _ _ _. (), bk_take = \<lambda>_ b _. (0, b), rd_exec = \<lambda>r _. (None, r)\<rparr>"

definition idle_world :: "(unit, unit) limiter_world" where
  "idle_world = \<lparr>clock = 0, engines = [], redis = (), autotunes = []\<rparr>"

lemmas sample_selection_defs = sample_upstream_def sample_chain_def sample_strategy_def sample_request_def
  fresh_upstream_def DefaultUpstreamState_def NewBlockWithHeight_def NewGenericChainSupervisor_def

lemma sample_chain_states:
  "GetUpstreamState sample_chain i = (if i = ''a'' \<or> i = ''b'' then Some sample_upstream else None)"
  by (simp add: GetUpstreamState_def sample_chain_def)

lemma sample_eligible:
  "eligible pr sample_request sample_chain [HeightMatcher 50] i \<longleftrightarrow> i = ''a'' \<or> i = ''b''"
proof -
  have "Match pr m i (Some sample_upstream) = Some SuccessResponse"
    if "m \<in> set (request_matchers [HeightMatcher 50] sample_request)" for m
    using that by (auto simp: request_matchers_def sample_request_def sample_upstream_def fresh_upstream_def
        DefaultUpstreamState_def NewBlockWithHeight_def NewBlock_def HasMethod_def int64_def)
  then show ?thesis by (auto simp: eligible_def sample_chain_states)
qed

lemma sample_unlimited: "unlimited sample_chain i"
  by (simp add: unlimited_def sample_chain_states sample_upstream_def fresh_upstream_def DefaultUpstreamState_def)

lemma sample_routing:
  "buildSelectorRouting [HeightSelector 50] None (Some sample_chain) = ([HeightMatcher 50], None)"
  by (simp add: buildSelectorRouting_def buildSelectorOrder_def List.map_filter_simps)

theorem servable_request_is_served_witness:
  "\<exists>i s' chain' w'. generic_SelectUpstream idle_ops (Some (routing_predict None)) rev sample_request
     (sample_strategy, (sample_chain, idle_world)) = Some (Inr i, s', (chain', w'))"
  by (rule servable_request_is_served [where sels = "[HeightSelector 50]" and j = "''a''"])
    (simp_all add: sample_routing sample_strategy_def sample_eligible sample_unlimited sample_chain_states
      states_complete_def, simp add: sample_upstream_def fresh_upstream_def DefaultUpstreamState_def)

lemma sample_ids: "GetUpstreamIds rev sample_chain = [''a'', ''b'']"
  by code_simp

theorem round_robin_rotates_witness:
  "\<exists>s' w'. generic_SelectUpstream idle_ops None rev sample_request (sample_strategy, (sample_chain, idle_world)) =
     Some (Inr ''b'', s', (sample_chain\<lparr>roundRobinIndex := 1\<rparr>, w'))"
proof -
  have "roundRobinIndex sample_chain = 0" by (simp add: sample_chain_def NewGenericChainSupervisor_def)
  with round_robin_rotates [of rev sample_chain None sample_request sample_strategy idle_ops idle_world]
  show ?thesis by (simp add: sample_ids sample_eligible sample_unlimited sample_strategy_def)
qed

definition sample_picked :: "selection option" where
  "sample_picked = map_option fst
     (generic_SelectUpstream idle_ops (Some (routing_predict None)) rev sample_request
        (sample_strategy, (sample_chain, idle_world)))"

lemma sample_picked_b: "sample_picked = Some (Inr ''b'')"
  by code_simp

theorem selected_upstream_fits_request_witness:
  "\<exists>state ms. GetUpstreamState sample_chain ''b'' = Some state \<and> Status state = Available
     \<and> upMethods state = Some ms \<and> HasMethod ms ''eth_call'' \<and> int64 (Height (HeadData state)) \<ge> 50"
proof -
  obtain s' chain' w' where "generic_SelectUpstream idle_ops (Some (routing_predict None)) rev sample_request
      (sample_strategy, (sample_chain, idle_world)) = Some (Inr ''b'', s', (chain', w'))"
    using sample_picked_b by (auto simp: sample_picked_def)
  then have "generic_SelectUpstream idle_ops (Some (routing_predict None)) rev sample_request
      (sample_strategy, (sample_chain, idle_world)) = Some (Inr ''b'', s', (chain', w'))
    \<or> ordered_SelectUpstream idle_ops (Some (routing_predict None)) [] sample_request
      (sample_strategy, (sample_chain, idle_world)) = Some (Inr ''b'', s', (chain', w'))" ..
  from selected_upstream_fits_request [OF _ _ this, of "[HeightSelector 50]"] show ?thesis
    by (auto simp: sample_routing sample_strategy_def sample_request_def)
qed

definition sample_groups :: group_strategy where
  "sample_groups = (NewLabelGroupStrategyWithGroups [[''x''], [''a'', ''b'']] True)\<lparr>firstCall := False\<rparr>"

theorem label_groups_tried_in_order_witness:
  "\<exists>s' x'. group_SelectUpstream idle_ops None sample_request (sample_groups, (sample_chain, idle_world)) = Some (Inr ''a'', s', x')
     \<and> currentGroupIdx s' = 1"
proof -
  have "map_option fst (group_SelectUpstream idle_ops None sample_request (sample_groups, (sample_chain, idle_world)))
      = Some (Inr ''a'')" by code_simp
  then obtain s' x' where g: "group_SelectUpstream idle_ops None sample_request (sample_groups, (sample_chain, idle_world))
      = Some (Inr ''a'', s', x')" by auto
  from label_groups_tried_in_order [OF g] have "currentGroupIdx s' = 1"
    by (simp add: sample_groups_def NewLabelGroupStrategyWithGroups_def)
  with g show ?thesis by blast
qed

end
