(* ===== verification/LowerBoundService.thy ===== *)
theory LowerBoundService
  imports Protocol
begin

text \<open>
  Lower bounds of an upstream, \<open>internal/upstreams/lower_bounds\<close>: the search for the first block a node
  still has (\<open>lower_bound_search.go\<close>), the window of detected bounds and its linear prediction
  (\<open>lower_bounds.go\<close>), and the loop that feeds one into the other (\<open>lower_bound_processor.go\<close>).

  A node is a world with a probe, a latest-height fetch and a clock, all of which may answer
  differently at every call. The retry executor of the failsafe library and the floating-point
  operations, with the regression library, are parameters.
\<close>

section \<open>Search\<close>

record retry_policy =
  rpAttempts :: int
  rpBaseDelay :: int
  rpMaxDelay :: int

record 'w node =
  nd_probe :: "i64 \<Rightarrow> 'w \<Rightarrow> (string + bool) \<times> 'w"
  nd_latest :: "'w \<Rightarrow> (string + i64) \<times> 'w"
  nd_now :: "'w \<Rightarrow> i64"
  fs_probe :: "retry_policy \<Rightarrow> ('w \<Rightarrow> (string + bool) \<times> 'w) \<Rightarrow> 'w \<Rightarrow> (string + bool) \<times> 'w"
  fs_latest :: "retry_policy \<Rightarrow> ('w \<Rightarrow> (string + i64) \<times> 'w) \<Rightarrow> 'w \<Rightarrow> (string + i64) \<times> 'w"

record boundRange =
  rgLeft :: i64
  rgRight :: i64
  rgCurrent :: i64
  rgFound :: bool

record LowerBoundSearchCalculator =
  calcUpstreamId :: string
  MainBoundType :: LowerBoundType
  allSupportedTypes :: "LowerBoundType list"
  searchPeriod :: int
  maxOffset :: int
  retryAttempts :: int
  retryBaseDelay :: int
  retryMaxDelay :: int
  lastBound :: i64

definition defaultLowerBoundSearchRetryAttempts :: int where "defaultLowerBoundSearchRetryAttempts = 30"
definition defaultLowerBoundSearchRetryBaseDelay :: int where "defaultLowerBoundSearchRetryBaseDelay = 1000000000"
definition defaultLowerBoundSearchRetryMaxDelay :: int where "defaultLowerBoundSearchRetryMaxDelay = 60000000000"

definition NewLowerBoundSearchCalculatorWithOffset ::
  "string \<Rightarrow> LowerBoundType \<Rightarrow> LowerBoundType list \<Rightarrow> int \<Rightarrow> int \<Rightarrow> LowerBoundSearchCalculator" where
  "NewLowerBoundSearchCalculatorWithOffset i ty tys per off =
     \<lparr>calcUpstreamId = i, MainBoundType = ty, allSupportedTypes = tys, searchPeriod = per, maxOffset = off,
      retryAttempts = defaultLowerBoundSearchRetryAttempts, retryBaseDelay = defaultLowerBoundSearchRetryBaseDelay,
      retryMaxDelay = defaultLowerBoundSearchRetryMaxDelay, lastBound = 0\<rparr>"

definition NewLowerBoundSearchCalculator :: "string \<Rightarrow> LowerBoundType \<Rightarrow> int \<Rightarrow> LowerBoundSearchCalculator" where
  "NewLowerBoundSearchCalculator i ty per = NewLowerBoundSearchCalculatorWithOffset i ty [ty] per 0"

definition createLowerBoundSearchRetryPolicy :: "int \<Rightarrow> int \<Rightarrow> int \<Rightarrow> retry_policy" where
  "createLowerBoundSearchRetryPolicy attempts base mx =
     (let attempts = (if attempts \<le> 0 then 1 else attempts);
          base = (if base \<le> 0 then defaultLowerBoundSearchRetryBaseDelay else base);
          mx = (if mx < base then base else mx)
      in \<lparr>rpAttempts = attempts, rpBaseDelay = base, rpMaxDelay = mx\<rparr>)"

definition createRetryPolicy :: "LowerBoundSearchCalculator \<Rightarrow> retry_policy" where
  "createRetryPolicy c = createLowerBoundSearchRetryPolicy (retryAttempts c) (retryBaseDelay c) (retryMaxDelay c)"

definition withRetryLatestHeight :: "LowerBoundSearchCalculator \<Rightarrow> 'w node \<Rightarrow> 'w \<Rightarrow> (string + i64) \<times> 'w" where
  "withRetryLatestHeight c nd = fs_latest nd (createRetryPolicy c) (nd_latest nd)"

definition withRetryProbe :: "LowerBoundSearchCalculator \<Rightarrow> 'w node \<Rightarrow> i64 \<Rightarrow> 'w \<Rightarrow> (string + bool) \<times> 'w" where
  "withRetryProbe c nd h = fs_probe nd (createRetryPolicy c) (nd_probe nd h)"

definition hasData :: "LowerBoundSearchCalculator \<Rightarrow> 'w node \<Rightarrow> i64 \<Rightarrow> 'w \<Rightarrow> bool \<times> 'w" where
  "hasData c nd h w = (let (r, w) = withRetryProbe c nd h w in (r = Inr True, w))"

definition initialRange :: "i64 \<Rightarrow> i64 \<Rightarrow> boundRange" where
  "initialRange cached latest =
     \<lparr>rgLeft = (if cached > 0 then cached else 0), rgRight = latest, rgCurrent = 0, rgFound = False\<rparr>"

definition quoted :: "string \<Rightarrow> string" where
  "quoted s = [CHR 0x27] @ s @ [CHR 0x27]"

definition converge ::
  "LowerBoundSearchCalculator \<Rightarrow> (i64 \<Rightarrow> 'w \<Rightarrow> bool \<times> 'w) \<Rightarrow> boundRange \<Rightarrow> 'w \<Rightarrow> (string + boundRange) \<times> 'w" where
  "converge c has st w =
     (let cur = (if rgCurrent st = 0 then 1 else rgCurrent st);
          (ok, w) = has cur w;
          done = \<lparr>rgLeft = 0, rgRight = 0, rgCurrent = cur, rgFound = True\<rparr>
      in if ok then (Inr done, w)
         else if cur = 1 \<and> rgRight st > 10
           then (Inl (''upstream '' @ quoted (calcUpstreamId c) @ '' could not detect ''
             @ LowerBoundType_String (MainBoundType c) @ '' lower bound''), w)
         else (Inr done, w))"

definition rg_middle :: "boundRange \<Rightarrow> i64" where
  "rg_middle st = wrap64 (rgLeft st + go_quot (wrap64 (rgRight st - rgLeft st)) 2)"

partial_function (option) plain_loop ::
  "LowerBoundSearchCalculator \<Rightarrow> (i64 \<Rightarrow> 'w \<Rightarrow> bool \<times> 'w) \<Rightarrow> boundRange \<Rightarrow> 'w \<Rightarrow> ((string + i64) \<times> 'w) option" where
  "plain_loop c has st w =
     (if rgFound st then Some (Inr (rgCurrent st), w)
      else if rgLeft st > rgRight st then
        (case converge c has st w of (r, w) \<Rightarrow>
           (case r of Inl e \<Rightarrow> Some (Inl e, w) | Inr st \<Rightarrow> plain_loop c has st w))
      else
        (let middle = rg_middle st in
         case has middle w of (ok, w) \<Rightarrow>
           plain_loop c has
             (if ok
              then \<lparr>rgLeft = rgLeft st, rgRight = wrap64 (middle - 1), rgCurrent = middle, rgFound = False\<rparr>
              else \<lparr>rgLeft = wrap64 (middle + 1), rgRight = rgRight st, rgCurrent = rgCurrent st, rgFound = False\<rparr>) w))"

definition detectPlain ::
  "LowerBoundSearchCalculator \<Rightarrow> i64 \<Rightarrow> i64 \<Rightarrow> (i64 \<Rightarrow> 'w \<Rightarrow> bool \<times> 'w) \<Rightarrow> 'w \<Rightarrow> ((string + i64) \<times> 'w) option" where
  "detectPlain c cached latest has w =
     (if cached > 0 then
        (case has cached w of (ok, w) \<Rightarrow>
           if ok then Some (Inr cached, w) else plain_loop c has (initialRange cached latest) w)
      else plain_loop c has (initialRange cached latest) w)"

text \<open>\<open>shiftLeftAndSearch\<close>: the scan below a block without data; \<open>visited\<close> is shared by all scans of a search.\<close>

function shift_loop ::
  "(i64 \<Rightarrow> 'w \<Rightarrow> bool \<times> 'w) \<Rightarrow> int \<Rightarrow> boundRange \<Rightarrow> boundRange \<Rightarrow> i64 \<Rightarrow> int \<Rightarrow> i64 set \<Rightarrow> 'w
     \<Rightarrow> boundRange \<times> i64 set \<times> 'w" where
  "shift_loop has mx cur moveRight block n visited w =
     (if block \<in> visited \<or> block < 0 then (moveRight, visited, w)
      else
        (let (ok, w) = has block w
         in if ok then (\<lparr>rgLeft = rgLeft cur, rgRight = wrap64 (block - 1), rgCurrent = block, rgFound = False\<rparr>, visited, w)
            else if n + 1 > mx then (moveRight, visited, w)
            else shift_loop has mx cur moveRight (wrap64 (block - 1)) (n + 1) (insert block visited) w))"
  by pat_completeness auto

termination
  by (relation "measure (\<lambda>(has, mx, cur, mr, block, n, visited, w). nat (mx - n))") auto

definition shiftLeftAndSearch ::
  "LowerBoundSearchCalculator \<Rightarrow> (i64 \<Rightarrow> 'w \<Rightarrow> bool \<times> 'w) \<Rightarrow> boundRange \<Rightarrow> i64 \<Rightarrow> i64 set \<Rightarrow> 'w
     \<Rightarrow> boundRange \<times> i64 set \<times> 'w" where
  "shiftLeftAndSearch c has cur middle visited w =
     shift_loop has (maxOffset c) cur
       \<lparr>rgLeft = wrap64 (middle + 1), rgRight = rgRight cur, rgCurrent = rgCurrent cur, rgFound = False\<rparr>
       (wrap64 (middle - 1)) 0 visited w"

partial_function (option) offset_loop ::
  "LowerBoundSearchCalculator \<Rightarrow> (i64 \<Rightarrow> 'w \<Rightarrow> bool \<times> 'w) \<Rightarrow> boundRange \<Rightarrow> i64 set \<Rightarrow> 'w
     \<Rightarrow> ((string + i64) \<times> 'w) option" where
  "offset_loop c has st visited w =
     (if rgFound st then Some (Inr (rgCurrent st), w)
      else if rgLeft st > rgRight st then
        (case converge c has st w of (r, w) \<Rightarrow>
           (case r of Inl e \<Rightarrow> Some (Inl e, w) | Inr st \<Rightarrow> offset_loop c has st visited w))
      else
        (let middle = rg_middle st in
         case has middle w of (ok, w) \<Rightarrow>
           if ok then
             offset_loop c has
               \<lparr>rgLeft = rgLeft st, rgRight = wrap64 (middle - 1), rgCurrent = middle, rgFound = False\<rparr> visited w
           else if middle < 0 then
             offset_loop c has
               \<lparr>rgLeft = wrap64 (middle + 1), rgRight = rgRight st, rgCurrent = rgCurrent st, rgFound = False\<rparr> visited w
           else
             (case shiftLeftAndSearch c has st middle visited w of (st, visited, w) \<Rightarrow>
                offset_loop c has st visited w)))"

definition detectWithOffset ::
  "LowerBoundSearchCalculator \<Rightarrow> i64 \<Rightarrow> i64 \<Rightarrow> (i64 \<Rightarrow> 'w \<Rightarrow> bool \<times> 'w) \<Rightarrow> 'w \<Rightarrow> ((string + i64) \<times> 'w) option" where
  "detectWithOffset c cached latest has w =
     (if cached > 0 then
        (case has cached w of (ok, w) \<Rightarrow>
           if ok then Some (Inr cached, w) else offset_loop c has (initialRange cached latest) {} w)
      else offset_loop c has (initialRange cached latest) {} w)"

definition lowerBoundResults :: "LowerBoundSearchCalculator \<Rightarrow> i64 \<Rightarrow> i64 \<Rightarrow> LowerBoundData list" where
  "lowerBoundResults c now bound =
     (if allSupportedTypes c = [] then [NewLowerBoundData bound now (MainBoundType c)]
      else map (\<lambda>ty. NewLowerBoundData bound now ty) (allSupportedTypes c))"

definition DetectLowerBound ::
  "'w node \<Rightarrow> LowerBoundSearchCalculator \<Rightarrow> 'w \<Rightarrow> ((string + LowerBoundData list) \<times> LowerBoundSearchCalculator \<times> 'w) option" where
  "DetectLowerBound nd c w =
     (case withRetryLatestHeight c nd w of
        (Inl e, w) \<Rightarrow> Some (Inl (''cannot fetch latest height for upstream '' @ quoted (calcUpstreamId c) @ '': '' @ e), c, w)
      | (Inr latest, w) \<Rightarrow>
          if latest \<le> 0
          then Some (Inl (''upstream '' @ quoted (calcUpstreamId c) @ '' returned non-positive latest height '' @ itoa latest), c, w)
          else
            (case (if maxOffset c > 0 then detectWithOffset c (lastBound c) latest (hasData c nd) w
                   else detectPlain c (lastBound c) latest (hasData c nd) w) of
               None \<Rightarrow> None
             | Some (Inl e, w) \<Rightarrow> Some (Inl e, c, w)
             | Some (Inr bound, w) \<Rightarrow> Some (Inr (lowerBoundResults c (nd_now nd w) bound), c\<lparr>lastBound := bound\<rparr>, w)))"

section \<open>Termination of the search\<close>

declare shift_loop.simps [simp del]
declare plain_loop.simps [code] offset_loop.simps [code]

text \<open>Ranges the search visits when the latest height is below the largest \<open>int64\<close>: no operation wraps.\<close>

definition rg_ok :: "boundRange \<Rightarrow> bool" where
  "rg_ok st \<longleftrightarrow> 0 \<le> rgLeft st \<and> rgLeft st < 2 ^ 63 \<and> -1 \<le> rgRight st \<and> rgRight st < 2 ^ 63 - 1"

definition rg_size :: "boundRange \<Rightarrow> nat" where
  "rg_size st = nat (rgRight st + 1 - rgLeft st)"

lemma rg_middle_eq:
  assumes "rg_ok st" "rgLeft st \<le> rgRight st"
  shows "rg_middle st = rgLeft st + (rgRight st - rgLeft st) div 2"
proof -
  have "wrap64 (rgRight st - rgLeft st) = rgRight st - rgLeft st"
    using assms by (intro wrap64_id) (simp add: in_i64_def rg_ok_def)
  moreover obtain d where d: "(rgRight st - rgLeft st) div 2 = d" "0 \<le> d" "d \<le> rgRight st - rgLeft st"
    using assms(2) by simp
  then have "wrap64 (rgLeft st + d) = rgLeft st + d"
    using assms by (intro wrap64_id) (simp add: in_i64_def rg_ok_def)
  ultimately show ?thesis using assms d by (simp add: rg_middle_def go_quot_nonneg)
qed

lemma rg_middle_between:
  assumes "rg_ok st" "rgLeft st \<le> rgRight st"
  shows "rgLeft st \<le> rg_middle st" "rg_middle st \<le> rgRight st"
  using rg_middle_eq [OF assms] assms(2) by simp_all

lemma wrap64_neighbours:
  assumes "0 \<le> x" "x < 2 ^ 63 - 1"
  shows "wrap64 (x + 1) = x + 1" "wrap64 (x - 1) = x - 1"
  using assms by (simp_all add: wrap64_id in_i64_def)

definition go_left :: "boundRange \<Rightarrow> i64 \<Rightarrow> boundRange" where
  "go_left st b = \<lparr>rgLeft = rgLeft st, rgRight = b - 1, rgCurrent = b, rgFound = False\<rparr>"

definition go_right :: "boundRange \<Rightarrow> i64 \<Rightarrow> boundRange" where
  "go_right st m = \<lparr>rgLeft = m + 1, rgRight = rgRight st, rgCurrent = rgCurrent st, rgFound = False\<rparr>"

lemma rg_ok_steps:
  assumes "rg_ok st" "rgLeft st \<le> rgRight st" "rgLeft st \<le> m" "m \<le> rgRight st" "0 \<le> b" "b \<le> m"
  shows "rg_ok (go_left st b)" "rg_ok (go_right st m)" "\<not> rgFound (go_left st b)" "\<not> rgFound (go_right st m)"
    "rg_size (go_left st b) < rg_size st" "rg_size (go_right st m) < rg_size st"
  using assms by (auto simp: rg_ok_def rg_size_def go_left_def go_right_def)

lemma rg_middle_facts:
  assumes "rg_ok st" "rgLeft st \<le> rgRight st"
  shows "0 \<le> rg_middle st" "rg_middle st < 2 ^ 63 - 1"
  using rg_middle_between [OF assms] assms(1) by (simp_all add: rg_ok_def)

text \<open>The three kinds of turn of a search, with the wrap-around discharged.\<close>

lemma plain_loop_turn:
  assumes "rg_ok st" "\<not> rgFound st" "rgLeft st \<le> rgRight st" "has (rg_middle st) w = (ok, w')"
  shows "plain_loop c has st w =
    plain_loop c has (if ok then go_left st (rg_middle st) else go_right st (rg_middle st)) w'"
  using assms rg_middle_facts [OF assms(1,3)] wrap64_neighbours [of "rg_middle st"]
  by (subst plain_loop.simps) (simp add: go_left_def go_right_def Let_def)

lemma offset_loop_turn:
  assumes "rg_ok st" "\<not> rgFound st" "rgLeft st \<le> rgRight st" "has (rg_middle st) w = (ok, w')"
  shows "offset_loop c has st visited w =
    (if ok then offset_loop c has (go_left st (rg_middle st)) visited w'
     else case shift_loop has (maxOffset c) st (go_right st (rg_middle st)) (rg_middle st - 1) 0 visited w' of
       (st, visited, w) \<Rightarrow> offset_loop c has st visited w)"
  using assms rg_middle_facts [OF assms(1,3)] wrap64_neighbours [of "rg_middle st"]
  by (subst offset_loop.simps)
    (simp add: go_left_def go_right_def Let_def shiftLeftAndSearch_def)

lemma plain_loop_converge:
  assumes "\<not> rgFound st" "rgRight st < rgLeft st"
  shows "plain_loop c has st w =
    (case converge c has st w of (r, w) \<Rightarrow> Some (map_sum id rgCurrent r, w))"
  using assms
  by (subst plain_loop.simps) (auto simp: converge_def Let_def plain_loop.simps split: prod.split)

lemma offset_loop_converge:
  assumes "\<not> rgFound st" "rgRight st < rgLeft st"
  shows "offset_loop c has st visited w =
    (case converge c has st w of (r, w) \<Rightarrow> Some (map_sum id rgCurrent r, w))"
  using assms
  by (subst offset_loop.simps) (auto simp: converge_def Let_def offset_loop.simps split: prod.split)

lemma shift_loop_result:
  "\<exists>b. fst (shift_loop has mx st mr block n visited w) \<in> {mr, go_left st b} \<and> 0 \<le> b \<and> b \<le> max 0 block"
  if "block < 2 ^ 63"
  using that
proof (induction has mx st mr block n visited w rule: shift_loop.induct)
  case (1 has mx cur mr block n visited w)
  show ?case
  proof (cases "block \<in> visited \<or> block < 0")
    case False
    obtain ok w' where h: "has block w = (ok, w')" by (cases "has block w")
    have w: "wrap64 (block - 1) = block - 1"
      using False 1(2) by (intro wrap64_id) (simp add: in_i64_def)
    show ?thesis
    proof (cases "ok \<or> n + 1 > mx")
      case True
      with False h w show ?thesis by (subst shift_loop.simps) (auto simp: go_left_def)
    next
      case more: False
      have "\<exists>b. fst (shift_loop has mx cur mr (block - 1) (n + 1) (insert block visited) w') \<in> {mr, go_left cur b}
          \<and> 0 \<le> b \<and> b \<le> max 0 (block - 1)"
        using 1(1) [OF False, of "(ok, w')" ok w'] more h w 1(2) by auto
      with False more h w show ?thesis by (subst shift_loop.simps) fastforce
    qed
  qed (subst shift_loop.simps, auto)
qed

lemma plain_loop_total: "rg_ok st \<Longrightarrow> \<not> rgFound st \<Longrightarrow> plain_loop c has st w \<noteq> None"
proof (induction "rg_size st" arbitrary: st w rule: less_induct)
  case less
  show ?case
  proof (cases "rgLeft st \<le> rgRight st")
    case True
    obtain ok w' where h: "has (rg_middle st) w = (ok, w')" by (cases "has (rg_middle st) w")
    note mid = rg_middle_between [OF less.prems(1) True] rg_middle_facts [OF less.prems(1) True]
    show ?thesis
      using less.hyps rg_ok_steps [OF less.prems(1) True mid(1,2), of "rg_middle st"] mid
      unfolding plain_loop_turn [where has = has, OF less.prems True h] by (cases ok) auto
  qed (simp add: plain_loop_converge less.prems split: prod.split)
qed

lemma offset_loop_total: "rg_ok st \<Longrightarrow> \<not> rgFound st \<Longrightarrow> offset_loop c has st visited w \<noteq> None"
proof (induction "rg_size st" arbitrary: st visited w rule: less_induct)
  case less
  show ?case
  proof (cases "rgLeft st \<le> rgRight st")
    case True
    obtain ok w' where h: "has (rg_middle st) w = (ok, w')" by (cases "has (rg_middle st) w")
    note mid = rg_middle_between [OF less.prems(1) True] rg_middle_facts [OF less.prems(1) True]
    note steps = rg_ok_steps [OF less.prems(1) True mid(1,2)]
    obtain st' visited' w'' where s:
      "shift_loop has (maxOffset c) st (go_right st (rg_middle st)) (rg_middle st - 1) 0 visited w' = (st', visited', w'')"
      by (metis surj_pair)
    then obtain b where "st' \<in> {go_right st (rg_middle st), go_left st b}" "0 \<le> b" "b \<le> rg_middle st"
      using shift_loop_result [of "rg_middle st - 1" has "maxOffset c" st "go_right st (rg_middle st)" 0 visited w'] mid
      by fastforce
    then show ?thesis
      using less.hyps steps [of b] steps [of "rg_middle st"] mid(3) s
      unfolding offset_loop_turn [where has = has, OF less.prems True h] by (cases ok) auto
  qed (simp add: offset_loop_converge less.prems split: prod.split)
qed

section \<open>What the search finds\<close>

text \<open>A node that answers every probe by the same predicate.\<close>

definition answers :: "(i64 \<Rightarrow> 'w \<Rightarrow> bool \<times> 'w) \<Rightarrow> (i64 \<Rightarrow> bool) \<Rightarrow> bool" where
  "answers has P \<longleftrightarrow> (\<forall>h w. fst (has h w) = P h)"

text \<open>\<open>L\<close> is the first block the node has, and above it at most \<open>gap\<close> consecutive blocks are missing below
  any missing block before one with data comes.\<close>

definition lower_edge :: "(i64 \<Rightarrow> bool) \<Rightarrow> i64 \<Rightarrow> i64 \<Rightarrow> int \<Rightarrow> bool" where
  "lower_edge P L latest gap \<longleftrightarrow>
     0 \<le> L \<and> L \<le> latest \<and> P L \<and> (\<forall>h. 0 \<le> h \<and> h < L \<longrightarrow> \<not> P h) \<and> (L = 0 \<longrightarrow> P 1)
     \<and> (\<forall>h. L < h \<and> h \<le> latest \<and> \<not> P h \<longrightarrow> (\<exists>k. h - gap \<le> k \<and> k < h \<and> L \<le> k \<and> P k))"

definition search_inv :: "(i64 \<Rightarrow> bool) \<Rightarrow> i64 \<Rightarrow> i64 \<Rightarrow> boundRange \<Rightarrow> bool" where
  "search_inv P L latest st \<longleftrightarrow>
     rg_ok st \<and> \<not> rgFound st \<and> rgLeft st \<le> L \<and> rgRight st \<le> latest
     \<and> ((rgCurrent st = rgRight st + 1 \<and> P (rgRight st + 1) \<and> L \<le> rgRight st + 1)
        \<or> (rgRight st = latest \<and> rgCurrent st = 0))"

lemma lower_edgeD:
  assumes "lower_edge P L latest gap"
  shows "0 \<le> L" "L \<le> latest" "P L" "L = 0 \<Longrightarrow> P 1" "0 \<le> h \<Longrightarrow> h < L \<Longrightarrow> \<not> P h"
    "L < h \<Longrightarrow> h \<le> latest \<Longrightarrow> \<not> P h \<Longrightarrow> \<exists>k. h - gap \<le> k \<and> k < h \<and> L \<le> k \<and> P k"
  using assms unfolding lower_edge_def by blast+

lemma lower_edge_gapless:
  assumes "lower_edge P L latest 0" "0 \<le> h" "h \<le> latest"
  shows "P h \<longleftrightarrow> L \<le> h"
proof (cases h L rule: linorder_cases)
  case greater
  then show ?thesis using lower_edgeD(6) [OF assms(1) greater assms(3)] by fastforce
qed (use lower_edgeD [OF assms(1)] assms(2) in auto)

lemma answers_has:
  assumes "answers has P"
  shows "\<exists>w'. has h w = (P h, w')"
proof -
  have "fst (has h w) = P h" using assms unfolding answers_def by blast
  then show ?thesis by (cases "has h w") simp
qed

lemma search_inv_converge:
  assumes "search_inv P L latest st" "lower_edge P L latest gap" "answers has P" "rgRight st < rgLeft st"
  shows "\<exists>w'. converge c has st w = (Inr \<lparr>rgLeft = 0, rgRight = 0, rgCurrent = max 1 L, rgFound = True\<rparr>, w')"
proof -
  note edge = lower_edgeD [OF assms(2)]
  have L: "rgCurrent st = L" using assms(1,4) edge(1,2) by (auto simp: search_inv_def)
  have "P (max 1 L)" using edge(1,3,4) by (cases "L = 0") simp_all
  then obtain w' where "has (max 1 L) w = (True, w')" using answers_has [OF assms(3), of "max 1 L" w] by auto
  moreover have "(if rgCurrent st = 0 then 1 else rgCurrent st) = max 1 L" using L edge(1) by simp
  ultimately show ?thesis by (simp add: converge_def)
qed

lemma search_inv_steps:
  assumes "search_inv P L latest st" "lower_edge P L latest gap" "rgLeft st \<le> rgRight st"
    and m: "rgLeft st \<le> m" "m \<le> rgRight st"
  shows "P b \<Longrightarrow> L \<le> b \<Longrightarrow> b \<le> m \<Longrightarrow> search_inv P L latest (go_left st b)"
    and "m < L \<Longrightarrow> search_inv P L latest (go_right st m)"
  using assms(1,3) m lower_edgeD(1) [OF assms(2)]
  by (auto simp: search_inv_def go_left_def go_right_def rg_ok_def)

lemma plain_loop_finds:
  assumes "answers has P" "lower_edge P L latest 0" "search_inv P L latest st"
  shows "\<exists>w'. plain_loop c has st w = Some (Inr (max 1 L), w')"
  using assms(3)
proof (induction "rg_size st" arbitrary: st w rule: less_induct)
  case less
  then have ok: "rg_ok st" "\<not> rgFound st" by (simp_all add: search_inv_def)
  show ?case
  proof (cases "rgLeft st \<le> rgRight st")
    case True
    note mid = rg_middle_between [OF ok(1) True] rg_middle_facts [OF ok(1) True]
    obtain w' where h: "has (rg_middle st) w = (P (rg_middle st), w')" using answers_has [OF assms(1)] by blast
    let ?st = "if P (rg_middle st) then go_left st (rg_middle st) else go_right st (rg_middle st)"
    have "rg_middle st \<le> latest" using mid(2) less.prems by (simp add: search_inv_def)
    then have "P (rg_middle st) \<longleftrightarrow> L \<le> rg_middle st"
      using lower_edge_gapless [OF assms(2)] mid(3) by simp
    then have "search_inv P L latest ?st"
      using search_inv_steps [OF less.prems assms(2) True mid(1,2)] by auto
    moreover have "rg_size ?st < rg_size st"
      using rg_ok_steps [OF ok(1) True mid(1,2,3)] by auto
    ultimately show ?thesis
      using less.hyps unfolding plain_loop_turn [where has = has, OF ok True h] by blast
  next
    case False
    then obtain w' where "converge c has st w =
        (Inr \<lparr>rgLeft = 0, rgRight = 0, rgCurrent = max 1 L, rgFound = True\<rparr>, w')"
      using search_inv_converge [OF less.prems assms(2,1), of c w] by auto
    with False ok show ?thesis by (simp add: plain_loop_converge)
  qed
qed

text \<open>A scan that starts below the edge finds nothing; a scan that starts above it stops at the first
  block with data, if that is near enough and not yet visited.\<close>

lemma shift_loop_below:
  assumes "answers has P" "\<forall>h. 0 \<le> h \<and> h < L \<longrightarrow> \<not> P h" "block < L" "L < 2 ^ 63"
  shows "\<exists>visited' w'. shift_loop has mx st mr block n visited w = (mr, visited', w')
    \<and> visited' \<subseteq> visited \<union> {b. b < L}"
  using assms
proof (induction has mx st mr block n visited w rule: shift_loop.induct)
  case (1 has mx st mr block n visited w)
  obtain w' where h: "has block w = (P block, w')" using answers_has [OF 1(2)] by blast
  show ?case
  proof (cases "block \<in> visited \<or> block < 0 \<or> n + 1 > mx")
    case True
    with h 1(3,4) show ?thesis by (subst shift_loop.simps) auto
  next
    case False
    have w: "wrap64 (block - 1) = block - 1" using False 1(4,5) by (intro wrap64_id) (simp add: in_i64_def)
    have no: "\<not> P block" using 1(3,4) False by auto
    have "\<exists>visited' w''. shift_loop has mx st mr (block - 1) (n + 1) (insert block visited) w' = (mr, visited', w'')
        \<and> visited' \<subseteq> insert block visited \<union> {b. b < L}"
      using 1(1) [of "(P block, w')" "P block" w'] 1(2-5) False h w no by auto
    with False h w no 1(4) show ?thesis by (subst shift_loop.simps) auto
  qed
qed

lemma shift_loop_above:
  assumes "answers has P" "P k" "0 \<le> k" "\<forall>b. k < b \<and> b \<le> block \<longrightarrow> \<not> P b" "k \<le> block" "block < 2 ^ 63"
    and "n + (block - k) \<le> mx" "\<forall>b \<in> visited. b < k \<or> block < b"
  shows "\<exists>visited' w'. shift_loop has mx st mr block n visited w = (go_left st k, visited', w')
    \<and> visited' \<subseteq> visited \<union> {b. k < b}"
  using assms
proof (induction has mx st mr block n visited w rule: shift_loop.induct)
  case (1 has mx st mr block n visited w)
  obtain w' where h: "has block w = (P block, w')" using answers_has [OF 1(2)] by blast
  have vis: "block \<notin> visited" "\<not> block < 0" using 1(4,6,9) by auto
  have w: "wrap64 (block - 1) = block - 1" using vis 1(7) by (intro wrap64_id) (simp add: in_i64_def)
  show ?case
  proof (cases "block = k")
    case True
    with h vis w 1(3) show ?thesis by (subst shift_loop.simps) (auto simp: go_left_def)
  next
    case False
    have no: "\<not> P block" using 1(5,6) False by auto
    have vis': "\<forall>b \<in> visited. b < k \<or> block - 1 < b" using 1(9) by fastforce
    obtain visited' w'' where s: "shift_loop has mx st mr (block - 1) (n + 1) (insert block visited) w' = (go_left st k, visited', w'')"
      and sub: "visited' \<subseteq> insert block visited \<union> {b. k < b}"
      using 1(1) [of "(P block, w')" "P block" w'] 1(2-9) False h w no vis vis' by auto
    have "visited' \<subseteq> visited \<union> {b. k < b}" using sub 1(6) False by auto
    moreover have "\<not> n + 1 > mx" using 1(6,8) False by simp
    ultimately show ?thesis using s h w no vis by (subst shift_loop.simps) auto
  qed
qed

lemma nearest_data_below:
  assumes "lower_edge P L latest gap" "L < m" "m \<le> latest" "\<not> P m"
  obtains k where "L \<le> k" "k < m" "P k" "m - gap \<le> k" "\<forall>b. k < b \<and> b \<le> m - 1 \<longrightarrow> \<not> P b"
proof -
  let ?S = "{L..<m} \<inter> Collect P"
  obtain k0 where k0: "m - gap \<le> k0" "k0 \<in> ?S" using lower_edgeD(6) [OF assms] by auto
  have fin: "finite ?S" by simp
  then have "Max ?S \<in> ?S" using k0(2) by (intro Max_in) auto
  moreover have le: "\<forall>k \<in> ?S. k \<le> Max ?S" using fin by simp
  moreover have "\<forall>b. Max ?S < b \<and> b \<le> m - 1 \<longrightarrow> \<not> P b"
  proof (intro allI impI notI)
    fix b
    assume b: "Max ?S < b \<and> b \<le> m - 1" "P b"
    with \<open>Max ?S \<in> ?S\<close> have "b \<in> ?S" by simp
    with le have "b \<le> Max ?S" by blast
    with b(1) show False by simp
  qed
  moreover have "m - gap \<le> Max ?S" using k0(1) bspec [OF le k0(2)] by linarith
  ultimately show ?thesis using that [of "Max ?S"] by simp
qed

lemma offset_loop_finds:
  assumes "answers has P" "lower_edge P L latest (maxOffset c + 1)" "search_inv P L latest st"
    and "\<forall>b \<in> visited. b < L \<or> rgRight st < b" "latest < 2 ^ 63 - 1"
  shows "\<exists>w'. offset_loop c has st visited w = Some (Inr (max 1 L), w')"
  using assms(3,4)
proof (induction "rg_size st" arbitrary: st visited w rule: less_induct)
  case less
  then have ok: "rg_ok st" "\<not> rgFound st" by (simp_all add: search_inv_def)
  note edge = lower_edgeD [OF assms(2)]
  show ?case
  proof (cases "rgLeft st \<le> rgRight st")
    case True
    let ?m = "rg_middle st"
    note mid = rg_middle_between [OF ok(1) True] rg_middle_facts [OF ok(1) True]
    note inv = search_inv_steps [OF less.prems(1) assms(2) True mid(1,2)]
    note small = rg_ok_steps(5,6) [OF ok(1) True mid(1,2)]
    have latest: "?m \<le> latest" using mid(2) less.prems by (simp add: search_inv_def)
    obtain w' where h: "has ?m w = (P ?m, w')" using answers_has [OF assms(1)] by blast
    note turn = offset_loop_turn [where has = has, OF ok True h]
    show ?thesis
    proof (cases "P ?m")
      case yes: True
      then have "L \<le> ?m" using edge(5) [of ?m] mid(3) by (cases "?m < L") auto
      moreover have "\<forall>b \<in> visited. b < L \<or> rgRight (go_left st ?m) < b"
        using less.prems(2) mid(2) by (fastforce simp: go_left_def)
      ultimately show ?thesis
        using less.hyps [OF small(1) inv(1), of ?m visited w'] yes turn mid(3) by auto
    next
      case no: False
      show ?thesis
      proof (cases "?m < L")
        case True
        then obtain visited' w'' where s:
          "shift_loop has (maxOffset c) st (go_right st ?m) (?m - 1) 0 visited w' = (go_right st ?m, visited', w'')"
          "visited' \<subseteq> visited \<union> {b. b < L}"
          using shift_loop_below [OF assms(1), of L "?m - 1" "maxOffset c" st "go_right st ?m" 0 visited w']
            edge(2,5) assms(5) by auto
        then have "\<forall>b \<in> visited'. b < L \<or> rgRight (go_right st ?m) < b"
          using less.prems(2) by (auto simp: go_right_def)
        with less.hyps [OF small(2) inv(2) [OF True], of ?m visited' w''] s no turn mid(3) show ?thesis by auto
      next
        case False
        with no edge(3) have "L < ?m" by (cases "?m = L") auto
        then obtain k where k: "L \<le> k" "k < ?m" "P k" "?m - (maxOffset c + 1) \<le> k" "\<forall>b. k < b \<and> b \<le> ?m - 1 \<longrightarrow> \<not> P b"
          using nearest_data_below [OF assms(2) _ latest no] by metis
        have "\<forall>b \<in> visited. b < k \<or> ?m - 1 < b" using less.prems(2) k(1) mid(2) by fastforce
        then obtain visited' w'' where s:
          "shift_loop has (maxOffset c) st (go_right st ?m) (?m - 1) 0 visited w' = (go_left st k, visited', w'')"
          "visited' \<subseteq> visited \<union> {b. k < b}"
          using shift_loop_above [OF assms(1) k(3) _ k(5), of 0 "maxOffset c" visited st "go_right st ?m" w']
            k(1,2,4) edge(1) mid(4) by auto
        then have "\<forall>b \<in> visited'. b < L \<or> rgRight (go_left st k) < b"
          using less.prems(2) k(2) mid(2) by (fastforce simp: go_left_def)
        moreover have "rg_size (go_left st k) < rg_size st" "search_inv P L latest (go_left st k)"
          using small(1) [of k] inv(1) [OF k(3,1)] k(1,2) edge(1) by simp_all
        ultimately show ?thesis using less.hyps [of "go_left st k" visited' w''] s no turn by simp
      qed
    qed
  next
    case False
    then obtain w' where "converge c has st w =
        (Inr \<lparr>rgLeft = 0, rgRight = 0, rgCurrent = max 1 L, rgFound = True\<rparr>, w')"
      using search_inv_converge [OF less.prems(1) assms(2,1), of c w] by auto
    with False ok show ?thesis by (simp add: offset_loop_converge)
  qed
qed

text \<open>Whatever the shape of the data: a reported bound was seen to have data, or it is the floor 1 of a
  chain that is short or has its genesis block.\<close>

definition sound_inv :: "(i64 \<Rightarrow> bool) \<Rightarrow> i64 \<Rightarrow> boundRange \<Rightarrow> bool" where
  "sound_inv P latest st \<longleftrightarrow> P (rgCurrent st) \<or> (rgCurrent st = 0 \<and> rgRight st = latest)"

definition reportable :: "(i64 \<Rightarrow> bool) \<Rightarrow> i64 \<Rightarrow> i64 \<Rightarrow> bool" where
  "reportable P latest b \<longleftrightarrow> P b \<or> (b = 1 \<and> (P 0 \<or> latest \<le> 10))"

lemma converge_sound:
  assumes "answers has P" "sound_inv P latest st" "converge c has st w = (Inr st', w')"
  shows "reportable P latest (rgCurrent st')"
proof -
  obtain w'' where "has (if rgCurrent st = 0 then 1 else rgCurrent st) w
      = (P (if rgCurrent st = 0 then 1 else rgCurrent st), w'')"
    using answers_has [OF assms(1)] by blast
  with assms(2,3) show ?thesis
    by (auto simp: converge_def sound_inv_def reportable_def Let_def split: if_splits)
qed

lemma plain_loop_sound:
  assumes "answers has P" "rg_ok st" "\<not> rgFound st" "sound_inv P latest st" "plain_loop c has st w = Some (Inr b, w')"
  shows "reportable P latest b"
  using assms(2-)
proof (induction "rg_size st" arbitrary: st w rule: less_induct)
  case less
  show ?case
  proof (cases "rgLeft st \<le> rgRight st")
    case True
    obtain w'' where h: "has (rg_middle st) w = (P (rg_middle st), w'')" using answers_has [OF assms(1)] by blast
    let ?st = "if P (rg_middle st) then go_left st (rg_middle st) else go_right st (rg_middle st)"
    have "rg_ok ?st" "\<not> rgFound ?st" "rg_size ?st < rg_size st"
      using rg_ok_steps [OF less.prems(1) True rg_middle_between [OF less.prems(1) True] rg_middle_facts(1) [OF less.prems(1) True]]
      by auto
    moreover have "sound_inv P latest ?st"
      using less.prems(3) by (auto simp: sound_inv_def go_left_def go_right_def)
    ultimately show ?thesis
      using less.hyps less.prems(4) unfolding plain_loop_turn [where has = has, OF less.prems(1,2) True h] by blast
  next
    case False
    with less.prems converge_sound [OF assms(1) less.prems(3)] show ?thesis
      by (auto simp: plain_loop_converge split: prod.splits) (metis Inr_Inl_False map_sum.simps sum.exhaust sum.inject(2))
  qed
qed

lemma shift_loop_sound:
  assumes "answers has P" "block < 2 ^ 63"
  shows "\<exists>b. fst (shift_loop has mx st mr block n visited w) = mr
    \<or> (fst (shift_loop has mx st mr block n visited w) = go_left st b \<and> P b)"
  using assms
proof (induction has mx st mr block n visited w rule: shift_loop.induct)
  case (1 has mx st mr block n visited w)
  obtain w' where h: "has block w = (P block, w')" using answers_has [OF 1(2)] by blast
  show ?case
  proof (cases "block \<in> visited \<or> block < 0")
    case False
    have w: "wrap64 (block - 1) = block - 1" using False 1(3) by (intro wrap64_id) (simp add: in_i64_def)
    show ?thesis
    proof (cases "P block \<or> n + 1 > mx")
      case True
      with False h w show ?thesis by (subst (1 2) shift_loop.simps) (auto simp: go_left_def)
    next
      case more: False
      then have "shift_loop has mx st mr block n visited w =
          shift_loop has mx st mr (block - 1) (n + 1) (insert block visited) w'"
        using False h w by (subst shift_loop.simps) simp
      with 1(1) [OF False, of "(P block, w')" "P block" w'] more h w 1(2,3) show ?thesis by auto
    qed
  qed (subst (1 2) shift_loop.simps, auto)
qed

lemma offset_loop_sound:
  assumes "answers has P" "rg_ok st" "\<not> rgFound st" "sound_inv P latest st" "offset_loop c has st visited w = Some (Inr b, w')"
  shows "reportable P latest b"
  using assms(2-)
proof (induction "rg_size st" arbitrary: st visited w rule: less_induct)
  case less
  show ?case
  proof (cases "rgLeft st \<le> rgRight st")
    case True
    let ?m = "rg_middle st"
    note mid = rg_middle_between [OF less.prems(1) True] rg_middle_facts [OF less.prems(1) True]
    obtain w'' where h: "has ?m w = (P ?m, w'')" using answers_has [OF assms(1)] by blast
    obtain st' visited' w3 where s: "shift_loop has (maxOffset c) st (go_right st ?m) (?m - 1) 0 visited w'' = (st', visited', w3)"
      by (metis surj_pair)
    have st': "rg_ok st' \<and> \<not> rgFound st' \<and> rg_size st' < rg_size st"
      using shift_loop_result [of "?m - 1" has "maxOffset c" st "go_right st ?m" 0 visited w''] s mid
        rg_ok_steps [OF less.prems(1) True mid(1,2)] by fastforce
    have "sound_inv P latest st'"
      using shift_loop_sound [OF assms(1), of "?m - 1" "maxOffset c" st "go_right st ?m" 0 visited w''] s mid(4) less.prems(3)
      by (auto simp: sound_inv_def go_left_def go_right_def)
    moreover have "sound_inv P latest (go_left st ?m)" if "P ?m"
      using that by (simp add: sound_inv_def go_left_def)
    moreover have "rg_ok (go_left st ?m) \<and> \<not> rgFound (go_left st ?m) \<and> rg_size (go_left st ?m) < rg_size st"
      using rg_ok_steps [OF less.prems(1) True mid(1,2,3)] by auto
    ultimately show ?thesis
      using less.hyps [of st' visited' w3] less.hyps [of "go_left st ?m" visited w''] st' less.prems(4) s
      unfolding offset_loop_turn [where has = has, OF less.prems(1,2) True h] by (auto split: if_splits)
  next
    case False
    with less.prems converge_sound [OF assms(1) less.prems(3)] show ?thesis
      by (auto simp: offset_loop_converge split: prod.splits) (metis Inr_Inl_False map_sum.simps sum.exhaust sum.inject(2))
  qed
qed

text \<open>At the largest \<open>int64\<close> the search never ends on a node without data: the left end wraps around and the
  range never becomes empty.\<close>

lemma plain_loop_endless:
  assumes "\<And>h w. fst (has h w) = False" "rgRight st = 2 ^ 63 - 1" "in_i64 (rgLeft st)" "\<not> rgFound st"
  shows "plain_loop c has st w = None"
proof -
  let ?Q = "\<lambda>c has st w y. (\<forall>h w. fst (has h w) = False) \<longrightarrow> rgRight st = 2 ^ 63 - 1 \<longrightarrow> in_i64 (rgLeft st)
    \<longrightarrow> \<not> rgFound st \<longrightarrow> False"
  have "?Q c has st w y" if "plain_loop c has st w = Some y" for y
    using that
  proof (rule plain_loop.raw_induct [where P = ?Q, rotated], goal_cases)
    case (1 loop c has st w y)
    show ?case
    proof (intro impI)
      assume a: "\<forall>h w. fst (has h w) = False" "rgRight st = 2 ^ 63 - 1" "in_i64 (rgLeft st)" "\<not> rgFound st"
      then have "\<not> rgRight st < rgLeft st" by (simp add: in_i64_def)
      moreover obtain w' where "has (rg_middle st) w = (False, w')"
        using a(1) by (metis prod.collapse)
      ultimately have "loop c has \<lparr>rgLeft = wrap64 (rg_middle st + 1), rgRight = rgRight st,
          rgCurrent = rgCurrent st, rgFound = False\<rparr> w' = Some y"
        using 1(2) a(4) by (simp add: Let_def)
      from 1(1) [OF this] a show False by simp
    qed
  qed
  then show ?thesis using assms by (cases "plain_loop c has st w") auto
qed

section \<open>The window of bounds\<close>

text \<open>Floating-point arithmetic, rounding to \<open>int64\<close> and the slope the regression library fits are
  parameters.\<close>

record 'f float_ops =
  fl_of_int :: "int \<Rightarrow> 'f"
  fl_add :: "'f \<Rightarrow> 'f \<Rightarrow> 'f"
  fl_sub :: "'f \<Rightarrow> 'f \<Rightarrow> 'f"
  fl_mul :: "'f \<Rightarrow> 'f \<Rightarrow> 'f"
  fl_round :: "'f \<Rightarrow> i64"
  fl_slope :: "('f \<times> 'f) list \<Rightarrow> 'f option"

record 'f LowerBoundCoeffs =
  coeffBounds :: "LowerBoundData list"
  coeffK :: 'f
  coeffB :: 'f

record 'f LowerBounds =
  averageSpeed :: 'f
  lbCoeffs :: "(LowerBoundType, 'f LowerBoundCoeffs) gomap"

definition maxBounds :: nat where "maxBounds = 3"

definition NewLowerBounds :: "'f \<Rightarrow> 'f LowerBounds" where
  "NewLowerBounds speed = \<lparr>averageSpeed = speed, lbCoeffs = []\<rparr>"

definition calculateB :: "'f float_ops \<Rightarrow> 'f \<Rightarrow> LowerBoundData \<Rightarrow> 'f" where
  "calculateB ops speed d = fl_sub ops (fl_of_int ops (Bound d)) (fl_mul ops speed (fl_of_int ops (Timestamp d)))"

definition addBound :: "LowerBoundData \<Rightarrow> 'f LowerBoundCoeffs \<Rightarrow> 'f LowerBoundCoeffs" where
  "addBound d co = co\<lparr>coeffBounds := coeffBounds co @ [d]\<rparr>"

definition updateCoeffs :: "'f \<Rightarrow> 'f \<Rightarrow> 'f LowerBoundCoeffs \<Rightarrow> 'f LowerBoundCoeffs" where
  "updateCoeffs k b co = co\<lparr>coeffK := k, coeffB := b\<rparr>"

definition getLastBound :: "'f LowerBoundCoeffs \<Rightarrow> LowerBoundData option" where
  "getLastBound co = (if coeffBounds co = [] then None else Some (last (coeffBounds co)))"

definition train :: "'f float_ops \<Rightarrow> 'f \<Rightarrow> 'f LowerBoundCoeffs \<Rightarrow> 'f LowerBoundCoeffs option" where
  "train ops speed co =
     map_option (\<lambda>lst.
       (case fl_slope ops (map (\<lambda>d. (fl_of_int ops (Bound d), fl_of_int ops (Timestamp d))) (coeffBounds co)) of
          None \<Rightarrow> updateCoeffs speed (calculateB ops speed lst) co
        | Some k \<Rightarrow> updateCoeffs k (calculateB ops k lst) co)) (getLastBound co)"

definition initBound :: "'f float_ops \<Rightarrow> LowerBoundData \<Rightarrow> 'f LowerBounds \<Rightarrow> 'f LowerBounds" where
  "initBound ops d lb =
     (let k = (if Bound d = 1 then fl_of_int ops 0 else averageSpeed lb);
          b = (if Bound d = 1 then fl_of_int ops 1 else calculateB ops (averageSpeed lb) d)
      in lb\<lparr>lbCoeffs := AList.update (boundType d) \<lparr>coeffBounds = [d], coeffK = k, coeffB = b\<rparr> (lbCoeffs lb)\<rparr>)"

definition resetBound :: "LowerBoundData \<Rightarrow> 'f \<Rightarrow> 'f \<Rightarrow> 'f LowerBoundCoeffs \<Rightarrow> 'f LowerBoundCoeffs" where
  "resetBound d a b co = addBound d ((updateCoeffs a b co)\<lparr>coeffBounds := []\<rparr>)"

definition appendBound :: "LowerBoundData \<Rightarrow> 'f LowerBoundCoeffs \<Rightarrow> 'f LowerBoundCoeffs" where
  "appendBound d co =
     addBound d (if length (coeffBounds co) = maxBounds then co\<lparr>coeffBounds := tl (coeffBounds co)\<rparr> else co)"

text \<open>\<open>None\<close> is an index panic of \<open>getLastBound\<close>.\<close>

definition UpdateBound :: "'f float_ops \<Rightarrow> LowerBoundData \<Rightarrow> 'f LowerBounds \<Rightarrow> 'f LowerBounds option" where
  "UpdateBound ops d lb =
     (case map_of (lbCoeffs lb) (boundType d) of
        None \<Rightarrow> Some (initBound ops d lb)
      | Some co \<Rightarrow>
          (case getLastBound co of
             None \<Rightarrow> None
           | Some lst \<Rightarrow>
               if Timestamp d = Timestamp lst then Some lb
               else
                 map_option (\<lambda>co. lb\<lparr>lbCoeffs := AList.update (boundType d) co (lbCoeffs lb)\<rparr>)
                   (if Bound d = 1 then Some (resetBound d (fl_of_int ops 0) (fl_of_int ops 1) co)
                    else if Bound d < Bound lst \<or> wrap64 (Bound d - Bound lst) \<ge> 100000
                      then Some (resetBound d (averageSpeed lb) (calculateB ops (averageSpeed lb) d) co)
                    else
                      (let co = appendBound d co
                       in if length (coeffBounds co) < maxBounds
                          then Some (updateCoeffs (averageSpeed lb) (calculateB ops (averageSpeed lb) d) co)
                          else train ops (averageSpeed lb) co))))"

definition PredictNextBoundAtSpecificTime :: "'f float_ops \<Rightarrow> 'f LowerBounds \<Rightarrow> LowerBoundType \<Rightarrow> i64 \<Rightarrow> i64" where
  "PredictNextBoundAtSpecificTime ops lb ty t =
     (case map_of (lbCoeffs lb) ty of
        None \<Rightarrow> 0
      | Some co \<Rightarrow> fl_round ops (fl_add ops (fl_mul ops (coeffK co) (fl_of_int ops t)) (coeffB co)))"

definition PredictNextBound :: "'f float_ops \<Rightarrow> i64 \<Rightarrow> 'f LowerBounds \<Rightarrow> LowerBoundType \<Rightarrow> i64 \<Rightarrow> i64" where
  "PredictNextBound ops now lb ty off = PredictNextBoundAtSpecificTime ops lb ty (wrap64 (now + off))"

definition GetLastBound :: "'f LowerBounds \<Rightarrow> LowerBoundType \<Rightarrow> LowerBoundData option option" where
  "GetLastBound lb ty = (case map_of (lbCoeffs lb) ty of None \<Rightarrow> Some None | Some co \<Rightarrow> map_option Some (getLastBound co))"

text \<open>\<open>processBounds\<close>: the bounds of one detection, in order; the second component is what is published.\<close>

fun processBounds ::
  "'f float_ops \<Rightarrow> LowerBoundData list \<Rightarrow> 'f LowerBounds \<Rightarrow> ('f LowerBounds \<times> LowerBoundData list) option" where
  "processBounds ops [] lb = Some (lb, [])"
| "processBounds ops (d # ds) lb =
     (case GetLastBound lb (boundType d) of
        None \<Rightarrow> None
      | Some lst \<Rightarrow>
          (let bound = (case lst of None \<Rightarrow> 0 | Some l \<Rightarrow> Bound l)
           in if Bound d \<ge> bound \<or> Bound d = 1
              then Option.bind (UpdateBound ops d lb) (\<lambda>lb.
                map_option (\<lambda>(lb, ps). (lb, d # ps)) (processBounds ops ds lb))
              else processBounds ops ds lb))"

text \<open>The window of one type: between one and three bounds of that type that do not decrease, and a line
  through the newest of them.\<close>

definition window_ok :: "'f float_ops \<Rightarrow> LowerBoundType \<Rightarrow> 'f LowerBoundCoeffs \<Rightarrow> bool" where
  "window_ok ops ty co \<longleftrightarrow>
     (let bs = coeffBounds co in
      bs \<noteq> [] \<and> length bs \<le> maxBounds \<and> sorted (map Bound bs) \<and> list_all (\<lambda>d. boundType d = ty) bs
      \<and> ((Bound (last bs) = 1 \<and> coeffK co = fl_of_int ops 0 \<and> coeffB co = fl_of_int ops 1)
         \<or> coeffB co = calculateB ops (coeffK co) (last bs)))"

definition windows_ok :: "'f float_ops \<Rightarrow> 'f LowerBounds \<Rightarrow> bool" where
  "windows_ok ops lb \<longleftrightarrow> (\<forall>ty co. map_of (lbCoeffs lb) ty = Some co \<longrightarrow> window_ok ops ty co)"

lemmas coeff_defs = addBound_def updateCoeffs_def resetBound_def appendBound_def maxBounds_def

lemma window_reset:
  "window_ok ops (boundType d) (resetBound d k (calculateB ops k d) co)"
  "Bound d = 1 \<Longrightarrow> window_ok ops (boundType d) (resetBound d (fl_of_int ops 0) (fl_of_int ops 1) co)"
  by (simp_all add: window_ok_def coeff_defs)

lemma window_append:
  assumes "window_ok ops (boundType d) co" "Bound (last (coeffBounds co)) \<le> Bound d"
  shows "coeffBounds (appendBound d co) \<noteq> [] \<and> length (coeffBounds (appendBound d co)) \<le> maxBounds
    \<and> sorted (map Bound (coeffBounds (appendBound d co)))
    \<and> list_all (\<lambda>e. boundType e = boundType d) (coeffBounds (appendBound d co))
    \<and> last (coeffBounds (appendBound d co)) = d"
proof -
  have "\<forall>e \<in> set (coeffBounds co). Bound e \<le> Bound d"
    using assms by (cases "coeffBounds co" rule: rev_cases) (auto simp: window_ok_def Let_def sorted_append)
  with assms(1) show ?thesis
    by (cases "coeffBounds co") (auto simp: window_ok_def coeff_defs Let_def sorted_append list_all_iff)
qed

lemma window_train:
  assumes "train ops speed co = Some co'" "coeffBounds co \<noteq> []"
  shows "coeffBounds co' = coeffBounds co \<and> coeffB co' = calculateB ops (coeffK co') (last (coeffBounds co))"
  using assms by (auto simp: train_def getLastBound_def updateCoeffs_def split: option.splits)

lemma UpdateBound_ok:
  assumes "windows_ok ops lb"
  shows "\<exists>lb'. UpdateBound ops d lb = Some lb' \<and> windows_ok ops lb' \<and> averageSpeed lb' = averageSpeed lb"
proof (cases "map_of (lbCoeffs lb) (boundType d)")
  case None
  with assms show ?thesis
    by (auto simp: UpdateBound_def initBound_def windows_ok_def window_ok_def Let_def maxBounds_def)
next
  case (Some co)
  with assms have w: "window_ok ops (boundType d) co" by (simp add: windows_ok_def)
  then have lst: "getLastBound co = Some (last (coeffBounds co))" by (simp add: getLastBound_def window_ok_def Let_def)
  let ?l = "last (coeffBounds co)" and ?app = "appendBound d co"
  have put: "windows_ok ops (lb\<lparr>lbCoeffs := AList.update (boundType d) co' (lbCoeffs lb)\<rparr>)"
    if "window_ok ops (boundType d) co'" for co'
    using assms that by (simp add: windows_ok_def)
  consider (same) "Timestamp d = Timestamp ?l" | (one) "Timestamp d \<noteq> Timestamp ?l" "Bound d = 1"
    | (reset) "Timestamp d \<noteq> Timestamp ?l" "Bound d \<noteq> 1" "Bound d < Bound ?l \<or> wrap64 (Bound d - Bound ?l) \<ge> 100000"
    | (app) "Timestamp d \<noteq> Timestamp ?l" "Bound d \<noteq> 1" "\<not> (Bound d < Bound ?l \<or> wrap64 (Bound d - Bound ?l) \<ge> 100000)"
    by blast
  then show ?thesis
  proof cases
    case same
    with Some lst assms show ?thesis by (simp add: UpdateBound_def)
  next
    case one
    with Some lst put [OF window_reset(2)] show ?thesis by (simp add: UpdateBound_def)
  next
    case reset
    with Some lst put [OF window_reset(1)] show ?thesis by (simp add: UpdateBound_def)
  next
    case app
    note a = window_append [OF w]
    have ne: "coeffBounds ?app \<noteq> []" by (simp add: appendBound_def addBound_def)
    then obtain co' where t: "train ops (averageSpeed lb) ?app = Some co'" by (auto simp: train_def getLastBound_def)
    have "window_ok ops (boundType d) (updateCoeffs (averageSpeed lb) (calculateB ops (averageSpeed lb) d) ?app)"
      and "window_ok ops (boundType d) co'"
      using a app(3) window_train [OF t ne] by (simp_all add: window_ok_def Let_def updateCoeffs_def)
    with app Some lst put t show ?thesis by (simp add: UpdateBound_def Let_def)
  qed
qed

lemma processBounds_ok:
  "windows_ok ops lb \<Longrightarrow> \<exists>lb' ps. processBounds ops ds lb = Some (lb', ps) \<and> windows_ok ops lb'"
proof (induction ds arbitrary: lb)
  case (Cons d ds)
  obtain lst where g: "GetLastBound lb (boundType d) = Some lst"
    using Cons.prems by (fastforce simp: GetLastBound_def windows_ok_def window_ok_def getLastBound_def Let_def split: option.split)
  obtain lb1 where u: "UpdateBound ops d lb = Some lb1" "windows_ok ops lb1" using UpdateBound_ok [OF Cons.prems] by blast
  from Cons.IH [OF u(2)] Cons.IH [OF Cons.prems] g u(1) show ?case by (auto simp: Let_def)
qed simp

text \<open>Several detections, one after the other.\<close>

fun detections :: "'f float_ops \<Rightarrow> LowerBoundData list list \<Rightarrow> 'f LowerBounds \<Rightarrow> 'f LowerBounds option" where
  "detections ops [] lb = Some lb"
| "detections ops (ds # rest) lb = Option.bind (processBounds ops ds lb) (\<lambda>(lb, ps). detections ops rest lb)"

lemma detections_ok: "windows_ok ops lb \<Longrightarrow> \<exists>lb'. detections ops dss lb = Some lb' \<and> windows_ok ops lb'"
proof (induction dss arbitrary: lb)
  case (Cons ds dss)
  obtain lb1 ps where "processBounds ops ds lb = Some (lb1, ps)" "windows_ok ops lb1"
    using processBounds_ok [OF Cons.prems] by blast
  with Cons.IH show ?case by simp
qed simp

section \<open>Properties\<close>

text \<open>What the search relies on from the failsafe library: an operation that does not fail is run once and its
  result returned.\<close>

definition executor_transparent :: "'w node \<Rightarrow> bool" where
  "executor_transparent nd \<longleftrightarrow>
     (\<forall>p f w. \<not> isl (fst (f w)) \<longrightarrow> fs_probe nd p f w = f w) \<and> (\<forall>p f w. \<not> isl (fst (f w)) \<longrightarrow> fs_latest nd p f w = f w)"

definition tolerated_gap :: "LowerBoundSearchCalculator \<Rightarrow> int" where
  "tolerated_gap c = (if maxOffset c > 0 then maxOffset c + 1 else 0)"

lemma hasData_answers:
  assumes "executor_transparent nd" "\<forall>h w. fst (nd_probe nd h w) = Inr (P h)"
  shows "answers (hasData c nd) P"
proof -
  have "fst (hasData c nd h w) = P h" for h w
  proof -
    have p: "fst (nd_probe nd h w) = Inr (P h)" using assms(2) by blast
    have "\<not> isl (fst (nd_probe nd h w)) \<longrightarrow>
        fs_probe nd (createRetryPolicy c) (nd_probe nd h) w = nd_probe nd h w"
      using assms(1) unfolding executor_transparent_def by blast
    with p show ?thesis by (cases "nd_probe nd h w") (auto simp: hasData_def withRetryProbe_def)
  qed
  then show ?thesis by (simp add: answers_def)
qed

lemma initialRange_ok:
  assumes "0 < latest" "latest < 2 ^ 63 - 1" "cached < 2 ^ 63"
  shows "rg_ok (initialRange cached latest)" "\<not> rgFound (initialRange cached latest)"
  using assms by (simp_all add: rg_ok_def initialRange_def)

lemma detect_total:
  assumes "0 < latest" "latest < 2 ^ 63 - 1" "cached < 2 ^ 63"
  shows "detectPlain c cached latest has w \<noteq> None" "detectWithOffset c cached latest has w \<noteq> None"
  using plain_loop_total [OF initialRange_ok [OF assms], of c has] offset_loop_total [OF initialRange_ok [OF assms], of c has "{}"]
  unfolding detectPlain_def detectWithOffset_def by (cases "has cached w"; simp)+

lemma detect_finds:
  assumes "answers has P" "lower_edge P L latest (tolerated_gap c)" "0 \<le> cached" "cached \<le> max 1 L"
    and "0 < latest" "latest < 2 ^ 63 - 1"
  shows "\<exists>w'. (if maxOffset c > 0 then detectWithOffset c cached latest has w else detectPlain c cached latest has w)
    = Some (Inr (max 1 L), w')"
proof -
  note edge = lower_edgeD [OF assms(2)]
  have hit: "cached = max 1 L" if "cached > 0" "P cached"
    using that assms(3,4) edge(1) edge(5) [of cached] by (cases "L = 0") force+
  have inv: "search_inv P L latest (initialRange cached latest)" if "\<not> (cached > 0 \<and> P cached)"
  proof -
    have "cached \<le> L"
    proof (rule ccontr)
      assume "\<not> cached \<le> L"
      with assms(4) edge(1) have "L = 0" "cached = 1" by auto
      with that edge(4) show False by simp
    qed
    with assms(3,5,6) edge(2) show ?thesis by (auto simp: search_inv_def initialRange_def rg_ok_def)
  qed
  have plain: "\<exists>w'. plain_loop c has (initialRange cached latest) v = Some (Inr (max 1 L), w')"
    if "\<not> (cached > 0 \<and> P cached)" "\<not> maxOffset c > 0" for v
    using plain_loop_finds [OF assms(1) _ inv [OF that(1)]] assms(2) that(2) by (simp add: tolerated_gap_def)
  have offset: "\<exists>w'. offset_loop c has (initialRange cached latest) {} v = Some (Inr (max 1 L), w')"
    if "\<not> (cached > 0 \<and> P cached)" "maxOffset c > 0" for v
    using offset_loop_finds [OF assms(1) _ inv [OF that(1)] _ assms(6)] assms(2) that(2) by (simp add: tolerated_gap_def)
  obtain w' where h: "has cached w = (P cached, w')" using answers_has [OF assms(1)] by blast
  show ?thesis
    using plain offset h hit by (auto simp: detectPlain_def detectWithOffset_def)
qed

lemma latest_transparent:
  assumes "executor_transparent nd" "nd_latest nd w = (Inr latest, w1)"
  shows "withRetryLatestHeight c nd w = (Inr latest, w1)"
proof -
  have "\<not> isl (fst (nd_latest nd w)) \<longrightarrow> fs_latest nd (createRetryPolicy c) (nd_latest nd) w = nd_latest nd w"
    using assms(1) unfolding executor_transparent_def by blast
  with assms(2) show ?thesis by (simp add: withRetryLatestHeight_def)
qed

text \<open>\<^bold>\<open>C6\<close>. The search finds the edge exactly: when a node answers consistently, has nothing below \<open>L\<close> and, above it,
  misses at most the number of consecutive blocks the calculator tolerates (none for a plain search,
  \<open>maxOffset + 1\<close> with an offset), a detection that starts from no cached bound or from one not above the
  edge returns \<open>L\<close>, with genesis reported as 1, for every supported type, and caches it.\<close>

theorem search_finds_exact_lower_bound:
  assumes "executor_transparent nd" "\<forall>h w. fst (nd_probe nd h w) = Inr (P h)" "nd_latest nd w = (Inr latest, w1)"
    and "0 < latest" "latest < 2 ^ 63 - 1" "lower_edge P L latest (tolerated_gap c)"
    and "0 \<le> lastBound c" "lastBound c \<le> max 1 L"
  shows "\<exists>w' t. DetectLowerBound nd c w = Some (Inr (lowerBoundResults c t (max 1 L)), c\<lparr>lastBound := max 1 L\<rparr>, w')"
proof -
  obtain w' where "(if maxOffset c > 0 then detectWithOffset c (lastBound c) latest (hasData c nd) w1
      else detectPlain c (lastBound c) latest (hasData c nd) w1) = Some (Inr (max 1 L), w')"
    using detect_finds [OF hasData_answers [OF assms(1,2)] assms(6-8,4,5)] by blast
  with latest_transparent [OF assms(1,3), of c] assms(4) show ?thesis
    by (auto simp: DetectLowerBound_def split: if_splits)
qed

text \<open>\<^bold>\<open>C29\<close>. Detection always ends: whatever the node answers, and however its answers change between probes, a
  detection returns a bound or an error, as long as the reported height is below the largest \<open>int64\<close>.\<close>

theorem search_always_ends:
  assumes "\<And>latest. fst (withRetryLatestHeight c nd w) = Inr latest \<Longrightarrow> latest < 2 ^ 63 - 1" "lastBound c < 2 ^ 63"
  shows "\<exists>r. DetectLowerBound nd c w = Some r"
proof -
  obtain res w1 where l: "withRetryLatestHeight c nd w = (res, w1)" by (cases "withRetryLatestHeight c nd w")
  show ?thesis
  proof (cases res)
    case (Inr latest)
    with assms l have small: "latest < 2 ^ 63 - 1" by simp
    have "0 < latest \<Longrightarrow> detectPlain c (lastBound c) latest (hasData c nd) w1 \<noteq> None"
      by (rule detect_total(1) [OF _ small assms(2)])
    moreover have "0 < latest \<Longrightarrow> detectWithOffset c (lastBound c) latest (hasData c nd) w1 \<noteq> None"
      by (rule detect_total(2) [OF _ small assms(2)])
    ultimately show ?thesis using l Inr by (fastforce simp: DetectLowerBound_def split: option.splits sum.splits)
  qed (use l in \<open>simp add: DetectLowerBound_def\<close>)
qed

text \<open>The exception is real: a node without data that reports the largest \<open>int64\<close> as its height keeps the plain
  search running for ever.\<close>

theorem search_endless_at_max_height:
  "\<exists>nd c. DetectLowerBound nd c () = None \<and> fst (withRetryLatestHeight c nd ()) = Inr (2 ^ 63 - 1)
     \<and> c = NewLowerBoundSearchCalculator ''up'' BlockBound 0"
proof -
  let ?nd = "\<lparr>nd_probe = \<lambda>h w. (Inr False, w), nd_latest = \<lambda>w. (Inr (2 ^ 63 - 1), w), nd_now = \<lambda>w. 0,
    fs_probe = \<lambda>p f. f, fs_latest = \<lambda>p f. f\<rparr> :: unit node"
  let ?c = "NewLowerBoundSearchCalculator ''up'' BlockBound 0"
  have "plain_loop ?c (hasData ?c ?nd) (initialRange 0 (2 ^ 63 - 1)) () = None"
    by (rule plain_loop_endless) (simp_all add: hasData_def withRetryProbe_def initialRange_def in_i64_def)
  then have "DetectLowerBound ?nd ?c () = None"
    by (simp add: DetectLowerBound_def withRetryLatestHeight_def detectPlain_def
        NewLowerBoundSearchCalculator_def NewLowerBoundSearchCalculatorWithOffset_def)
  moreover have "fst (withRetryLatestHeight ?c ?nd ()) = Inr (2 ^ 63 - 1)" by (simp add: withRetryLatestHeight_def)
  ultimately show ?thesis by blast
qed

text \<open>No bound is invented: for a node that answers consistently, whatever blocks it has, a reported bound
  is a block the node has, or the floor 1 of a chain that has its genesis block or is at most ten blocks
  high.\<close>

theorem reported_bound_has_data:
  assumes "executor_transparent nd" "\<forall>h w. fst (nd_probe nd h w) = Inr (P h)" "nd_latest nd w = (Inr latest, w1)"
    and "latest < 2 ^ 63 - 1" "lastBound c < 2 ^ 63"
    and "DetectLowerBound nd c w = Some (Inr ds, c', w')" "d \<in> set ds"
  shows "P (Bound d) \<or> (Bound d = 1 \<and> (P 0 \<or> latest \<le> 10))"
proof -
  note has = hasData_answers [OF assms(1,2), of c]
  from assms(6) latest_transparent [OF assms(1,3), of c] obtain b w2 where pos: "0 < latest"
    and det: "(if maxOffset c > 0 then detectWithOffset c (lastBound c) latest (hasData c nd) w1
      else detectPlain c (lastBound c) latest (hasData c nd) w1) = Some (Inr b, w2)"
    and ds: "ds = lowerBoundResults c (nd_now nd w2) b"
    by (auto simp: DetectLowerBound_def split: if_splits option.splits sum.splits)
  obtain w3 where h: "hasData c nd (lastBound c) w1 = (P (lastBound c), w3)" using answers_has [OF has] by blast
  have init: "sound_inv P latest (initialRange (lastBound c) latest)"
    by (simp add: sound_inv_def initialRange_def)
  note loops = plain_loop_sound [OF has initialRange_ok [OF pos assms(4,5)] init]
    offset_loop_sound [OF has initialRange_ok [OF pos assms(4,5)] init]
  have "reportable P latest b"
    using det h loops by (auto simp: detectPlain_def detectWithOffset_def reportable_def split: if_splits)
  moreover have "Bound d = b" using assms(7) ds by (auto simp: lowerBoundResults_def NewLowerBoundData_def split: if_splits)
  ultimately show ?thesis by (simp add: reportable_def)
qed

text \<open>The bound window is always in order: starting empty, any run of detections is processed without an index
  panic, and afterwards the window of every type holds one to three bounds of that type that do not
  decrease, and the prediction line goes through the newest of them.\<close>

theorem bound_windows_stay_ordered:
  assumes "detections ops dss (NewLowerBounds speed) = res"
  shows "\<exists>lb. res = Some lb \<and> (\<forall>ty co. map_of (lbCoeffs lb) ty = Some co \<longrightarrow>
    (let bs = coeffBounds co in bs \<noteq> [] \<and> length bs \<le> 3 \<and> sorted (map Bound bs) \<and> list_all (\<lambda>d. boundType d = ty) bs
      \<and> ((Bound (last bs) = 1 \<and> coeffK co = fl_of_int ops 0 \<and> coeffB co = fl_of_int ops 1)
         \<or> coeffB co = calculateB ops (coeffK co) (last bs))))"
proof -
  have "windows_ok ops (NewLowerBounds speed)" by (simp add: windows_ok_def NewLowerBounds_def)
  from detections_ok [OF this, of dss] assms show ?thesis
    by (auto simp: windows_ok_def window_ok_def maxBounds_def)
qed

section \<open>Witnesses\<close>

text \<open>A node with blocks 40 to 100 but for 50 and 51, and its clock.\<close>

definition sample_has :: "i64 \<Rightarrow> bool" where
  "sample_has h \<longleftrightarrow> 40 \<le> h \<and> h \<le> 100 \<and> h \<noteq> 50 \<and> h \<noteq> 51"

definition sample_node :: "nat node" where
  "sample_node = \<lparr>nd_probe = \<lambda>h w. (Inr (sample_has h), Suc w), nd_latest = \<lambda>w. (Inr 100, w), nd_now = \<lambda>w. 7,
     fs_probe = \<lambda>p f. f, fs_latest = \<lambda>p f. f\<rparr>"

definition sample_calc :: LowerBoundSearchCalculator where
  "sample_calc = NewLowerBoundSearchCalculatorWithOffset ''up'' StateBound [StateBound, ProofBound] 0 20"

lemma sample_node_ok:
  "executor_transparent sample_node" "\<forall>h w. fst (nd_probe sample_node h w) = Inr (sample_has h)"
  "nd_latest sample_node 0 = (Inr 100, 0)" "lastBound sample_calc = 0"
  by (simp_all add: executor_transparent_def sample_node_def sample_calc_def NewLowerBoundSearchCalculatorWithOffset_def)

lemma sample_edge: "lower_edge sample_has 40 100 (tolerated_gap sample_calc)"
proof -
  have "\<exists>k. h - 21 \<le> k \<and> k < h \<and> 40 \<le> k \<and> sample_has k" if "40 < h" "h \<le> 100" "\<not> sample_has h" for h
    using that by (intro exI [of _ 49]) (auto simp: sample_has_def)
  then show ?thesis
    by (simp add: lower_edge_def tolerated_gap_def sample_calc_def NewLowerBoundSearchCalculatorWithOffset_def)
      (auto simp: sample_has_def)
qed

theorem search_finds_exact_lower_bound_witness:
  "\<exists>w' t. DetectLowerBound sample_node sample_calc 0
     = Some (Inr (lowerBoundResults sample_calc t 40), sample_calc\<lparr>lastBound := 40\<rparr>, w')"
  using search_finds_exact_lower_bound [OF sample_node_ok(1-3) _ _ sample_edge] sample_node_ok(4) by simp

theorem search_always_ends_witness: "\<exists>r. DetectLowerBound sample_node sample_calc 0 = Some r"
  by (rule search_always_ends)
    (simp_all add: withRetryLatestHeight_def sample_node_def sample_calc_def NewLowerBoundSearchCalculatorWithOffset_def)

definition sample_detected :: "(string + LowerBoundData list) option" where
  "sample_detected = map_option fst (DetectLowerBound sample_node sample_calc 0)"

lemma sample_detected_value:
  "sample_detected = Some (Inr [NewLowerBoundData 40 7 StateBound, NewLowerBoundData 40 7 ProofBound])"
  by code_simp

theorem reported_bound_has_data_witness: "sample_has 40"
proof -
  obtain c' w' where d: "DetectLowerBound sample_node sample_calc 0
      = Some (Inr [NewLowerBoundData 40 7 StateBound, NewLowerBoundData 40 7 ProofBound], c', w')"
    using sample_detected_value by (auto simp: sample_detected_def)
  from reported_bound_has_data [OF sample_node_ok(1-3) _ _ d, of "NewLowerBoundData 40 7 StateBound"]
  show ?thesis by (simp add: sample_node_ok(4) NewLowerBoundData_def)
qed

definition sample_floats :: "int float_ops" where
  "sample_floats = \<lparr>fl_of_int = \<lambda>x. x, fl_add = (+), fl_sub = (-), fl_mul = (*), fl_round = \<lambda>x. x, fl_slope = \<lambda>ps. None\<rparr>"

definition sample_detections :: "LowerBoundData list list" where
  "sample_detections = [[NewLowerBoundData 10 1 BlockBound], [NewLowerBoundData 20 2 BlockBound, NewLowerBoundData 5 2 BlockBound]]"

theorem bound_windows_stay_ordered_witness:
  "\<exists>lb co. detections sample_floats sample_detections (NewLowerBounds 2) = Some lb
     \<and> map_of (lbCoeffs lb) BlockBound = Some co \<and> sorted (map Bound (coeffBounds co))"
proof -
  have "case detections sample_floats sample_detections (NewLowerBounds 2) of None \<Rightarrow> False
      | Some lb \<Rightarrow> map_of (lbCoeffs lb) BlockBound \<noteq> None" by code_simp
  with bound_windows_stay_ordered [of sample_floats sample_detections 2] show ?thesis
    by (fastforce simp: Let_def split: option.splits)
qed

end
