(* ===== verification/Quorum.thy ===== *)
theory Quorum
  imports Protocol
begin

text \<open>
  Quorum reads, \<open>internal/quorum\<close>: the parameters a client sends (\<open>context.go\<close>) and the verification of the
  signatures in the response headers (\<open>quorum.go\<close>).

  The cryptographic primitives (SHA-256, ECDSA and RSA verification, X.509 decoding) are parameters, and
  so is the YAML decoder: a key file is its list of entries. An error value is a constructor with
  the fields of the source's error type; the texts of the causes are left out. Header names and
  request ids are compared on ASCII letters.
\<close>

section \<open>Parameters of a request\<close>

record Params =
  paramQuorum :: int
  paramQuorumOf :: int

definition Requested :: "Params \<Rightarrow> bool" where
  "Requested p \<longleftrightarrow> paramQuorum p > 0 \<and> paramQuorumOf p > 0 \<and> paramQuorum p \<le> paramQuorumOf p"

definition EncodeQuery :: "Params \<Rightarrow> string" where
  "EncodeQuery p =
     (if \<not> Requested p then []
      else ''quorum='' @ itoa (paramQuorumOf p) @ ''&quorum_required='' @ itoa (paramQuorum p))"

type_synonym url_values = "(string, string list) gomap"

definition values_Get :: "url_values \<Rightarrow> string \<Rightarrow> string" where
  "values_Get q k = (case map_of q k of Some (v # _) \<Rightarrow> v | _ \<Rightarrow> [])"

definition ParamsFromQuery :: "url_values \<Rightarrow> Params" where
  "ParamsFromQuery q =
     (let number = (\<lambda>raw. if raw \<noteq> [] then (case atoi raw of Some n \<Rightarrow> n | None \<Rightarrow> 0) else 0)
      in \<lparr>paramQuorum = number (values_Get q ''quorum_required''), paramQuorumOf = number (values_Get q ''quorum'')\<rparr>)"

text \<open>The context of a request holds the parameters only when they ask for a quorum.\<close>

definition WithParams :: "Params option \<Rightarrow> Params \<Rightarrow> Params option" where
  "WithParams ctx p = (if \<not> Requested p then ctx else Some p)"

section \<open>Keys\<close>

datatype 'k PublicKey = EcdsaKey 'k | RsaKey 'k | OtherKey 'k

record 'k crypto =
  cr_sha256 :: "byte list \<Rightarrow> byte list"
  cr_ecdsa :: "'k \<Rightarrow> byte list \<Rightarrow> byte list \<Rightarrow> bool"
  cr_rsa :: "'k \<Rightarrow> byte list \<Rightarrow> byte list \<Rightarrow> bool"
  cr_pkix :: "byte list \<Rightarrow> 'k PublicKey option"

datatype quorum_error =
    ErrMissingSignatures
  | UnknownProviderError string int
  | InvalidSignatureError string int
  | InsufficientSignaturesError int int
  | MalformedHeaderError string
  | UnexpectedRequestIDError string string int
  | NotSupportedError string
  | OtherQuorumError string

datatype registry_error = EmptyProvider nat | DuplicateProvider string | BadKey string

record providerKeyEntry =
  keyProviderID :: string
  keyPublicKey :: string

type_synonym 'k Registry = "(string, 'k PublicKey) gomap"

definition stripWhitespace :: "string \<Rightarrow> string" where
  "stripWhitespace s = filter (\<lambda>c. c \<notin> {CHR '' '', CHR 0x09, CHR 0x0D, CHR 0x0A}) s"

definition parsePublicKey :: "'k crypto \<Rightarrow> string \<Rightarrow> 'k PublicKey option" where
  "parsePublicKey cr raw =
     (let cleaned = stripWhitespace raw in
      if cleaned = [] then None
      else
        (case b64_StdEncoding cleaned of
           None \<Rightarrow> None
         | Some der \<Rightarrow>
             (case cr_pkix cr der of
                Some (EcdsaKey k) \<Rightarrow> Some (EcdsaKey k)
              | Some (RsaKey k) \<Rightarrow> Some (RsaKey k)
              | _ \<Rightarrow> None)))"

fun load_keys :: "'k crypto \<Rightarrow> nat \<Rightarrow> providerKeyEntry list \<Rightarrow> 'k Registry \<Rightarrow> registry_error + 'k Registry" where
  "load_keys cr i [] keys = Inr keys"
| "load_keys cr i (e # es) keys =
     (if trimSpace (keyProviderID e) = [] then Inl (EmptyProvider i)
      else if map_of keys (keyProviderID e) \<noteq> None then Inl (DuplicateProvider (keyProviderID e))
      else
        (case parsePublicKey cr (keyPublicKey e) of
           None \<Rightarrow> Inl (BadKey (keyProviderID e))
         | Some pub \<Rightarrow> load_keys cr (Suc i) es (AList.update (keyProviderID e) pub keys)))"

definition LoadRegistry :: "'k crypto \<Rightarrow> providerKeyEntry list \<Rightarrow> registry_error + 'k Registry" where
  "LoadRegistry cr es = load_keys cr 0 es []"

definition Lookup :: "'k Registry option \<Rightarrow> string \<Rightarrow> 'k PublicKey option" where
  "Lookup r pid = (case r of None \<Rightarrow> None | Some keys \<Rightarrow> map_of keys pid)"

section \<open>Parsing headers\<close>

record Signature =
  sigIndex :: int
  sigRequestID :: string
  sigProviderID :: string
  sigUpstreamID :: string
  sigNonce :: u64
  sigRaw :: "byte list"

definition headerValueNonceSep :: string where "headerValueNonceSep = ''_nonce_''"
definition headerValueSigSep :: string where "headerValueSigSep = ''_sig_''"
definition msgPrefix :: string where "msgPrefix = ''DSHACKLESIG''"
definition msgSeparator :: string where "msgSeparator = ''/''"

text \<open>The pattern of \<open>QR<N>-id-<request-id>\<close>, letters in any case: the digits and the request id.\<close>

definition qrHeaderNameRe :: "string \<Rightarrow> (string \<times> string) option" where
  "qrHeaderNameRe name =
     (if toLower (take 2 name) = ''qr'' then
        (let rest = drop 2 name; digits = takeWhile is_digit rest; tail = dropWhile is_digit rest
         in if digits \<noteq> [] \<and> toLower (take 4 tail) = ''-id-'' \<and> drop 4 tail \<noteq> [] \<and> CHR 0x0A \<notin> set (drop 4 tail)
            then Some (digits, drop 4 tail) else None)
      else None)"

definition splitPrefix :: "string \<Rightarrow> (string \<times> string) option" where
  "splitPrefix prefix =
     (if \<not> hasSuffix prefix '')'' then None
      else
        (case lastIndexByte (butlast prefix) CHR ''('' of
           None \<Rightarrow> None
         | Some i \<Rightarrow>
             (let providerID = take i prefix; upstreamID = drop (Suc i) (butlast prefix)
              in if providerID = [] then None else if upstreamID = [] then None else Some (providerID, upstreamID))))"

definition parseHeaderValue :: "string \<Rightarrow> (string \<times> u64 \<times> byte list) option" where
  "parseHeaderValue value =
     (case go_index value headerValueNonceSep of
        None \<Rightarrow> None
      | Some nonceIdx \<Rightarrow>
          (let prefix = take nonceIdx value; rest = drop (nonceIdx + length headerValueNonceSep) value
           in if prefix = [] then None
              else
                (case go_index rest headerValueSigSep of
                   None \<Rightarrow> None
                 | Some sigIdx \<Rightarrow>
                     (case parseUint64 (take sigIdx rest) of
                        None \<Rightarrow> None
                      | Some nonce \<Rightarrow>
                          (let sigHex = trimPrefix (trimPrefix (drop (sigIdx + length headerValueSigSep) rest) ''0x'') ''0X''
                           in if sigHex = [] then None
                              else map_option (\<lambda>sig. (prefix, of_nat nonce, sig)) (hex_decode sigHex))))))"

definition parse_signature :: "int \<Rightarrow> string \<Rightarrow> string \<Rightarrow> Signature option" where
  "parse_signature index reqID value =
     (case parseHeaderValue value of
        None \<Rightarrow> None
      | Some (prefix, nonce, sig) \<Rightarrow>
          map_option (\<lambda>(providerID, upstreamID).
            \<lparr>sigIndex = index, sigRequestID = reqID, sigProviderID = providerID, sigUpstreamID = upstreamID,
             sigNonce = nonce, sigRaw = sig\<rparr>) (splitPrefix prefix))"

fun extract_values :: "string \<Rightarrow> int \<Rightarrow> string \<Rightarrow> string list \<Rightarrow> quorum_error + Signature list" where
  "extract_values name index reqID [] = Inr []"
| "extract_values name index reqID (v # vs) =
     (case parse_signature index reqID v of
        None \<Rightarrow> Inl (MalformedHeaderError name)
      | Some s \<Rightarrow> map_sum id ((#) s) (extract_values name index reqID vs))"

fun extract_loop :: "(string \<times> string list) list \<Rightarrow> quorum_error + Signature list" where
  "extract_loop [] = Inr []"
| "extract_loop ((name, vs) # hs) =
     (case qrHeaderNameRe name of
        None \<Rightarrow> extract_loop hs
      | Some (digits, reqID) \<Rightarrow>
          (case atoi digits of
             None \<Rightarrow> Inl (MalformedHeaderError name)
           | Some index \<Rightarrow>
               (case extract_values name index reqID vs of
                  Inl e \<Rightarrow> Inl e
                | Inr ss \<Rightarrow> map_sum id ((@) ss) (extract_loop hs))))"

text \<open>\<open>sort.Slice\<close> is not stable: it may order signatures with the same index in any way, given by \<open>so\<close>.\<close>

type_synonym http_header = "(string, string list) gomap"

definition ExtractSignatures ::
  "(http_header \<Rightarrow> http_header) \<Rightarrow> (Signature list \<Rightarrow> Signature list) \<Rightarrow> http_header \<Rightarrow> quorum_error + Signature list" where
  "ExtractSignatures ro so headers =
     (if headers = [] then Inr [] else map_sum id (\<lambda>out. sort_key sigIndex (so out)) (extract_loop (ro headers)))"

section \<open>Verification\<close>

definition WrapMessage :: "'k crypto \<Rightarrow> u64 \<Rightarrow> string \<Rightarrow> byte list \<Rightarrow> byte list" where
  "WrapMessage cr nonce source message =
     string_bytes (msgPrefix @ msgSeparator @ dec (unat nonce) @ msgSeparator @ source @ msgSeparator
       @ hex_encode (cr_sha256 cr message))"

fun verifyDigest :: "'k crypto \<Rightarrow> 'k PublicKey \<Rightarrow> byte list \<Rightarrow> byte list \<Rightarrow> bool" where
  "verifyDigest cr (EcdsaKey k) digest sig \<longleftrightarrow> cr_ecdsa cr k digest sig"
| "verifyDigest cr (RsaKey k) digest sig \<longleftrightarrow> cr_rsa cr k digest sig"
| "verifyDigest cr (OtherKey k) digest sig \<longleftrightarrow> False"

definition verifySignature :: "'k crypto \<Rightarrow> 'k Registry option \<Rightarrow> Signature \<Rightarrow> byte list \<Rightarrow> quorum_error option" where
  "verifySignature cr r s result =
     (case Lookup r (sigProviderID s) of
        None \<Rightarrow> Some (UnknownProviderError (sigProviderID s) (sigIndex s))
      | Some pub \<Rightarrow>
          if verifyDigest cr pub (cr_sha256 cr (WrapMessage cr (sigNonce s) (sigUpstreamID s) result)) (sigRaw s)
          then None else Some (InvalidSignatureError (sigProviderID s) (sigIndex s)))"

fun verify_all :: "'k crypto \<Rightarrow> 'k Registry option \<Rightarrow> string \<Rightarrow> byte list \<Rightarrow> Signature list \<Rightarrow> quorum_error option" where
  "verify_all cr r expected result [] = None"
| "verify_all cr r expected result (s # ss) =
     (if expected \<noteq> [] \<and> \<not> equalFold (sigRequestID s) expected
      then Some (UnexpectedRequestIDError expected (sigRequestID s) (sigIndex s))
      else
        (case verifySignature cr r s result of
           Some e \<Rightarrow> Some e
         | None \<Rightarrow> verify_all cr r expected result ss))"

definition VerifyHeaders ::
  "'k crypto \<Rightarrow> (http_header \<Rightarrow> http_header) \<Rightarrow> (Signature list \<Rightarrow> Signature list) \<Rightarrow> 'k Registry option
     \<Rightarrow> http_header \<Rightarrow> byte list \<Rightarrow> string \<Rightarrow> int \<Rightarrow> quorum_error option" where
  "VerifyHeaders cr ro so r headers result expected minRequired =
     (case ExtractSignatures ro so headers of
        Inl e \<Rightarrow> Some e
      | Inr sigs \<Rightarrow>
          if sigs = [] then Some ErrMissingSignatures
          else if minRequired > 0 \<and> int (length sigs) < minRequired
            then Some (InsufficientSignaturesError (int (length sigs)) minRequired)
          else verify_all cr r expected result sigs)"

definition Verify :: "'k crypto \<Rightarrow> 'k Registry option \<Rightarrow> string \<Rightarrow> string \<Rightarrow> u64 \<Rightarrow> byte list \<Rightarrow> byte list \<Rightarrow> quorum_error option" where
  "Verify cr r providerID upstreamID nonce signature message =
     (case Lookup r providerID of
        None \<Rightarrow> Some (UnknownProviderError providerID 0)
      | Some pub \<Rightarrow>
          if verifyDigest cr pub (cr_sha256 cr (WrapMessage cr nonce upstreamID message)) signature
          then None else Some (InvalidSignatureError providerID 0))"

section \<open>What verification accepts\<close>

text \<open>A signature that the registered key of its provider verifies for this result.\<close>

definition genuine :: "'k crypto \<Rightarrow> 'k Registry option \<Rightarrow> byte list \<Rightarrow> Signature \<Rightarrow> bool" where
  "genuine cr r result s \<longleftrightarrow>
     (case Lookup r (sigProviderID s) of
        None \<Rightarrow> False
      | Some pub \<Rightarrow> verifyDigest cr pub (cr_sha256 cr (WrapMessage cr (sigNonce s) (sigUpstreamID s) result)) (sigRaw s))"

definition quorum_count :: "http_header \<Rightarrow> nat" where
  "quorum_count hs = sum_list (map (\<lambda>(name, vs). if qrHeaderNameRe name = None then 0 else length vs) hs)"

text \<open>A header is acceptable when it is no quorum header, or its index is a number and each of its values is
  a signature that satisfies \<open>Q\<close>.\<close>

definition header_ok :: "(string \<Rightarrow> Signature \<Rightarrow> bool) \<Rightarrow> string \<times> string list \<Rightarrow> bool" where
  "header_ok Q h \<longleftrightarrow>
     (case qrHeaderNameRe (fst h) of
        None \<Rightarrow> True
      | Some (digits, reqID) \<Rightarrow>
          (case atoi digits of
             None \<Rightarrow> False
           | Some i \<Rightarrow> list_all (\<lambda>v. case parse_signature i reqID v of None \<Rightarrow> False | Some s \<Rightarrow> Q reqID s) (snd h)))"

lemma parse_signature_reqID: "parse_signature i reqID v = Some s \<Longrightarrow> sigRequestID s = reqID"
  by (auto simp: parse_signature_def split: option.splits)

lemma extract_values_Inr:
  "extract_values name i reqID vs = Inr ss \<longleftrightarrow> map Some ss = map (parse_signature i reqID) vs"
proof (induction vs arbitrary: ss)
  case (Cons v vs)
  show ?case
  proof (cases "parse_signature i reqID v")
    case (Some s)
    have "map_sum id ((#) s) x = Inr ss \<longleftrightarrow> (\<exists>t. x = Inr t \<and> ss = s # t)" for x :: "quorum_error + Signature list"
      by (cases x) auto
    with Some Cons.IH show ?thesis by (cases ss) auto
  qed (cases ss; simp)
qed auto

lemma list_all_values:
  assumes "map Some ss = map (parse_signature i reqID) vs"
  shows "list_all (\<lambda>v. case parse_signature i reqID v of None \<Rightarrow> False | Some s \<Rightarrow> Q reqID s) vs \<longleftrightarrow>
    list_all (\<lambda>s. Q (sigRequestID s) s) ss"
  using assms
proof (induction vs arbitrary: ss)
  case (Cons v vs)
  then obtain s ss' where "ss = s # ss'" "parse_signature i reqID v = Some s" "map Some ss' = map (parse_signature i reqID) vs"
    by (cases ss) auto
  with Cons.IH [of ss'] parse_signature_reqID [of i reqID v s] show ?case by simp
qed simp

lemma extract_loop_Inr:
  assumes "extract_loop hs = Inr ss"
  shows "length ss = quorum_count hs \<and> (list_all (header_ok Q) hs \<longleftrightarrow> list_all (\<lambda>s. Q (sigRequestID s) s) ss)"
  using assms
proof (induction hs arbitrary: ss)
  case (Cons h hs)
  obtain name vs where h: "h = (name, vs)" by (cases h)
  show ?case
  proof (cases "qrHeaderNameRe name")
    case None
    with Cons h show ?thesis by (simp add: quorum_count_def header_ok_def)
  next
    case (Some dr)
    obtain digits reqID where dr: "dr = (digits, reqID)" by (cases dr)
    with Cons.prems h Some obtain i s1 s2 where
      i: "atoi digits = Some i" and v: "extract_values name i reqID vs = Inr s1" and l: "extract_loop hs = Inr s2"
      and ss: "ss = s1 @ s2"
      by (auto split: option.splits sum.splits simp: map_sum_def)
    from v have m: "map Some s1 = map (parse_signature i reqID) vs" by (simp add: extract_values_Inr)
    have "length s1 = length vs" using m by (metis length_map)
    with Cons.IH [OF l] ss i h Some dr list_all_values [OF m, of Q] show ?thesis
      by (simp add: quorum_count_def header_ok_def)
  qed
qed (simp add: quorum_count_def)

lemma extract_loop_ok:
  assumes "list_all (header_ok Q) hs"
  shows "\<exists>ss. extract_loop hs = Inr ss"
  using assms
proof (induction hs)
  case (Cons h hs)
  obtain name vs where h: "h = (name, vs)" by (cases h)
  from Cons obtain s2 where l: "extract_loop hs = Inr s2" by auto
  show ?case
  proof (cases "qrHeaderNameRe name")
    case None
    with l h show ?thesis by simp
  next
    case (Some dr)
    obtain digits reqID where dr: "dr = (digits, reqID)" by (cases dr)
    from Cons.prems h Some dr obtain i where i: "atoi digits = Some i"
      and vs: "list_all (\<lambda>v. parse_signature i reqID v \<noteq> None) vs"
      by (auto simp: header_ok_def list_all_iff split: option.splits)
    from vs have "map Some (map (\<lambda>v. the (parse_signature i reqID v)) vs) = map (parse_signature i reqID) vs"
      by (auto simp: list_all_iff)
    then have "extract_values name i reqID vs = Inr (map (\<lambda>v. the (parse_signature i reqID v)) vs)"
      by (simp only: extract_values_Inr)
    with i l h Some dr show ?thesis by simp
  qed
qed simp

lemma verify_all_None:
  "verify_all cr r expected result ss = None \<longleftrightarrow>
     list_all (\<lambda>s. (expected = [] \<or> equalFold (sigRequestID s) expected) \<and> genuine cr r result s) ss"
  by (induction ss) (auto simp: verifySignature_def genuine_def split: option.splits)

lemma quorum_count_perm: "range_order ro \<Longrightarrow> quorum_count (ro hs) = quorum_count hs"
  unfolding quorum_count_def range_order_def
  by (simp only: sum_mset_sum_list [symmetric] mset_map)

lemma load_keys_keeps: "load_keys cr i es keys = Inr keys' \<Longrightarrow> map_of keys pid = Some pub \<Longrightarrow> map_of keys' pid = Some pub"
proof (induction cr i es keys rule: load_keys.induct)
  case (2 cr i e es keys)
  then have "pid \<noteq> keyProviderID e" by (auto split: if_splits)
  with 2 show ?case by (auto split: if_splits option.splits)
qed simp

text \<open>An accepted key file has one entry per provider, and looking a provider up gives its key.\<close>

lemma load_keys_exact:
  "load_keys cr i es keys = Inr keys' \<Longrightarrow>
     distinct (map keyProviderID es) \<and> (\<forall>e \<in> set es. map_of keys (keyProviderID e) = None
       \<and> map_of keys' (keyProviderID e) = parsePublicKey cr (keyPublicKey e))"
proof (induction cr i es keys rule: load_keys.induct)
  case (2 cr i e es keys)
  from 2(2) obtain pub where new: "trimSpace (keyProviderID e) \<noteq> []" "map_of keys (keyProviderID e) = None"
    and pub: "parsePublicKey cr (keyPublicKey e) = Some pub"
    and rest: "load_keys cr (Suc i) es (AList.update (keyProviderID e) pub keys) = Inr keys'"
    by (auto split: if_splits option.splits)
  from load_keys_keeps [OF rest, of "keyProviderID e" pub] 2(1) [OF new(1) _ pub rest] new(2) pub
  show ?case by (auto split: if_splits)
qed simp

lemma params_roundtrip:
  assumes "Requested p" "in_i64 (paramQuorum p)" "in_i64 (paramQuorumOf p)"
  shows "ParamsFromQuery [(''quorum'', [itoa (paramQuorumOf p)]), (''quorum_required'', [itoa (paramQuorum p)])] = p"
proof -
  have "itoa n \<noteq> []" for n by (simp add: itoa_def)
  with assms show ?thesis by (cases p) (simp add: ParamsFromQuery_def values_Get_def atoi_itoa)
qed

section \<open>Properties\<close>

text \<open>\<^bold>\<open>C7\<close>. Verification accepts exactly the responses the protocol asks for: no error is returned if and only if
  there is a quorum header, at least as many as required, and every quorum header has a numeric index,
  the request's id, and only values that parse to a signature the provider's registered key verifies
  over this result. The order in which the headers are visited or sorted does not matter.\<close>

theorem quorum_accepts_exactly:
  assumes "range_order ro" "range_order so"
  shows "VerifyHeaders cr ro so r headers result expected minRequired = None \<longleftrightarrow>
    0 < quorum_count headers \<and> minRequired \<le> int (quorum_count headers)
    \<and> list_all (header_ok (\<lambda>reqID s. (expected = [] \<or> equalFold reqID expected) \<and> genuine cr r result s)) headers"
    (is "_ \<longleftrightarrow> _ \<and> _ \<and> list_all (header_ok ?Q) headers")
proof -
  have all: "list_all (header_ok ?Q) (ro headers) \<longleftrightarrow> list_all (header_ok ?Q) headers"
    using range_order_set [OF assms(1)] by (simp add: list_all_iff)
  show ?thesis
  proof (cases "extract_loop (ro headers)")
    case (Inl e)
    moreover have "headers \<noteq> []" using Inl range_order_set [OF assms(1), of "[]"] by (cases "headers = []") auto
    ultimately have "VerifyHeaders cr ro so r headers result expected minRequired = Some e"
      by (simp add: VerifyHeaders_def ExtractSignatures_def)
    moreover have "\<not> list_all (header_ok ?Q) (ro headers)" using Inl extract_loop_ok [of ?Q "ro headers"] by auto
    ultimately show ?thesis using all by simp
  next
    case (Inr ss)
    let ?sigs = "sort_key sigIndex (so ss)"
    have sigs: "length ?sigs = length ss" "set ?sigs = set ss"
      using range_order_set [OF assms(2)] range_order_length [OF assms(2)] by simp_all
    have empty: "ss = []" if "headers = []"
      using that Inr range_order_set [OF assms(1), of "[]"] by simp
    have "VerifyHeaders cr ro so r headers result expected minRequired =
        (if ?sigs = [] then Some ErrMissingSignatures
         else if minRequired > 0 \<and> int (length ?sigs) < minRequired
           then Some (InsufficientSignaturesError (int (length ?sigs)) minRequired)
         else verify_all cr r expected result ?sigs)"
      using Inr empty range_order_set [OF assms(2), of "[]"] by (auto simp: VerifyHeaders_def ExtractSignatures_def)
    moreover have "?sigs = [] \<longleftrightarrow> length ss = 0" using sigs(1) by (metis length_0_conv)
    ultimately show ?thesis
      using extract_loop_Inr [OF Inr, of ?Q] sigs all quorum_count_perm [OF assms(1), of headers]
      by (auto simp: verify_all_None list_all_iff)
  qed
qed

lemma prefix_nonce_index:
  assumes "go_index (a @ '')'') headerValueNonceSep = None"
  shows "go_index ((a @ '')'') @ headerValueNonceSep @ b) headerValueNonceSep = Some (length (a @ '')''))"
proof (rule go_index_first)
  fix k
  assume k: "k < length (a @ '')'')"
  let ?p = "a @ '')''" and ?sep = headerValueNonceSep
  show "\<not> hasPrefix (drop k (?p @ ?sep @ b)) ?sep"
  proof
    assume h: "hasPrefix (drop k (?p @ ?sep @ b)) ?sep"
    have len: "length ?sep = 7" by (simp add: headerValueNonceSep_def)
    show False
    proof (cases "k + 7 \<le> length ?p")
      case True
      then have "take 7 (drop k ?p) = ?sep"
        using h len k by (simp add: hasPrefix_def del: append_assoc)
      then have "?p = take k ?p @ ?sep @ drop 7 (drop k ?p)" by (metis append_take_drop_id)
      with assms show False unfolding go_index_None by blast
    next
      case False
      let ?j = "length a - k"
      have j: "?j < 7" using False by simp
      have "?sep ! ?j = take (length ?sep) (drop k (?p @ ?sep @ b)) ! ?j" using h by (simp only: hasPrefix_def)
      also have "\<dots> = CHR '')''" using j k len by (simp add: nth_append)
      finally have "CHR '')'' \<in> set ?sep" using j len by (metis nth_mem)
      then show False by (simp add: headerValueNonceSep_def)
    qed
  qed
qed

lemma digits_sig_index:
  "go_index (dec n @ headerValueSigSep @ b) headerValueSigSep = Some (length (dec n))"
proof (rule go_index_first)
  fix k
  assume k: "k < length (dec n)"
  have "is_digit (dec n ! k)" using dec_digits [of n] k by (auto simp: list_all_iff)
  then have "dec n ! k \<noteq> CHR ''_''" by (auto simp: is_digit_def)
  moreover have "drop k (dec n @ headerValueSigSep @ b) = dec n ! k # drop (Suc k) (dec n) @ headerValueSigSep @ b"
    using k by (simp add: Cons_nth_drop_Suc [symmetric])
  ultimately show "\<not> hasPrefix (drop k (dec n @ headerValueSigSep @ b)) headerValueSigSep"
    by (simp add: hasPrefix_def headerValueSigSep_def)
qed

lemma splitPrefix_print:
  "CHR ''('' \<notin> set up \<Longrightarrow> prov \<noteq> [] \<Longrightarrow> up \<noteq> [] \<Longrightarrow> splitPrefix (prov @ ''('' @ up @ '')'') = Some (prov, up)"
  by (simp add: splitPrefix_def hasSuffix_iff lastIndexByte_append butlast_append Let_def)

lemma parse_signature_print:
  assumes "prov \<noteq> []" "up \<noteq> []" "CHR ''('' \<notin> set up"
    and "go_index (prov @ ''('' @ up @ '')'') headerValueNonceSep = None" "sig \<noteq> []"
  shows "parse_signature i reqID
      (prov @ ''('' @ up @ '')'' @ headerValueNonceSep @ dec (unat nonce) @ headerValueSigSep @ hex_encode sig) =
    Some \<lparr>sigIndex = i, sigRequestID = reqID, sigProviderID = prov, sigUpstreamID = up, sigNonce = nonce, sigRaw = sig\<rparr>"
proof -
  let ?rest = "dec (unat nonce) @ headerValueSigSep @ hex_encode sig"
  let ?p = "prov @ ''('' @ up @ '')''"
  have idx: "go_index (?p @ headerValueNonceSep @ ?rest) headerValueNonceSep = Some (length ?p)"
    using prefix_nonce_index [of "prov @ ''('' @ up" ?rest] assms(4) by simp
  have "unat nonce < 2 ^ 64" using unsigned_less [of nonce, where 'a = nat] by simp
  then have num: "parseUint64 (dec (unat nonce)) = Some (unat nonce)" by (rule parseUint64_dec)
  have hex: "trimPrefix (trimPrefix (hex_encode sig) ''0x'') ''0X'' = hex_encode sig" "hex_encode sig \<noteq> []"
    using hex_encode_no_prefix [of sig] length_hex_encode [of sig] assms(5) by (auto simp: trimPrefix_def)
  have "parseHeaderValue (?p @ headerValueNonceSep @ ?rest) = Some (?p, nonce, sig)"
    unfolding parseHeaderValue_def idx using num hex digits_sig_index [of "unat nonce" "hex_encode sig"]
    by (simp add: Let_def hex_decode_encode)
  with splitPrefix_print [OF assms(3,1,2)] show ?thesis by (simp add: parse_signature_def)
qed

text \<open>Header values survive the wire: printing a provider, an upstream, a nonce and a signature in the
  documented form and parsing the value gives the same four parts, for every nonce and every non-empty
  signature, as long as the upstream id has no opening parenthesis and the ids do not contain the
  nonce separator.\<close>

theorem header_value_roundtrip:
  assumes "prov \<noteq> []" "up \<noteq> []" "CHR ''('' \<notin> set up"
    and "go_index (prov @ ''('' @ up @ '')'') headerValueNonceSep = None" "sig \<noteq> []"
  shows "parse_signature i reqID
      (prov @ ''('' @ up @ '')'' @ headerValueNonceSep @ dec (unat nonce) @ headerValueSigSep @ hex_encode sig) =
    Some \<lparr>sigIndex = i, sigRequestID = reqID, sigProviderID = prov, sigUpstreamID = up, sigNonce = nonce, sigRaw = sig\<rparr>"
  using assms by (rule parse_signature_print)

lemma string_bytes_inject: "string_bytes s = string_bytes t \<longleftrightarrow> s = t"
proof -
  have "inj (\<lambda>c. of_nat (of_char c) :: byte)"
  proof (rule injI)
    fix c d :: char
    assume "(of_nat (of_char c) :: byte) = of_nat (of_char d)"
    then have "(of_char c :: nat) mod 256 = of_char d mod 256" by (simp add: word_of_nat_eq_iff take_bit_eq_mod)
    then have "(of_char c :: nat) = of_char d" by simp
    then show "c = d" by (simp only: of_char_eq_iff)
  qed
  then show ?thesis by (simp add: string_bytes_def inj_map_eq_map)
qed

text \<open>What is signed determines what it is about: two wrapped messages are equal only if nonce, upstream and the
  digest of the result are, so a signature cannot be moved to another nonce, upstream or result, even
  though upstream ids may contain the separator.\<close>

theorem signed_message_is_unambiguous:
  assumes "\<And>m. length (cr_sha256 cr m) = 32"
  shows "WrapMessage cr n s m = WrapMessage cr n' s' m' \<longleftrightarrow> n = n' \<and> s = s' \<and> cr_sha256 cr m = cr_sha256 cr m'"
proof
  assume "WrapMessage cr n s m = WrapMessage cr n' s' m'"
  then have "dec (unat n) @ CHR ''/'' # s @ ''/'' @ hex_encode (cr_sha256 cr m) =
      dec (unat n') @ CHR ''/'' # s' @ ''/'' @ hex_encode (cr_sha256 cr m')"
    by (simp add: WrapMessage_def string_bytes_inject msgSeparator_def)
  moreover have "\<not> is_digit CHR ''/''" by (simp add: is_digit_def)
  ultimately have nonce: "unat n = unat n'"
    and rest: "s @ ''/'' @ hex_encode (cr_sha256 cr m) = s' @ ''/'' @ hex_encode (cr_sha256 cr m')"
    by (simp_all add: dec_append_inject)
  have "length (hex_encode (cr_sha256 cr m)) = length (hex_encode (cr_sha256 cr m'))"
    by (simp add: length_hex_encode assms)
  with rest have "s = s'" "hex_encode (cr_sha256 cr m) = hex_encode (cr_sha256 cr m')"
    by (simp_all add: append_eq_append_conv)
  with nonce show "n = n' \<and> s = s' \<and> cr_sha256 cr m = cr_sha256 cr m'"
    by (simp add: hex_encode_inject word_unat_eq_iff)
qed (simp add: WrapMessage_def)

section \<open>Examples\<close>

text \<open>One registered key and a verifier that accepts the signature \<open>[1]\<close>.\<close>

definition toy_crypto :: "unit crypto" where
  "toy_crypto = \<lparr>cr_sha256 = \<lambda>m. [], cr_ecdsa = \<lambda>k digest sig. sig = [1], cr_rsa = \<lambda>k digest sig. False,
     cr_pkix = \<lambda>der. None\<rparr>"

definition toy_registry :: "unit Registry" where
  "toy_registry = [(''p@eu#0'', EcdsaKey ())]"

definition toy_value :: string where
  "toy_value = ''p@eu#0'' @ ''('' @ ''up'' @ '')'' @ headerValueNonceSep @ dec (unat (7 :: u64)) @ headerValueSigSep @ hex_encode [1]"

definition toy_signature :: "int \<Rightarrow> Signature" where
  "toy_signature i = \<lparr>sigIndex = i, sigRequestID = ''1'', sigProviderID = ''p@eu#0'', sigUpstreamID = ''up'', sigNonce = 7, sigRaw = [1]\<rparr>"

lemma toy_parses: "parse_signature i ''1'' toy_value = Some (toy_signature i)"
  unfolding toy_value_def toy_signature_def
  by (rule parse_signature_print) (simp_all add: headerValueNonceSep_def hasPrefix_def)

lemma toy_names:
  "qrHeaderNameRe ''Qr0-Id-1'' = Some (''0'', ''1'')" "qrHeaderNameRe ''Qr1-Id-1'' = Some (''1'', ''1'')"
  "qrHeaderNameRe ''Date'' = None" "atoi ''0'' = Some 0" "atoi ''1'' = Some 1"
proof -
  have "toLower ''Qr'' = ''qr''" "toLower ''-Id-'' = ''-id-''" "toLower ''Da'' = ''da''" by code_simp+
  then show "qrHeaderNameRe ''Qr0-Id-1'' = Some (''0'', ''1'')" "qrHeaderNameRe ''Qr1-Id-1'' = Some (''1'', ''1'')"
    "qrHeaderNameRe ''Date'' = None" "atoi ''0'' = Some 0" "atoi ''1'' = Some 1"
    by (simp_all add: qrHeaderNameRe_def Let_def is_digit_def atoi_def undec_def digit_val_def in_i64_def)
qed

lemma toy_genuine: "genuine toy_crypto (Some toy_registry) result (toy_signature i)"
  by (simp add: genuine_def Lookup_def toy_registry_def toy_signature_def toy_crypto_def)


theorem quorum_accepts_exactly_witness:
  "VerifyHeaders toy_crypto rev rev (Some toy_registry) [(''Qr0-Id-1'', [toy_value]), (''Date'', [''x''])] [] ''1'' 1 = None"
  using quorum_accepts_exactly [of rev rev toy_crypto "Some toy_registry" "[(''Qr0-Id-1'', [toy_value]), (''Date'', [''x''])]" "[]" "''1''" 1]
  by (simp add: quorum_count_def header_ok_def toy_names toy_parses toy_genuine equalFold_def)

theorem header_value_roundtrip_witness:
  "parse_signature 0 ''1'' (''p'' @ ''('' @ ''u'' @ '')'' @ headerValueNonceSep @ dec (unat (5 :: u64)) @ headerValueSigSep @ hex_encode [10]) =
     Some \<lparr>sigIndex = 0, sigRequestID = ''1'', sigProviderID = ''p'', sigUpstreamID = ''u'', sigNonce = 5, sigRaw = [10]\<rparr>"
  by (rule header_value_roundtrip) (simp_all add: headerValueNonceSep_def hasPrefix_def)

theorem signed_message_is_unambiguous_witness:
  "WrapMessage (toy_crypto\<lparr>cr_sha256 := \<lambda>m. replicate 32 0\<rparr>) 1 ''a/2'' [] \<noteq>
     WrapMessage (toy_crypto\<lparr>cr_sha256 := \<lambda>m. replicate 32 0\<rparr>) 1 ''a'' []"
  using signed_message_is_unambiguous [of "toy_crypto\<lparr>cr_sha256 := \<lambda>m. replicate 32 0\<rparr>" 1 "''a/2''" "[]" 1 "''a''" "[]"]
  by simp

end
