(* ===== verification/RestPaths.thy ===== *)
theory RestPaths
  imports GoStrings
begin

text \<open>
  Resolving REST paths, \<open>pkg/utils/path.go\<close>: a trie of templates whose only wildcard is a whole segment
  \<open>*\<close>, matched without backtracking, and the inverse that rebuilds a URL from a template and the
  captured segments.

  The trie is refined to a list of templates: \<open>ref_match\<close> walks the segments and keeps the templates that
  still fit, literals before wildcards.
\<close>

section \<open>Templates and the trie\<close>

definition splitTemplate :: "string \<Rightarrow> string list" where
  "splitTemplate s =
     (let (verb, rest) = cutAt CHR ''#'' s;
          parts = splitOn CHR ''/'' (trimPrefix rest ''/'')
      in (if verb \<noteq> [] then [verb] else []) @ filter (\<lambda>p. p \<noteq> []) parts)"

datatype pathNode =
  PathNode (pnChildren: "(string \<times> pathNode) list") (pnWildcard: "pathNode option") (pnTemplate: string)

definition newPathNode :: pathNode where
  "newPathNode = PathNode [] None []"

fun node_add :: "string list \<Rightarrow> string \<Rightarrow> pathNode \<Rightarrow> pathNode" where
  "node_add [] t (PathNode ch w u) = PathNode ch w t"
| "node_add (seg # segs) t (PathNode ch w u) =
     (if seg = ''*'' then
        PathNode ch (Some (node_add segs t (case w of None \<Rightarrow> newPathNode | Some n \<Rightarrow> n))) u
      else
        PathNode (AList.update seg (node_add segs t (case map_of ch seg of None \<Rightarrow> newPathNode | Some n \<Rightarrow> n)) ch) w u)"

definition matcher_add :: "string \<Rightarrow> pathNode \<Rightarrow> pathNode" where
  "matcher_add t rt = node_add (splitTemplate t) t rt"

definition NewPathMatcher :: "string list \<Rightarrow> pathNode" where
  "NewPathMatcher ts = fold matcher_add ts newPathNode"

fun node_match :: "pathNode \<Rightarrow> string list \<Rightarrow> string list \<Rightarrow> (string \<times> string list) option" where
  "node_match n captures [] = (if pnTemplate n = [] then None else Some (pnTemplate n, captures))"
| "node_match n captures (seg # segs) =
     (case map_of (pnChildren n) seg of
        Some child \<Rightarrow> node_match child captures segs
      | None \<Rightarrow>
          (case pnWildcard n of
             Some w \<Rightarrow> node_match w (captures @ [seg]) segs
           | None \<Rightarrow> None))"

definition path_Match :: "pathNode \<Rightarrow> string \<Rightarrow> (string \<times> string list) option" where
  "path_Match rt fullPath = node_match rt [] (splitTemplate fullPath)"

section \<open>Rebuilding a URL\<close>

fun fill_segments :: "string list \<Rightarrow> string list \<Rightarrow> string list option" where
  "fill_segments [] params = Some []"
| "fill_segments (seg # segs) params =
     (if seg \<noteq> ''*'' then map_option ((#) seg) (fill_segments segs params)
      else (case params of [] \<Rightarrow> None | p # ps \<Rightarrow> map_option ((#) p) (fill_segments segs ps)))"

definition BuildRestURL :: "string \<Rightarrow> string list \<Rightarrow> (string \<times> string) option" where
  "BuildRestURL template pathParams =
     (let (verb, rest) = cutAt CHR ''#'' template
      in if \<not> go_contains rest ''*'' then Some (verb, rest)
         else map_option (\<lambda>segs. (verb, join ''/'' segs)) (fill_segments (splitOn CHR ''/'' rest) pathParams))"

section \<open>The trie as a list of templates\<close>

type_synonym entries = "(string list \<times> string) list"

definition literal_entries :: "string \<Rightarrow> entries \<Rightarrow> entries" where
  "literal_entries seg es = List.map_filter (\<lambda>(ss, t). case ss of s # rest \<Rightarrow> (if s = seg \<and> s \<noteq> ''*'' then Some (rest, t) else None) | [] \<Rightarrow> None) es"

definition wildcard_entries :: "entries \<Rightarrow> entries" where
  "wildcard_entries es = List.map_filter (\<lambda>(ss, t). case ss of s # rest \<Rightarrow> (if s = ''*'' then Some (rest, t) else None) | [] \<Rightarrow> None) es"

definition ended :: "entries \<Rightarrow> string list" where
  "ended es = map snd (filter (\<lambda>(ss, t). ss = []) es)"

fun ref_match :: "entries \<Rightarrow> string list \<Rightarrow> string list \<Rightarrow> (string \<times> string list) option" where
  "ref_match es captures [] = (if ended es = [] \<or> last (ended es) = [] then None else Some (last (ended es), captures))"
| "ref_match es captures (seg # segs) =
     (if literal_entries seg es \<noteq> [] then ref_match (literal_entries seg es) captures segs
      else if wildcard_entries es \<noteq> [] then ref_match (wildcard_entries es) (captures @ [seg]) segs
      else None)"

definition node_of :: "entries \<Rightarrow> pathNode" where
  "node_of es = fold (\<lambda>(ss, t). node_add ss t) es newPathNode"

lemma node_of_snoc: "node_of (es @ [(ss, t)]) = node_add ss t (node_of es)"
  by (simp add: node_of_def)

lemma entries_snoc:
  "literal_entries seg (es @ [e]) = literal_entries seg es @ literal_entries seg [e]"
  "wildcard_entries (es @ [e]) = wildcard_entries es @ wildcard_entries [e]"
  "ended (es @ [e]) = ended es @ ended [e]"
  by (simp_all add: literal_entries_def wildcard_entries_def ended_def List.map_filter_def)

lemma node_of_parts:
  "pnTemplate (node_of es) = (if ended es = [] then [] else last (ended es))
   \<and> pnWildcard (node_of es) = (if wildcard_entries es = [] then None else Some (node_of (wildcard_entries es)))
   \<and> map_of (pnChildren (node_of es)) seg = (if literal_entries seg es = [] then None else Some (node_of (literal_entries seg es)))"
proof (induction es rule: rev_induct)
  case Nil
  show ?case by (simp add: node_of_def newPathNode_def literal_entries_def wildcard_entries_def ended_def List.map_filter_simps)
next
  case (snoc e es)
  obtain ss t where e: "e = (ss, t)" by (cases e)
  obtain ch w u where n: "node_of es = PathNode ch w u" by (cases "node_of es")
  have nil: "node_of [] = newPathNode" by (simp add: node_of_def)
  show ?case
  proof (cases ss)
    case Nil
    then have "literal_entries seg [e] = []" "wildcard_entries [e] = []" "ended [e] = [t]"
      using e by (simp_all add: literal_entries_def wildcard_entries_def ended_def List.map_filter_simps)
    with snoc e n Nil show ?thesis by (simp add: node_of_snoc entries_snoc)
  next
    case (Cons s rest)
    have new: "literal_entries seg [e] = (if s = seg \<and> s \<noteq> ''*'' then [(rest, t)] else [])"
      "wildcard_entries [e] = (if s = ''*'' then [(rest, t)] else [])" "ended [e] = []"
      using e Cons by (auto simp: literal_entries_def wildcard_entries_def ended_def List.map_filter_simps)
    show ?thesis
      using snoc n e Cons new nil
      by (cases "s = ''*''"; cases "s = seg") (auto simp: node_of_snoc entries_snoc)
  qed
qed

lemma node_match_ref: "node_match (node_of es) captures segs = ref_match es captures segs"
proof (induction segs arbitrary: es captures)
  case Nil
  show ?case using node_of_parts [of es "[]"] by auto
next
  case (Cons seg segs)
  show ?case using node_of_parts [of es seg] Cons.IH by simp
qed

section \<open>Captures and rebuilding\<close>

lemma ref_match_fill:
  "ref_match es captures segs = Some (t, captures') \<Longrightarrow>
     \<exists>ss cs. (ss, t) \<in> set es \<and> captures' = captures @ cs \<and> fill_segments ss cs = Some segs"
proof (induction es captures segs rule: ref_match.induct)
  case (1 es captures)
  then have "last (ended es) \<in> set (ended es)" "t = last (ended es)" "captures' = captures"
    by (auto split: if_splits intro: last_in_set)
  then show ?case by (intro exI [of _ "[]"]) (auto simp: ended_def)
next
  case (2 es captures seg segs)
  show ?case
  proof (cases "literal_entries seg es \<noteq> []")
    case True
    with 2 obtain ss cs where "(ss, t) \<in> set (literal_entries seg es)" "captures' = captures @ cs" "fill_segments ss cs = Some segs"
      by auto
    then show ?thesis
      by (intro exI [of _ "seg # ss"] exI [of _ cs])
        (auto simp: literal_entries_def List.map_filter_def split: list.splits if_splits)
  next
    case False
    with 2 obtain ss cs where "(ss, t) \<in> set (wildcard_entries es)" "captures' = (captures @ [seg]) @ cs" "fill_segments ss cs = Some segs"
      by (auto split: if_splits)
    then show ?thesis
      by (intro exI [of _ "''*'' # ss"] exI [of _ "seg # cs"])
        (auto simp: wildcard_entries_def List.map_filter_def split: list.splits if_splits)
  qed
qed

lemma fill_segments_length: "fill_segments xs cs = Some ys \<Longrightarrow> length ys = length xs"
  by (induction xs cs arbitrary: ys rule: fill_segments.induct) (auto split: if_splits list.splits)

lemma fill_segments_filter:
  assumes "fill_segments (filter (\<lambda>p. p \<noteq> []) xs) cs = Some ys"
  shows "\<exists>zs. fill_segments xs cs = Some zs \<and> filter (\<lambda>p. p \<noteq> []) zs = filter (\<lambda>p. p \<noteq> []) ys \<and> set zs \<subseteq> set xs \<union> set ys"
  using assms
proof (induction xs arbitrary: cs ys)
  case (Cons x xs)
  show ?case
  proof (cases "x = []")
    case True
    then have "fill_segments (filter (\<lambda>p. p \<noteq> []) xs) cs = Some ys" using Cons.prems by simp
    from Cons.IH [OF this] True show ?thesis by auto
  next
    case False
    show ?thesis
    proof (cases "x = ''*''")
      case True
      with False Cons.prems obtain c cs' ys' where cs: "cs = c # cs'" "ys = c # ys'"
        "fill_segments (filter (\<lambda>p. p \<noteq> []) xs) cs' = Some ys'" by (auto split: list.splits)
      from Cons.IH [OF cs(3)] True cs(1,2) show ?thesis by auto
    next
      case lit: False
      with False Cons.prems obtain ys' where ys: "ys = x # ys'"
        "fill_segments (filter (\<lambda>p. p \<noteq> []) xs) cs = Some ys'" by auto
      from Cons.IH [OF ys(2)] lit False ys(1) show ?thesis by auto
    qed
  qed
qed simp

lemma fill_segments_no_star: "''*'' \<notin> set xs \<Longrightarrow> fill_segments xs cs = Some xs"
  by (induction xs) auto

definition path_parts :: "string \<Rightarrow> string list" where
  "path_parts rest = filter (\<lambda>p. p \<noteq> []) (splitOn CHR ''/'' rest)"

lemma path_parts_trim: "filter (\<lambda>p. p \<noteq> []) (splitOn CHR ''/'' (trimPrefix rest ''/'')) = path_parts rest"
  by (cases rest) (auto simp: trimPrefix_def hasPrefix_def path_parts_def)

lemma splitTemplate_parts:
  "splitTemplate s = (if fst (cutAt CHR ''#'' s) \<noteq> [] then [fst (cutAt CHR ''#'' s)] else []) @ path_parts (snd (cutAt CHR ''#'' s))"
  by (simp add: splitTemplate_def path_parts_trim split: prod.split)

lemma path_parts_no_slash: "p \<in> set (path_parts rest) \<Longrightarrow> p \<noteq> [] \<and> CHR ''/'' \<notin> set p"
  by (auto simp: path_parts_def dest: splitOn_no_sep)

lemma contains_star: "go_contains s ''*'' \<longleftrightarrow> CHR ''*'' \<in> set s"
proof -
  have "(\<exists>a b. s = a @ ''*'' @ b) \<longleftrightarrow> CHR ''*'' \<in> set s" by (metis append_Cons append_Nil in_set_conv_decomp)
  then show ?thesis unfolding go_contains_def by (simp add: go_index_None)
qed

lemma splitOn_chars: "p \<in> set (splitOn c s) \<Longrightarrow> set p \<subseteq> set s"
proof (induction s arbitrary: p)
  case (Cons a s)
  then show ?case by (cases "splitOn c s") (auto split: if_splits, blast+)
qed simp

lemma NewPathMatcher_node_of: "NewPathMatcher ts = node_of (map (\<lambda>t. (splitTemplate t, t)) ts)"
proof -
  have "fold matcher_add ts n = fold (\<lambda>(ss, t). node_add ss t) (map (\<lambda>t. (splitTemplate t, t)) ts) n" for n
    by (induction ts arbitrary: n) (simp_all add: matcher_add_def)
  then show ?thesis by (simp add: NewPathMatcher_def node_of_def)
qed

section \<open>Properties\<close>

text \<open>\<^bold>\<open>C10\<close>. The trie implements its template list: for every set of templates and every path, matching in the trie
  gives what walking the list gives: at each segment the templates with that literal if there is one,
  otherwise those with a wildcard, whose segment is captured, and at the end the template registered
  last.\<close>

theorem path_trie_refines_templates:
  "path_Match (NewPathMatcher ts) path =
     ref_match (map (\<lambda>t. (splitTemplate t, t)) ts) [] (splitTemplate path)"
  by (simp add: path_Match_def NewPathMatcher_node_of node_match_ref)

text \<open>\<^bold>\<open>C31\<close>. Rebuilding inverts matching: whenever a path matches a template with a verb, the template and the captures
  give back a verb and a URL path that split into the same segments as the request.\<close>

theorem build_inverts_match:
  assumes "path_Match (NewPathMatcher ts) path = Some (t, captures)"
    and "fst (cutAt CHR ''#'' t) \<noteq> []" "fst (cutAt CHR ''#'' t) \<noteq> ''*''"
  shows "\<exists>verb p. BuildRestURL t captures = Some (verb, p) \<and> splitTemplate (verb @ ''#'' @ p) = splitTemplate path"
proof -
  obtain verb rest where cut: "cutAt CHR ''#'' t = (verb, rest)" by (cases "cutAt CHR ''#'' t")
  with assms(2,3) have v: "verb \<noteq> []" "verb \<noteq> ''*''" by simp_all
  have hash: "CHR ''#'' \<notin> set verb" using cutAt_fst [of "CHR ''#''" t] cut by simp
  from assms(1) obtain ss where "ss = splitTemplate t" "fill_segments ss captures = Some (splitTemplate path)"
    unfolding path_Match_def NewPathMatcher_node_of node_match_ref by (auto dest!: ref_match_fill)
  then have "fill_segments (verb # path_parts rest) captures = Some (splitTemplate path)"
    using cut v by (simp add: splitTemplate_parts)
  then obtain F where F: "fill_segments (path_parts rest) captures = Some F" "splitTemplate path = verb # F"
    using v by auto
  have parts: "p \<noteq> [] \<and> CHR ''/'' \<notin> set p" if "p \<in> set F" for p
  proof -
    have "set F \<subseteq> set (path_parts (snd (cutAt CHR ''#'' path)))"
      using F(2) unfolding splitTemplate_parts [of path] by (auto split: if_splits)
    with that path_parts_no_slash show ?thesis by blast
  qed
  have again: "splitTemplate (verb @ ''#'' @ p) = verb # path_parts p" for p
    using cutAt_append [OF hash] v by (simp add: splitTemplate_parts)
  show ?thesis
  proof (cases "go_contains rest ''*''")
    case True
    obtain G where G: "fill_segments (splitOn CHR ''/'' rest) captures = Some G"
      "filter (\<lambda>p. p \<noteq> []) G = filter (\<lambda>p. p \<noteq> []) F" "set G \<subseteq> set (splitOn CHR ''/'' rest) \<union> set F"
      using fill_segments_filter [OF F(1) [unfolded path_parts_def]] by blast
    have "G \<noteq> []" using fill_segments_length [OF G(1)] by (metis length_0_conv splitOn_not_Nil)
    moreover have "\<forall>p \<in> set G. CHR ''/'' \<notin> set p" using G(3) parts splitOn_no_sep by blast
    ultimately have "path_parts (join ''/'' G) = F"
      using G(2) parts by (simp add: path_parts_def splitOn_join filter_id_conv)
    with True cut G(1) F(2) again [of "join ''/'' G"] show ?thesis by (simp add: BuildRestURL_def)
  next
    case False
    then have "''*'' \<notin> set (path_parts rest)"
      using splitOn_chars [of "''*''" "CHR ''/''" rest] by (auto simp: contains_star path_parts_def)
    with F have "path_parts rest = F" by (simp add: fill_segments_no_star)
    with False cut F(2) again [of rest] show ?thesis by (simp add: BuildRestURL_def)
  qed
qed

section \<open>Witness\<close>

theorem build_inverts_match_witness:
  "\<exists>verb p. BuildRestURL ''GET#/v2/accounts/*'' [''abc''] = Some (verb, p)
     \<and> splitTemplate (verb @ ''#'' @ p) = splitTemplate ''GET#/v2//accounts/abc''"
proof (rule build_inverts_match [of "[''GET#/v2/accounts/*'', ''GET#/v2/status'']"])
  show "path_Match (NewPathMatcher [''GET#/v2/accounts/*'', ''GET#/v2/status'']) ''GET#/v2//accounts/abc'' =
      Some (''GET#/v2/accounts/*'', [''abc''])" by code_simp
qed (simp_all add: cutAt_def)

end
