(* ===== verification/Requests.thy ===== *)
theory Requests
  imports Selectors
begin

text \<open>
  Requests: \<open>internal/protocol/request.go\<close>, \<open>rest_request.go\<close> and \<open>json_rpc_request.go\<close>, and the tag parsing
  of \<open>pkg/methods/method.go\<close> they call.

  A request has an identity, the hash under which its response is cached, and a tag, the block
  reference its parameters name. Byte slices are strings. The hash function (\<open>blake2b\<close>), the JSON codec
  (\<open>sonic\<close>), the jq engine (\<open>gojq\<close>) and the block numbers of \<open>go-ethereum\<close> are third party: they are the
  fields of \<open>tag_ops\<close> and the argument \<open>sum256\<close>. \<open>url.Values.Encode\<close> is the standard library's and is
  written out. A field guarded by a \<open>sync.Once\<close> is an option, \<open>None\<close> until the first call. The observer of a
  request only feeds metrics and is left out.
\<close>

section \<open>Request kinds\<close>

datatype HttpMethod = Get | Post

fun HttpMethod_String :: "HttpMethod \<Rightarrow> string" where
  "HttpMethod_String Post = ''POST''"
| "HttpMethod_String Get = ''GET''"

datatype RequestType = Rest | JsonRpc | Ws | Grpc | UnknownRequest

fun RequestType_String :: "RequestType \<Rightarrow> string" where
  "RequestType_String Rest = ''rest''"
| "RequestType_String JsonRpc = ''json-rpc''"
| "RequestType_String Ws = ''ws''"
| "RequestType_String UnknownRequest = ''unknown''"
| "RequestType_String Grpc = ''grpc''"

definition calculateHash :: "(string \<Rightarrow> byte list) \<Rightarrow> string \<Rightarrow> string" where
  "calculateHash sum256 b = hex_encode (sum256 b)"

section \<open>Query strings\<close>

text \<open>\<open>url.QueryEscape\<close>: letters, digits and \<open>-_.~\<close> stand for themselves, a space is \<open>+\<close>, every other byte is
  \<open>%\<close> and two upper-case hexadecimal digits. \<open>url.Values.Encode\<close> writes the pairs by sorted key.\<close>

definition unreserved :: "char \<Rightarrow> bool" where
  "unreserved c \<longleftrightarrow>
     (let k = (of_char c :: nat) in
      (97 \<le> k \<and> k \<le> 122) \<or> (65 \<le> k \<and> k \<le> 90) \<or> (48 \<le> k \<and> k \<le> 57) \<or> c \<in> {CHR ''-'', CHR ''_'', CHR ''.'', CHR ''~''})"

definition upper_hex :: "nat \<Rightarrow> char" where
  "upper_hex n = ''0123456789ABCDEF'' ! n"

definition escape_char :: "char \<Rightarrow> string" where
  "escape_char c =
     (if unreserved c then [c]
      else if c = CHR '' '' then ''+''
      else [CHR ''%'', upper_hex (of_char c div 16), upper_hex (of_char c mod 16)])"

definition QueryEscape :: "string \<Rightarrow> string" where
  "QueryEscape s = concat (map escape_char s)"

type_synonym url_query = "(string, string list) gomap"

definition query_pairs :: "url_query \<Rightarrow> (string \<times> string) list" where
  "query_pairs q = concat (map (\<lambda>k. map (Pair k) (case map_of q k of None \<Rightarrow> [] | Some vs \<Rightarrow> vs)) (sort (gm_keys q)))"

definition encode_pair :: "string \<times> string \<Rightarrow> string" where
  "encode_pair p = QueryEscape (fst p) @ ''='' @ QueryEscape (snd p)"

definition values_Encode :: "url_query \<Rightarrow> string" where
  "values_Encode q = join ''&'' (map encode_pair (query_pairs q))"

section \<open>REST requests\<close>

record RequestParams =
  Headers :: "(string, string list) gomap"
  QueryParams :: url_query
  PathParams :: "string list"

definition be64 :: "nat \<Rightarrow> string" where
  "be64 n = map (\<lambda>i. char_of (n div 256 ^ i)) (rev [0..<8])"

definition writeSection :: "char \<times> string \<Rightarrow> string" where
  "writeSection s = fst s # be64 (length (snd s)) @ snd s"

definition rest_sections ::
  "string \<Rightarrow> RequestParams option \<Rightarrow> string \<Rightarrow> RequestSelector list \<Rightarrow> (char \<times> string) list" where
  "rest_sections method params body selectors =
     [(CHR ''m'', method)] @
     (case params of
        None \<Rightarrow> []
      | Some ps \<Rightarrow>
          map (Pair (CHR ''p'')) (PathParams ps) @
          (if QueryParams ps \<noteq> [] then [(CHR ''q'', values_Encode (QueryParams ps))] else [])) @
     (if body \<noteq> [] then [(CHR ''b'', body)] else []) @
     (let labelKey = LabelCacheKey selectors in if labelKey \<noteq> [] then [(CHR ''s'', labelKey)] else [])"

definition rest_buffer :: "string \<Rightarrow> RequestParams option \<Rightarrow> string \<Rightarrow> RequestSelector list \<Rightarrow> string" where
  "rest_buffer method params body selectors = concat (map writeSection (rest_sections method params body selectors))"

definition calculateRestHash ::
  "(string \<Rightarrow> byte list) \<Rightarrow> string \<Rightarrow> RequestParams option \<Rightarrow> string \<Rightarrow> RequestSelector list \<Rightarrow> string" where
  "calculateRestHash sum256 method params body selectors =
     calculateHash sum256 (rest_buffer method params body selectors)"

record UpstreamRestRequest =
  restId :: string
  restMethod :: string
  restKey :: "string option"
  restBody :: string
  restParams :: "RequestParams option"
  restSpecMethod :: "Method option"
  restSelectors :: "RequestSelector list"
  restIsStream :: bool

definition NewUpstreamRestRequest ::
  "resolvedSpecs \<Rightarrow> string \<Rightarrow> string \<Rightarrow> RequestParams option \<Rightarrow> string \<Rightarrow> string \<Rightarrow> RequestSelector list \<Rightarrow> UpstreamRestRequest" where
  "NewUpstreamRestRequest specs i methodTemplate params body spec selectors =
     \<lparr>restId = i, restMethod = methodTemplate, restKey = None, restBody = body, restParams = params,
      restSpecMethod = Some (GetSpecMethodWithFallback specs spec methodTemplate), restSelectors = selectors,
      restIsStream = False\<rparr>"

definition NewStreamUpstreamRestRequest ::
  "resolvedSpecs \<Rightarrow> string \<Rightarrow> string \<Rightarrow> RequestParams option \<Rightarrow> string \<Rightarrow> string \<Rightarrow> RequestSelector list \<Rightarrow> UpstreamRestRequest" where
  "NewStreamUpstreamRestRequest specs i methodTemplate params body spec selectors =
     (NewUpstreamRestRequest specs i methodTemplate params body spec selectors)\<lparr>restIsStream := True\<rparr>"

definition NewInternalUpstreamRestRequestWithBody ::
  "resolvedSpecs \<Rightarrow> string \<Rightarrow> RequestParams option \<Rightarrow> string \<Rightarrow> string \<Rightarrow> UpstreamRestRequest" where
  "NewInternalUpstreamRestRequestWithBody specs methodTemplate params body spec =
     NewUpstreamRestRequest specs ''1'' methodTemplate params body spec []"

definition rest_RequestHash :: "(string \<Rightarrow> byte list) \<Rightarrow> UpstreamRestRequest \<Rightarrow> string \<times> UpstreamRestRequest" where
  "rest_RequestHash sum256 r =
     (case restKey r of
        Some k \<Rightarrow> (k, r)
      | None \<Rightarrow>
          (let k = calculateRestHash sum256 (restMethod r) (restParams r) (restBody r) (restSelectors r)
           in (k, r\<lparr>restKey := Some k\<rparr>)))"

section \<open>Tags\<close>

text \<open>A JSON value as \<open>sonic\<close> decodes it into an \<open>any\<close>; a number is kept as its text.\<close>

datatype json =
    JNull | JBool bool | JNum string | JStr string | JArr "json list" | JObj "(string \<times> json) list"

datatype MethodParam =
    BlockNumberParam i64
  | BlockRangeParam "i64 option" "i64 option"
  | HashTagParam string
  | StringParam string

text \<open>\<open>jq_run q v\<close> lists what the iterator of query \<open>q\<close> yields on \<open>v\<close>, \<open>jq_modify\<close> the same for a modifying
  query with \<open>$newValue\<close> bound. \<open>eth_number s\<close> and \<open>eth_ref s\<close> decode the JSON string with content \<open>s\<close> into a block number
  and into a hash or block number.\<close>

record tag_ops =
  json_decode :: "string \<Rightarrow> json option"
  json_encode :: "json \<Rightarrow> string option"
  jq_run :: "string \<Rightarrow> json \<Rightarrow> (string + json) list"
  jq_modify :: "string \<Rightarrow> json \<Rightarrow> json \<Rightarrow> (string + json) list"
  eth_number :: "string \<Rightarrow> i64 option"
  eth_ref :: "string \<Rightarrow> (string option \<times> i64 option) option"

fun jqParse :: "(string + json) list \<Rightarrow> string + json" where
  "jqParse [] = Inl ''no parsed value''"
| "jqParse (Inl err # _) = Inl err"
| "jqParse (Inr param # _) = Inr param"

definition isBlockTag :: "string \<Rightarrow> bool" where
  "isBlockTag p \<longleftrightarrow> p \<in> {''latest'', ''earliest'', ''pending'', ''finalized'', ''safe''}"

definition isHexNumberOrTag :: "string \<Rightarrow> bool" where
  "isHexNumberOrTag p \<longleftrightarrow> hasPrefix p ''0x'' \<or> isBlockTag p"

text \<open>A bound of a range: absent or null is \<open>nil\<close>; a value that is not a string prints as text no block
  number has, so its decoding fails.\<close>

definition range_bound :: "tag_ops \<Rightarrow> (string \<times> json) list \<Rightarrow> string \<Rightarrow> i64 option option" where
  "range_bound T obj key =
     (case map_of obj key of
        None \<Rightarrow> Some None
      | Some JNull \<Rightarrow> Some None
      | Some (JStr s) \<Rightarrow> map_option Some (eth_number T s)
      | Some _ \<Rightarrow> None)"

definition parseTag :: "tag_ops \<Rightarrow> string \<Rightarrow> json \<Rightarrow> MethodParam option" where
  "parseTag T returnType param =
     (case param of
        JStr s \<Rightarrow>
          if returnType = ''blockNumber'' \<and> isHexNumberOrTag s then map_option BlockNumberParam (eth_number T s)
          else if returnType = ''blockRef'' then
            (case eth_ref T s of
               None \<Rightarrow> None
             | Some (Some h, _) \<Rightarrow> Some (HashTagParam h)
             | Some (None, Some n) \<Rightarrow> Some (BlockNumberParam n)
             | Some (None, None) \<Rightarrow> None)
          else if returnType = ''string'' then Some (StringParam s)
          else None
      | JObj obj \<Rightarrow>
          if returnType \<noteq> ''blockRange'' then None
          else (case range_bound T obj ''from'' of
                  None \<Rightarrow> None
                | Some from \<Rightarrow> (case range_bound T obj ''to'' of
                    None \<Rightarrow> None
                  | Some to \<Rightarrow> Some (BlockRangeParam from to)))
      | _ \<Rightarrow> None)"

text \<open>\<open>Method.Parse\<close>. An object parameter is read at whichever key the map iteration \<open>ro\<close> gives first; a
  key that is no parser type panics, the outer \<open>None\<close>.\<close>

definition Method_Parse ::
  "tag_ops \<Rightarrow> ((string \<times> json) list \<Rightarrow> (string \<times> json) list) \<Rightarrow> Method \<Rightarrow> json \<Rightarrow> MethodParam option option" where
  "Method_Parse T ro m data =
     (case parser m of
        None \<Rightarrow> Some None
      | Some (returnType, query) \<Rightarrow>
          (case jqParse (jq_run T query data) of
             Inl _ \<Rightarrow> Some None
           | Inr (JStr s) \<Rightarrow> Some (parseTag T returnType (JStr s))
           | Inr (JObj obj) \<Rightarrow>
               if returnType \<noteq> ''object'' then Some None
               else (case ro obj of
                       [] \<Rightarrow> Some None
                     | (key, val) # _ \<Rightarrow>
                         if ParserReturnType_validate key \<noteq> None then None else Some (parseTag T key val))
           | Inr _ \<Rightarrow> Some None))"

definition Method_Modify :: "tag_ops \<Rightarrow> Method \<Rightarrow> json \<Rightarrow> json \<Rightarrow> string" where
  "Method_Modify T m data newV =
     (case modifyParser m of
        None \<Rightarrow> []
      | Some query \<Rightarrow>
          (case jqParse (jq_modify T query data newV) of
             Inl _ \<Rightarrow> []
           | Inr v \<Rightarrow> (case json_encode T v of None \<Rightarrow> [] | Some s \<Rightarrow> s)))"

section \<open>JSON-RPC requests\<close>

record UpstreamJsonRpcRequest =
  jId :: string
  realId :: string
  jMethod :: string
  parsedParam :: "MethodParam option"
  requestParams :: string
  requestKey :: "string option"
  jSpecMethod :: "Method option"
  jSelectors :: "RequestSelector list"
  parsed :: bool
  jIsStream :: bool
  jIsSub :: bool

definition NewUpstreamJsonRpcRequest ::
  "resolvedSpecs \<Rightarrow> string \<Rightarrow> string \<Rightarrow> string \<Rightarrow> string \<Rightarrow> bool \<Rightarrow> string \<Rightarrow> RequestSelector list \<Rightarrow> UpstreamJsonRpcRequest" where
  "NewUpstreamJsonRpcRequest specs i bodyId method params isSub spec selectors =
     \<lparr>jId = i, realId = bodyId, jMethod = method, parsedParam = None, requestParams = params,
      requestKey = None, jSpecMethod = Some (GetSpecMethodWithFallback specs spec method), jSelectors = selectors,
      parsed = False, jIsStream = False, jIsSub = isSub\<rparr>"

definition NewStreamUpstreamJsonRpcRequest ::
  "resolvedSpecs \<Rightarrow> string \<Rightarrow> string \<Rightarrow> string \<Rightarrow> string \<Rightarrow> string \<Rightarrow> RequestSelector list \<Rightarrow> UpstreamJsonRpcRequest" where
  "NewStreamUpstreamJsonRpcRequest specs i bodyId method params spec selectors =
     (NewUpstreamJsonRpcRequest specs i bodyId method params False spec selectors)\<lparr>jIsStream := True\<rparr>"

definition marshalJsonRPCParams :: "tag_ops \<Rightarrow> json option \<Rightarrow> string option" where
  "marshalJsonRPCParams T params = json_encode T (case params of None \<Rightarrow> JArr [] | Some v \<Rightarrow> v)"

definition internal_request ::
  "tag_ops \<Rightarrow> resolvedSpecs \<Rightarrow> bool \<Rightarrow> string \<Rightarrow> json option \<Rightarrow> string \<Rightarrow> UpstreamJsonRpcRequest option" where
  "internal_request T specs isSub method params spec =
     (case marshalJsonRPCParams T params of
        None \<Rightarrow> None
      | Some ps \<Rightarrow>
          Some \<lparr>jId = ''1'', realId = ''1'', jMethod = method, parsedParam = None, requestParams = ps,
                requestKey = None, jSpecMethod = GetSpecMethod specs spec method, jSelectors = [],
                parsed = False, jIsStream = False, jIsSub = isSub\<rparr>)"

definition NewInternalUpstreamJsonRpcRequest ::
  "tag_ops \<Rightarrow> resolvedSpecs \<Rightarrow> string \<Rightarrow> json option \<Rightarrow> string \<Rightarrow> UpstreamJsonRpcRequest option" where
  "NewInternalUpstreamJsonRpcRequest T specs method params spec = internal_request T specs False method params spec"

definition NewInternalSubUpstreamJsonRpcRequest ::
  "tag_ops \<Rightarrow> resolvedSpecs \<Rightarrow> string \<Rightarrow> json option \<Rightarrow> string \<Rightarrow> UpstreamJsonRpcRequest option" where
  "NewInternalSubUpstreamJsonRpcRequest T specs method params spec = internal_request T specs True method params spec"

definition calculateJsonRpcHash ::
  "(string \<Rightarrow> byte list) \<Rightarrow> string \<Rightarrow> string \<Rightarrow> RequestSelector list \<Rightarrow> string" where
  "calculateJsonRpcHash sum256 method params selectors =
     calculateHash sum256 (params @ method @ LabelCacheKey selectors)"

text \<open>The parameters as a JSON value: none at all reads as the empty array.\<close>

definition decoded_params :: "tag_ops \<Rightarrow> string \<Rightarrow> json option" where
  "decoded_params T params = (if params = [] then Some (JArr []) else json_decode T params)"

definition ParseParams ::
  "tag_ops \<Rightarrow> ((string \<times> json) list \<Rightarrow> (string \<times> json) list) \<Rightarrow> UpstreamJsonRpcRequest
     \<Rightarrow> (MethodParam option \<times> UpstreamJsonRpcRequest) option" where
  "ParseParams T ro r =
     (case jSpecMethod r of
        None \<Rightarrow> Some (None, r)
      | Some m \<Rightarrow>
          if parsedParam r \<noteq> None \<and> parsed r then Some (parsedParam r, r)
          else (case decoded_params T (requestParams r) of
                  None \<Rightarrow> Some (None, r)
                | Some v \<Rightarrow> (case Method_Parse T ro m v of
                    None \<Rightarrow> None
                  | Some p \<Rightarrow> Some (p, r\<lparr>parsedParam := p, parsed := True\<rparr>))))"

definition ModifyParams :: "tag_ops \<Rightarrow> json \<Rightarrow> UpstreamJsonRpcRequest \<Rightarrow> UpstreamJsonRpcRequest" where
  "ModifyParams T newV r =
     (case jSpecMethod r of
        None \<Rightarrow> r
      | Some m \<Rightarrow> (case decoded_params T (requestParams r) of
          None \<Rightarrow> r
        | Some v \<Rightarrow>
            (let modified = Method_Modify T m v newV
             in if modified \<noteq> [] then r\<lparr>requestParams := modified, parsed := False\<rparr> else r)))"

definition RequestHash :: "(string \<Rightarrow> byte list) \<Rightarrow> UpstreamJsonRpcRequest \<Rightarrow> string \<times> UpstreamJsonRpcRequest" where
  "RequestHash sum256 r =
     (case requestKey r of
        Some k \<Rightarrow> (k, r)
      | None \<Rightarrow>
          (let k = calculateJsonRpcHash sum256 (jMethod r) (requestParams r) (jSelectors r)
           in (k, r\<lparr>requestKey := Some k\<rparr>)))"

definition RealId :: "tag_ops \<Rightarrow> UpstreamJsonRpcRequest \<Rightarrow> string" where
  "RealId T r =
     (let raw = trimSpace (realId r) in
      if raw = [] then []
      else if hd raw = CHR 0x22 \<and> last raw = CHR 0x22 then
        (case json_decode T raw of Some (JStr s) \<Rightarrow> s | _ \<Rightarrow> raw)
      else raw)"

section \<open>Query strings can be read back\<close>

fun QueryUnescape :: "string \<Rightarrow> string" where
  "QueryUnescape (c # s) =
     (if c = CHR ''%'' then
        (case s of
           a # b # s' \<Rightarrow> char_of (16 * the (hex_val a) + the (hex_val b)) # QueryUnescape s'
         | _ \<Rightarrow> [])
      else (if c = CHR ''+'' then CHR '' '' else c) # QueryUnescape s)"
| "QueryUnescape [] = []"

lemma upper_hex_digits:
  "n < 16 \<Longrightarrow> hex_val (upper_hex n) = Some n"
  "n < 16 \<Longrightarrow> upper_hex n \<noteq> CHR ''&'' \<and> upper_hex n \<noteq> CHR ''=''"
proof -
  have "list_all (\<lambda>n. hex_val (upper_hex n) = Some n \<and> upper_hex n \<noteq> CHR ''&'' \<and> upper_hex n \<noteq> CHR ''='') [0..<16]"
    by code_simp
  then show "n < 16 \<Longrightarrow> hex_val (upper_hex n) = Some n"
    "n < 16 \<Longrightarrow> upper_hex n \<noteq> CHR ''&'' \<and> upper_hex n \<noteq> CHR ''=''"
    by (simp_all add: list_all_iff)
qed

lemma not_unreserved: "\<not> unreserved CHR ''%''" "\<not> unreserved CHR ''+''" "\<not> unreserved CHR ''&''" "\<not> unreserved CHR ''=''"
  by code_simp+

lemma char_nibbles: "(of_char c :: nat) div 16 < 16" "(of_char c :: nat) mod 16 < 16"
proof -
  have "(of_char c :: nat) < 16 * 16" by simp
  then show "(of_char c :: nat) div 16 < 16" by (simp only: less_mult_imp_div_less)
qed simp

lemma unescape_escape_char: "QueryUnescape (escape_char c @ s) = c # QueryUnescape s"
proof (cases "unreserved c")
  case True
  then have "c \<noteq> CHR ''%''" "c \<noteq> CHR ''+''" using not_unreserved by auto
  with True show ?thesis by (simp add: escape_char_def)
next
  case False
  have "char_of (16 * ((of_char c :: nat) div 16) + of_char c mod 16) = c"
    by (simp only: mult_div_mod_eq char_of_char)
  with False char_nibbles [of c] show ?thesis
    by (simp only: escape_char_def if_False append_Cons append_Nil QueryUnescape.simps upper_hex_digits(1)
        option.sel list.case if_True split: if_split) simp
qed

lemma QueryUnescape_Escape: "QueryUnescape (QueryEscape s) = s"
  by (induction s) (simp_all add: QueryEscape_def unescape_escape_char)

lemma QueryEscape_inject: "QueryEscape a = QueryEscape b \<longleftrightarrow> a = b"
  by (metis QueryUnescape_Escape)

lemma QueryEscape_plain: "CHR ''&'' \<notin> set (QueryEscape s)" "CHR ''='' \<notin> set (QueryEscape s)"
proof -
  have "CHR ''&'' \<notin> set (escape_char c) \<and> CHR ''='' \<notin> set (escape_char c)" for c
    using not_unreserved upper_hex_digits(2) [OF char_nibbles(1) [of c]] upper_hex_digits(2) [OF char_nibbles(2) [of c]]
    by (simp add: escape_char_def) (metis not_unreserved)
  then show "CHR ''&'' \<notin> set (QueryEscape s)" "CHR ''='' \<notin> set (QueryEscape s)"
    by (auto simp: QueryEscape_def)
qed

lemma encode_pair_inject: "encode_pair p = encode_pair p' \<longleftrightarrow> p = p'"
proof
  assume "encode_pair p = encode_pair p'"
  then have "cutAt CHR ''='' (encode_pair p) = cutAt CHR ''='' (encode_pair p')" by simp
  then show "p = p'" by (simp add: encode_pair_def cutAt_append QueryEscape_plain QueryEscape_inject prod_eq_iff)
qed simp

lemma encode_pair_no_amp: "CHR ''&'' \<notin> set (encode_pair p)"
  by (simp add: encode_pair_def QueryEscape_plain)

lemma encode_pairs_inject:
  "join ''&'' (map encode_pair ps) = join ''&'' (map encode_pair ps') \<longleftrightarrow> ps = ps'"
proof
  assume eq: "join ''&'' (map encode_pair ps) = join ''&'' (map encode_pair ps')"
  have ne: "join ''&'' (map encode_pair qs) = [] \<longleftrightarrow> qs = []" for qs
    by (induction qs rule: induct_list012) (simp_all add: encode_pair_def)
  have split: "splitOn CHR ''&'' (join ''&'' (map encode_pair qs)) = map encode_pair qs" if "qs \<noteq> []" for qs
    using that encode_pair_no_amp by (intro splitOn_join) auto
  show "ps = ps'"
  proof (cases "ps = []")
    case True
    with eq ne [of ps] ne [of ps'] show ?thesis by simp
  next
    case False
    with eq ne have "ps' \<noteq> []" by metis
    with False eq split have "map encode_pair ps = map encode_pair ps'" by metis
    moreover have "inj encode_pair" by (simp add: inj_def encode_pair_inject)
    ultimately show ?thesis by (simp add: inj_map_eq_map)
  qed
qed simp

section \<open>Sections can be read back\<close>

lemma foldl_digits:
  "foldl (\<lambda>acc c. acc * 256 + of_char c) a (map (\<lambda>i. char_of (n div 256 ^ i)) (rev [0..<k])) =
     a * 256 ^ k + n mod (256 :: nat) ^ k"
proof (induction k arbitrary: a)
  case (Suc k)
  have "n mod 256 ^ Suc k = 256 ^ k * (n div 256 ^ k mod 256) + n mod 256 ^ k"
    by (metis mod_mult2_eq power_Suc2)
  with Suc show ?case by (simp add: algebra_simps)
qed simp

lemma be64_inject: "n < 2 ^ 64 \<Longrightarrow> m < 2 ^ 64 \<Longrightarrow> be64 n = be64 m \<Longrightarrow> n = m"
proof -
  have "foldl (\<lambda>acc c. acc * 256 + of_char c) 0 (be64 n) = n mod 2 ^ 64" for n
    using foldl_digits [of 0 n 8] by (simp add: be64_def)
  then show "n < 2 ^ 64 \<Longrightarrow> m < 2 ^ 64 \<Longrightarrow> be64 n = be64 m \<Longrightarrow> n = m" by (metis mod_less)
qed

lemma length_be64 [simp]: "length (be64 n) = 8"
  by (simp add: be64_def)

lemma sections_inject:
  "\<forall>s \<in> set xs. length (snd s) < 2 ^ 64 \<Longrightarrow> \<forall>s \<in> set ys. length (snd s) < 2 ^ 64 \<Longrightarrow>
   concat (map writeSection xs) = concat (map writeSection ys) \<Longrightarrow> xs = ys"
proof (induction xs arbitrary: ys)
  case Nil
  then show ?case by (cases ys) (simp_all add: writeSection_def)
next
  case (Cons x xs)
  then obtain y ys' where ys: "ys = y # ys'" by (cases ys) (simp_all add: writeSection_def)
  have eq: "fst x = fst y" "be64 (length (snd x)) = be64 (length (snd y))"
    "snd x @ concat (map writeSection xs) = snd y @ concat (map writeSection ys')"
    using Cons.prems(3) ys by (simp_all add: writeSection_def [of x] writeSection_def [of y])
  then have "length (snd x) = length (snd y)" using be64_inject Cons.prems(1,2) ys by simp
  with eq have "x = y" "concat (map writeSection xs) = concat (map writeSection ys')"
    by (simp_all add: prod_eq_iff)
  with Cons ys show ?case by simp
qed

text \<open>What a REST request asks for: its path captures, its query, if it has one, by its pairs.\<close>

definition rest_path :: "RequestParams option \<Rightarrow> string list" where
  "rest_path params = (case params of None \<Rightarrow> [] | Some ps \<Rightarrow> PathParams ps)"

definition rest_query :: "RequestParams option \<Rightarrow> (string \<times> string) list option" where
  "rest_query params =
     (case params of
        None \<Rightarrow> None
      | Some ps \<Rightarrow> if QueryParams ps \<noteq> [] then Some (query_pairs (QueryParams ps)) else None)"

definition tagged :: "char \<Rightarrow> (char \<times> string) list \<Rightarrow> string list" where
  "tagged t xs = map snd (filter (\<lambda>s. fst s = t) xs)"

lemma rest_sections_alt:
  "rest_sections method params body selectors =
     [(CHR ''m'', method)] @ map (Pair (CHR ''p'')) (rest_path params) @
     (case rest_query params of None \<Rightarrow> [] | Some prs \<Rightarrow> [(CHR ''q'', join ''&'' (map encode_pair prs))]) @
     (if body \<noteq> [] then [(CHR ''b'', body)] else []) @
     (if LabelCacheKey selectors \<noteq> [] then [(CHR ''s'', LabelCacheKey selectors)] else [])"
  by (simp add: rest_sections_def rest_path_def rest_query_def values_Encode_def Let_def split: option.split)

lemma tagged_sections:
  "tagged CHR ''m'' (rest_sections method params body selectors) = [method]"
  "tagged CHR ''p'' (rest_sections method params body selectors) = rest_path params"
  "tagged CHR ''q'' (rest_sections method params body selectors) =
     (case rest_query params of None \<Rightarrow> [] | Some prs \<Rightarrow> [join ''&'' (map encode_pair prs)])"
  "tagged CHR ''b'' (rest_sections method params body selectors) = (if body \<noteq> [] then [body] else [])"
  "tagged CHR ''s'' (rest_sections method params body selectors) =
     (if LabelCacheKey selectors \<noteq> [] then [LabelCacheKey selectors] else [])"
  unfolding rest_sections_alt
  by (simp_all add: tagged_def filter_map comp_def split: option.split)

lemma rest_sections_inject:
  "rest_sections method params body selectors = rest_sections method' params' body' selectors' \<longleftrightarrow>
     method = method' \<and> rest_path params = rest_path params' \<and> rest_query params = rest_query params' \<and>
     body = body' \<and> LabelCacheKey selectors = LabelCacheKey selectors'"
proof
  assume eq: "rest_sections method params body selectors = rest_sections method' params' body' selectors'"
  have same: "tagged t (rest_sections method params body selectors) = tagged t (rest_sections method' params' body' selectors')" for t
    using eq by simp
  have "method = method'" "rest_path params = rest_path params'"
    using same [of "CHR ''m''"] same [of "CHR ''p''"] by (simp_all add: tagged_sections)
  moreover have "rest_query params = rest_query params'"
    using same [of "CHR ''q''"] by (simp add: tagged_sections encode_pairs_inject split: option.splits)
  moreover have "body = body'" "LabelCacheKey selectors = LabelCacheKey selectors'"
    using same [of "CHR ''b''"] same [of "CHR ''s''"] by (auto simp: tagged_sections split: if_splits)
  ultimately show "method = method' \<and> rest_path params = rest_path params' \<and> rest_query params = rest_query params' \<and>
     body = body' \<and> LabelCacheKey selectors = LabelCacheKey selectors'" by blast
qed (simp add: rest_sections_alt)

section \<open>The memoised tag\<close>

datatype request_op = OpParse | OpModify json | OpHash

fun request_step ::
  "(string \<Rightarrow> byte list) \<Rightarrow> tag_ops \<Rightarrow> ((string \<times> json) list \<Rightarrow> (string \<times> json) list) \<Rightarrow> request_op
     \<Rightarrow> UpstreamJsonRpcRequest \<Rightarrow> UpstreamJsonRpcRequest option" where
  "request_step sum256 T ro OpParse r = map_option snd (ParseParams T ro r)"
| "request_step sum256 T ro (OpModify v) r = Some (ModifyParams T v r)"
| "request_step sum256 T ro OpHash r = Some (snd (RequestHash sum256 r))"

fun request_run ::
  "(string \<Rightarrow> byte list) \<Rightarrow> tag_ops \<Rightarrow> ((string \<times> json) list \<Rightarrow> (string \<times> json) list) \<Rightarrow> request_op list
     \<Rightarrow> UpstreamJsonRpcRequest \<Rightarrow> UpstreamJsonRpcRequest option" where
  "request_run sum256 T ro [] r = Some r"
| "request_run sum256 T ro (op # ops) r =
     (case request_step sum256 T ro op r of None \<Rightarrow> None | Some r' \<Rightarrow> request_run sum256 T ro ops r')"

definition fresh_tag ::
  "tag_ops \<Rightarrow> ((string \<times> json) list \<Rightarrow> (string \<times> json) list) \<Rightarrow> Method option \<Rightarrow> string \<Rightarrow> MethodParam option option" where
  "fresh_tag T ro m params =
     (case m of
        None \<Rightarrow> Some None
      | Some m \<Rightarrow> (case decoded_params T params of None \<Rightarrow> Some None | Some v \<Rightarrow> Method_Parse T ro m v))"

definition tag_current ::
  "tag_ops \<Rightarrow> ((string \<times> json) list \<Rightarrow> (string \<times> json) list) \<Rightarrow> UpstreamJsonRpcRequest \<Rightarrow> bool" where
  "tag_current T ro r \<longleftrightarrow>
     (parsed r \<and> parsedParam r \<noteq> None \<longrightarrow> fresh_tag T ro (jSpecMethod r) (requestParams r) = Some (parsedParam r))"

lemma ParseParams_fresh:
  "tag_current T ro r \<Longrightarrow> map_option fst (ParseParams T ro r) = fresh_tag T ro (jSpecMethod r) (requestParams r)"
  by (auto simp: ParseParams_def fresh_tag_def tag_current_def split: option.splits)

lemma tag_current_step:
  "tag_current T ro r \<Longrightarrow> request_step sum256 T ro op r = Some r' \<Longrightarrow> tag_current T ro r'"
  by (cases op)
    (auto simp: ParseParams_def ModifyParams_def RequestHash_def fresh_tag_def tag_current_def Let_def
      split: option.splits if_splits)

lemma tag_current_run:
  "tag_current T ro r \<Longrightarrow> request_run sum256 T ro ops r = Some r' \<Longrightarrow> tag_current T ro r'"
  by (induction ops arbitrary: r) (auto dest: tag_current_step split: option.splits)

section \<open>Properties\<close>

text \<open>\<^bold>\<open>C9\<close>. The identity of a REST request is exact: two requests write the same bytes to the hash exactly when they have the
  same method template, path captures, query pairs, body and node-class key. The length-prefixed sections
  never run into each other and the query encoding can be read back.\<close>

theorem rest_identity_is_exact:
  assumes "\<forall>s \<in> set (rest_sections method params body selectors). length (snd s) < 2 ^ 64"
    and "\<forall>s \<in> set (rest_sections method' params' body' selectors'). length (snd s) < 2 ^ 64"
  shows "rest_buffer method params body selectors = rest_buffer method' params' body' selectors' \<longleftrightarrow>
     method = method' \<and> rest_path params = rest_path params' \<and> rest_query params = rest_query params' \<and>
     body = body' \<and> LabelCacheKey selectors = LabelCacheKey selectors'"
  using sections_inject [OF assms] unfolding rest_buffer_def rest_sections_inject [symmetric] by auto

text \<open>The tag a JSON-RPC request remembers is never stale: after any run of parsing, parameter modification and
  hashing, asking for the tag gives what parsing the current parameters from scratch gives.\<close>

theorem remembered_tag_is_current:
  assumes "request_run sum256 T ro ops (NewUpstreamJsonRpcRequest specs i bodyId method params isSub spec selectors) = Some r"
  shows "map_option fst (ParseParams T ro r) = fresh_tag T ro (jSpecMethod r) (requestParams r)"
  using assms by (intro ParseParams_fresh tag_current_run [OF _ assms]) (simp add: tag_current_def NewUpstreamJsonRpcRequest_def)

section \<open>Witnesses\<close>

theorem rest_identity_is_exact_witness:
  "rest_buffer ''GET#/a/*'' None ''x'' [] \<noteq>
   rest_buffer ''GET#/a/*'' (Some \<lparr>Headers = [], QueryParams = [], PathParams = [''x'']\<rparr>) [] []"
  using rest_identity_is_exact [of "''GET#/a/*''" None "''x''" "[]" "''GET#/a/*''"
      "Some \<lparr>Headers = [], QueryParams = [], PathParams = [''x'']\<rparr>" "[]" "[]"]
  by (simp add: rest_sections_def LabelCacheKey_def)

definition sample_tag_ops :: tag_ops where
  "sample_tag_ops = \<lparr>json_decode = (\<lambda>s. Some (JArr [JStr s])), json_encode = (\<lambda>_. Some ''0x2''),
     jq_run = (\<lambda>_ v. case v of JArr (x # _) \<Rightarrow> [Inr x] | _ \<Rightarrow> []),
     jq_modify = (\<lambda>_ _ n. [Inr n]),
     eth_number = (\<lambda>s. if s = ''0x1'' then Some 1 else if s = ''0x2'' then Some 2 else None),
     eth_ref = (\<lambda>_. None)\<rparr>"

definition sample_tag_method :: Method where
  "sample_tag_method = (DefaultMethodWithConnectorTypes ''m'' [])\<lparr>parser := Some (''blockNumber'', ''.[0]''),
     modifyParser := Some ''.[0] = $newValue'', cacheable := True\<rparr>"

definition sample_tag_specs :: resolvedSpecs where
  "sample_tag_specs = [(''eth'', \<lparr>rsMethods = Some [(''default'', [(''m'', sample_tag_method)])], rsConnectors = None\<rparr>)]"

theorem remembered_tag_is_current_witness:
  "\<exists>r. request_run (\<lambda>_. []) sample_tag_ops id [OpParse, OpHash, OpModify JNull]
      (NewUpstreamJsonRpcRequest sample_tag_specs ''7'' ''1'' ''m'' ''0x1'' False ''eth'' []) = Some r
    \<and> parsedParam r = Some (BlockNumberParam 1)
    \<and> map_option fst (ParseParams sample_tag_ops id r) = Some (Some (BlockNumberParam 2))"
proof -
  let ?r0 = "NewUpstreamJsonRpcRequest sample_tag_specs ''7'' ''1'' ''m'' ''0x1'' False ''eth'' []"
  let ?run = "request_run (\<lambda>_. []) sample_tag_ops id [OpParse, OpHash, OpModify JNull] ?r0"
  have "?run \<noteq> None" by code_simp
  then obtain r where r: "?run = Some r" by auto
  have "map_option parsedParam ?run = Some (Some (BlockNumberParam 1))"
    "map_option (\<lambda>r. fresh_tag sample_tag_ops id (jSpecMethod r) (requestParams r)) ?run = Some (Some (Some (BlockNumberParam 2)))"
    by code_simp+
  with r remembered_tag_is_current [OF r] show ?thesis by simp
qed

end
