(* ===== verification/Chains.thy ===== *)
theory Chains
  imports Specs GoStrings
begin

text \<open>
  The chain registry: \<open>pkg/chains/chains.go\<close> and \<open>options.go\<close>.

  The package variables are the fields of \<open>registry\<close>. The YAML library is third party: \<open>yaml_ops\<close> reads a file
  into its structures and a settings tree into \<open>Settings\<close>. \<open>chains_data.go\<close> is generated at build time from
  \<open>chains.yaml\<close>; its table and its \<open>String\<close> cases are the initial \<open>chainsMap\<close> and the argument \<open>gen\<close>, and what the
  generator promises of them is \<open>generated_ok\<close>. \<open>getNetVersion\<close> parses with \<open>big.Int.SetString\<close>, whose result is
  undefined for an ill-formed id; it is the field \<open>net_version\<close>.
\<close>

section \<open>Data\<close>

definition IsValidBlockchainType :: "string \<Rightarrow> bool" where
  "IsValidBlockchainType t \<longleftrightarrow>
     t \<in> {''avm'', ''bitcoin'', ''cosmos'', ''eth'', ''eth-beacon-chain'', ''near'', ''polkadot'', ''solana'',
          ''starknet'', ''stellar'', ''ton'', ''aztec'', ''aptos''}"

definition ArchiveLabel :: string where "ArchiveLabel = ''archive''"

record Options =
  InternalTimeout :: i64
  ValidationInterval :: i64
  DisableValidation :: "bool option"
  DisableSettingsValidation :: "bool option"
  DisableChainValidation :: "bool option"
  DisableHealthValidation :: "bool option"
  DisableLowerBoundsDetection :: "bool option"
  DisableSafeBlockDetection :: "bool option"
  DisableFinalizedBlockDetection :: "bool option"
  DisableLabelsDetection :: "bool option"
  DisableMethodsDetection :: "bool option"
  DisableLogIndexValidation :: "bool option"
  DisableLivenessSubscriptionValidation :: "bool option"
  ArchiveCapability :: "bool option"
  ValidateSyncing :: "bool option"
  ValidatePeers :: "bool option"
  MinPeers :: i64
  ValidateCallLimit :: "bool option"
  ValidateClientVersion :: "bool option"
  CallLimitSize :: i64

definition boolValue :: "bool option \<Rightarrow> bool \<Rightarrow> bool" where
  "boolValue v fallback = (case v of None \<Rightarrow> fallback | Some b \<Rightarrow> b)"

definition FinalizedBlockDetectionDisabled :: "Options option \<Rightarrow> bool" where
  "FinalizedBlockDetectionDisabled opts =
     (case opts of None \<Rightarrow> False | Some p \<Rightarrow> boolValue (DisableFinalizedBlockDetection p) False)"

definition SafeBlockDetectionDisabled :: "Options option \<Rightarrow> bool" where
  "SafeBlockDetectionDisabled opts =
     (case opts of None \<Rightarrow> False | Some p \<Rightarrow> boolValue (DisableSafeBlockDetection p) False)"

definition LivenessSubscriptionValidationDisabled :: "Options option \<Rightarrow> bool" where
  "LivenessSubscriptionValidationDisabled opts =
     (case opts of None \<Rightarrow> False | Some p \<Rightarrow> boolValue (DisableLivenessSubscriptionValidation p) False)"

text \<open>\<open>True\<close> is a nil error.\<close>

definition Options_Validate :: "Options \<Rightarrow> bool" where
  "Options_Validate p \<longleftrightarrow> \<not> InternalTimeout p < 0 \<and> \<not> ValidationInterval p < 0"

record Settings =
  ExpectedBlockTime :: i64
  settingsMethodSpec :: string
  Lagging :: i64
  SyncingLag :: i64
  settingsOptions :: "Options option"
  SupportFinalizedBlockTag :: "bool option"
  SupportSafeBlockTag :: "bool option"

datatype yaml = YMap "(string \<times> yaml) list" | YSeq "yaml list" | YScalar string

record GoldLowerBound =
  goldBlock :: u64
  goldHash :: string

record ChainLowerBounds =
  goldTx :: "GoldLowerBound option"
  goldReceipts :: "GoldLowerBound option"

record ChainData =
  cdShortNames :: "string list"
  cdChainId :: string
  cdGrpcId :: int
  cdMethodSpec :: string
  cdSettings :: "(string \<times> yaml) list"
  cdNetVersion :: string
  cdCallValidateContract :: string
  cdGasPriceCondition :: "string list"
  cdLowerBounds :: "ChainLowerBounds option"

record Protocol =
  protoChains :: "ChainData list"
  protoSettings :: "(string \<times> yaml) list"
  protoType :: string

record ChainSettings =
  csProtocols :: "Protocol list"
  csDefault :: "(string \<times> yaml) list"

record ConfiguredChain =
  GrpcId :: int
  ChainId :: string
  NetVersion :: string
  ShortNames :: "string list"
  chainType :: string
  chainSettings :: Settings
  chainNo :: int
  chainMethodSpec :: string
  CallValidateContract :: string
  GasPriceCondition :: "string list"
  chainLowerBounds :: "ChainLowerBounds option"

definition UnknownChain :: ConfiguredChain where
  "UnknownChain =
     \<lparr>GrpcId = 0, ChainId = ''0x0'', NetVersion = ''0'', ShortNames = [], chainType = [],
      chainSettings = \<lparr>ExpectedBlockTime = 0, settingsMethodSpec = [], Lagging = 0, SyncingLag = 0,
        settingsOptions = None, SupportFinalizedBlockTag = None, SupportSafeBlockTag = None\<rparr>,
      chainNo = - 1, chainMethodSpec = [], CallValidateContract = [], GasPriceCondition = [], chainLowerBounds = None\<rparr>"

type_synonym chain_table = "(string, ConfiguredChain) gomap"
type_synonym grpc_table = "(int, ConfiguredChain) gomap"

record registry =
  chains :: chain_table
  grpcChains :: grpc_table
  chainsMap :: "(string, int) gomap"
  dynamicChainNames :: "(int, string) gomap"
  nextDynamicChainId :: int
  extraChainsLoadedFlag :: bool

record yaml_ops =
  yaml_file :: "string \<Rightarrow> ChainSettings option"
  yaml_settings :: "(string \<times> yaml) list \<Rightarrow> Settings option"
  net_version :: "string \<Rightarrow> string"

datatype chains_error =
    YamlError | ZeroBlockTimePanic | NoShortNames | ShortNameTaken string | GrpcIdTaken int string | AlreadyLoaded

section \<open>Settings\<close>

fun deepMerge :: "(string \<times> yaml) list \<Rightarrow> (string \<times> yaml) list \<Rightarrow> (string \<times> yaml) list" where
  "deepMerge dst [] = dst"
| "deepMerge dst ((key, srcVal) # src) =
     AList.update key
       (case srcVal of
          YMap srcMap \<Rightarrow> (case map_of dst key of Some (YMap dstMap) \<Rightarrow> YMap (deepMerge dstMap srcMap) | _ \<Rightarrow> srcVal)
        | _ \<Rightarrow> srcVal)
       (deepMerge dst src)"

definition getMethodSpecName :: "string \<Rightarrow> string \<Rightarrow> string" where
  "getMethodSpecName blockchainType methodSpecName =
     (if methodSpecName \<noteq> [] then methodSpecName
      else case map_of
        [(''eth'', ''eth''), (''solana'', ''solana''), (''aztec'', ''aztec''), (''avm'', ''algorand''),
         (''eth-beacon-chain'', ''eth-beacon-chain''), (''aptos'', ''aptos''), (''bitcoin'', ''bitcoin''),
         (''near'', ''near''), (''polkadot'', ''polkadot''), (''starknet'', ''starknet''), (''stellar'', ''stellar''),
         (''ton'', ''ton''), (''cosmos'', ''cosmos'')] blockchainType of
        None \<Rightarrow> []
      | Some name \<Rightarrow> name)"

section \<open>Configuration\<close>

text \<open>The \<open>Chain\<close> number of a primary short name: the one it has, or a new one.\<close>

definition allocate :: "string \<Rightarrow> registry \<Rightarrow> int \<times> registry" where
  "allocate name R =
     (case map_of (chainsMap R) name of
        Some network \<Rightarrow> (network, R)
      | None \<Rightarrow>
          (let network = nextDynamicChainId R
           in (network, R\<lparr>nextDynamicChainId := network + 1, chainsMap := AList.update name network (chainsMap R),
                 dynamicChainNames := AList.update network name (dynamicChainNames R)\<rparr>)))"

definition configured :: "yaml_ops \<Rightarrow> string \<Rightarrow> Settings \<Rightarrow> ChainData \<Rightarrow> int \<Rightarrow> ConfiguredChain" where
  "configured Y type settings ch network =
     (let netVersion = (if cdNetVersion ch \<noteq> [] then cdNetVersion ch else net_version Y (cdChainId ch));
          methodSpec = (if cdMethodSpec ch \<noteq> [] then getMethodSpecName type (cdMethodSpec ch)
                        else getMethodSpecName type (settingsMethodSpec settings))
      in \<lparr>GrpcId = cdGrpcId ch, ChainId = toLower (cdChainId ch), NetVersion = toLower netVersion,
          ShortNames = cdShortNames ch, chainType = type, chainSettings = settings, chainNo = network,
          chainMethodSpec = methodSpec, CallValidateContract = cdCallValidateContract ch,
          GasPriceCondition = cdGasPriceCondition ch, chainLowerBounds = cdLowerBounds ch\<rparr>)"

type_synonym tables = "chain_table \<times> grpc_table"

definition add_chain :: "ConfiguredChain \<Rightarrow> tables \<Rightarrow> tables" where
  "add_chain c t =
     (fold (\<lambda>name. AList.update name c) (ShortNames c) (fst t), AList.update (GrpcId c) c (snd t))"

fun configure_chains ::
  "yaml_ops \<Rightarrow> (string \<times> yaml) list \<Rightarrow> string \<Rightarrow> ChainData list \<Rightarrow> tables \<Rightarrow> registry \<Rightarrow> (chains_error + tables) \<times> registry" where
  "configure_chains Y defaults type [] t R = (Inr t, R)"
| "configure_chains Y defaults type (ch # chs) t R =
     (case yaml_settings Y (deepMerge defaults (cdSettings ch)) of
        None \<Rightarrow> (Inl YamlError, R)
      | Some settings \<Rightarrow>
          if ExpectedBlockTime settings = 0 then (Inl ZeroBlockTimePanic, R)
          else (case cdShortNames ch of
                  [] \<Rightarrow> (Inl NoShortNames, R)
                | name # _ \<Rightarrow>
                    (case allocate name R of
                       (network, R') \<Rightarrow>
                         configure_chains Y defaults type chs (add_chain (configured Y type settings ch network) t) R')))"

fun configure_protocols ::
  "yaml_ops \<Rightarrow> (string \<times> yaml) list \<Rightarrow> Protocol list \<Rightarrow> tables \<Rightarrow> registry \<Rightarrow> (chains_error + tables) \<times> registry" where
  "configure_protocols Y dflt [] t R = (Inr t, R)"
| "configure_protocols Y dflt (p # ps) t R =
     (case configure_chains Y (deepMerge dflt (protoSettings p)) (protoType p) (protoChains p) t R of
        (Inl e, R') \<Rightarrow> (Inl e, R')
      | (Inr t', R') \<Rightarrow> configure_protocols Y dflt ps t' R')"

definition configureChainsFromBytes :: "yaml_ops \<Rightarrow> string \<Rightarrow> registry \<Rightarrow> (chains_error + tables) \<times> registry" where
  "configureChainsFromBytes Y raw R =
     (case yaml_file Y raw of
        None \<Rightarrow> (Inl YamlError, R)
      | Some cfg \<Rightarrow> configure_protocols Y (csDefault cfg) (csProtocols cfg) ([], []) R)"

text \<open>\<open>init\<close> panics on an error.\<close>

definition init_registry :: "yaml_ops \<Rightarrow> string \<Rightarrow> (string, int) gomap \<Rightarrow> int \<Rightarrow> registry option" where
  "init_registry Y raw generated base =
     (case configureChainsFromBytes Y raw
        \<lparr>chains = [], grpcChains = [], chainsMap = generated, dynamicChainNames = [], nextDynamicChainId = base,
         extraChainsLoadedFlag = False\<rparr> of
        (Inl _, _) \<Rightarrow> None
      | (Inr (cc, cg), R) \<Rightarrow> Some (R\<lparr>chains := cc, grpcChains := cg\<rparr>))"

definition extra_conflict :: "registry \<Rightarrow> string \<times> ConfiguredChain \<Rightarrow> chains_error option" where
  "extra_conflict R e =
     (if map_of (chains R) (fst e) \<noteq> None then Some (ShortNameTaken (fst e))
      else if map_of (grpcChains R) (GrpcId (snd e)) \<noteq> None \<and> GrpcId (snd e) \<noteq> 0
      then Some (GrpcIdTaken (GrpcId (snd e)) (fst e))
      else None)"

definition loadExtraChainsLocked ::
  "yaml_ops \<Rightarrow> (chain_table \<Rightarrow> chain_table) \<Rightarrow> string \<Rightarrow> registry \<Rightarrow> chains_error option \<times> registry" where
  "loadExtraChainsLocked Y ro raw R =
     (case configureChainsFromBytes Y raw R of
        (Inl e, R') \<Rightarrow> (Some e, R')
      | (Inr (cc, cg), R') \<Rightarrow>
          (case List.map_filter (extra_conflict R') (ro cc) of
             e # _ \<Rightarrow> (Some e, R')
           | [] \<Rightarrow>
               (None, R'\<lparr>chains := fold (\<lambda>(name, c). AList.update name c) cc (chains R'),
                  grpcChains := fold (\<lambda>(i, c). if i \<noteq> 0 then AList.update i c else id) cg (grpcChains R')\<rparr>)))"

definition LoadExtraChains ::
  "yaml_ops \<Rightarrow> (chain_table \<Rightarrow> chain_table) \<Rightarrow> string \<Rightarrow> registry \<Rightarrow> chains_error option \<times> registry" where
  "LoadExtraChains Y ro raw R =
     (if raw = [] then (None, R)
      else if extraChainsLoadedFlag R then (Some AlreadyLoaded, R)
      else (case loadExtraChainsLocked Y ro raw R of
              (Some e, R') \<Rightarrow> (Some e, R')
            | (None, R') \<Rightarrow> (None, R'\<lparr>extraChainsLoadedFlag := True\<rparr>)))"

section \<open>Lookup\<close>

definition IsSupported :: "registry \<Rightarrow> string \<Rightarrow> bool" where
  "IsSupported R name \<longleftrightarrow> map_of (chains R) name \<noteq> None"

definition GetChain :: "registry \<Rightarrow> string \<Rightarrow> ConfiguredChain" where
  "GetChain R name = (case map_of (chains R) name of None \<Rightarrow> UnknownChain | Some c \<Rightarrow> c)"

definition GetChainByGrpcId :: "registry \<Rightarrow> int \<Rightarrow> ConfiguredChain" where
  "GetChainByGrpcId R i = (case map_of (grpcChains R) i of None \<Rightarrow> UnknownChain | Some c \<Rightarrow> c)"

definition GetChainByChainIdAndVersion ::
  "(chain_table \<Rightarrow> chain_table) \<Rightarrow> registry \<Rightarrow> string \<Rightarrow> string \<Rightarrow> string \<Rightarrow> ConfiguredChain" where
  "GetChainByChainIdAndVersion ro R type cid netVersion =
     (case find (\<lambda>(_, c). chainType c = type \<and> ChainId c = cid \<and> NetVersion c = netVersion) (ro (chains R)) of
        None \<Rightarrow> UnknownChain
      | Some (_, c) \<Rightarrow> c)"

text \<open>\<open>Chain.String\<close> of the generated file.\<close>

definition Chain_String :: "(int \<rightharpoonup> string) \<Rightarrow> registry \<Rightarrow> int \<Rightarrow> string" where
  "Chain_String gen R c =
     (if c = 0 then ''unknown''
      else case gen c of
             Some name \<Rightarrow> name
           | None \<Rightarrow> (case map_of (dynamicChainNames R) c of Some name \<Rightarrow> name | None \<Rightarrow> ''unknown''))"

definition GetMethodSpecNameByChainName :: "registry \<Rightarrow> string \<Rightarrow> string" where
  "GetMethodSpecNameByChainName R name = chainMethodSpec (GetChain R name)"

definition GetMethodSpecNameByChain :: "(int \<rightharpoonup> string) \<Rightarrow> registry \<Rightarrow> int \<Rightarrow> string" where
  "GetMethodSpecNameByChain gen R c = chainMethodSpec (GetChain R (Chain_String gen R c))"

section \<open>Names and numbers\<close>

text \<open>What the generator promises: its table and its \<open>String\<close> cases are inverse, and its numbers lie
  strictly between zero and the first dynamic number.\<close>

definition generated_ok :: "(int \<rightharpoonup> string) \<Rightarrow> (string, int) gomap \<Rightarrow> int \<Rightarrow> bool" where
  "generated_ok gen generated base \<longleftrightarrow>
     0 < base \<and> (\<forall>i name. gen i = Some name \<longrightarrow> 0 < i \<and> i < base) \<and>
     (\<forall>i name. map_of generated name = Some i \<longrightarrow> gen i = Some name)"

definition names_ok :: "(int \<rightharpoonup> string) \<Rightarrow> int \<Rightarrow> registry \<Rightarrow> bool" where
  "names_ok gen base R \<longleftrightarrow>
     0 < base \<and> base \<le> nextDynamicChainId R \<and>
     (\<forall>i name. gen i = Some name \<longrightarrow> 0 < i \<and> i < base) \<and>
     (\<forall>i name. map_of (dynamicChainNames R) i = Some name \<longrightarrow> base \<le> i \<and> i < nextDynamicChainId R) \<and>
     (\<forall>i name. map_of (chainsMap R) name = Some i \<longrightarrow> gen i = Some name \<or> map_of (dynamicChainNames R) i = Some name)"

definition keeps_names :: "registry \<Rightarrow> registry \<Rightarrow> bool" where
  "keeps_names R R' \<longleftrightarrow>
     (\<forall>name i. map_of (chainsMap R) name = Some i \<longrightarrow> map_of (chainsMap R') name = Some i) \<and>
     chains R' = chains R \<and> grpcChains R' = grpcChains R \<and> extraChainsLoadedFlag R' = extraChainsLoadedFlag R"

lemma keeps_names_refl [simp]: "keeps_names R R"
  by (simp add: keeps_names_def)

lemma keeps_names_trans: "keeps_names R R' \<Longrightarrow> keeps_names R' R'' \<Longrightarrow> keeps_names R R''"
  by (simp add: keeps_names_def)

lemma names_ok_String:
  assumes "names_ok gen base R" "map_of (chainsMap R) name = Some i"
  shows "Chain_String gen R i = name"
proof -
  from assms consider "gen i = Some name" "0 < i" | "map_of (dynamicChainNames R) i = Some name" "base \<le> i"
    unfolding names_ok_def by blast
  then show ?thesis
  proof cases
    case 2
    with assms have "gen i = None" "0 < i" unfolding names_ok_def by (metis not_le option.exhaust, linarith)
    with 2 show ?thesis by (simp add: Chain_String_def)
  qed (simp add: Chain_String_def)
qed

lemma allocate_props:
  assumes "names_ok gen base R" "allocate name R = (network, R')"
  shows "names_ok gen base R'" "keeps_names R R'" "map_of (chainsMap R') name = Some network"
proof -
  show "keeps_names R R'" "map_of (chainsMap R') name = Some network"
    using assms(2) by (auto simp: allocate_def keeps_names_def Let_def update_conv' split: option.splits)
  show "names_ok gen base R'"
  proof (cases "map_of (chainsMap R) name")
    case (Some i)
    with assms show ?thesis by (simp add: allocate_def)
  next
    case None
    with assms(2) have R': "R' = R\<lparr>nextDynamicChainId := nextDynamicChainId R + 1,
        chainsMap := AList.update name (nextDynamicChainId R) (chainsMap R),
        dynamicChainNames := AList.update (nextDynamicChainId R) name (dynamicChainNames R)\<rparr>"
      by (auto simp: allocate_def Let_def)
    have fresh: "map_of (dynamicChainNames R) (nextDynamicChainId R) = None"
      using assms(1) unfolding names_ok_def by (metis less_irrefl option.exhaust)
    show ?thesis
      using assms(1) fresh unfolding R' names_ok_def
      by (auto simp: fun_upd_apply split: if_splits) (metis option.distinct(1))
  qed
qed

section \<open>Tables\<close>

definition listed :: "registry \<Rightarrow> chain_table \<Rightarrow> ConfiguredChain \<Rightarrow> bool" where
  "listed R cc c \<longleftrightarrow>
     ShortNames c \<noteq> [] \<and> map_of (chainsMap R) (hd (ShortNames c)) = Some (chainNo c) \<and>
     map_of cc (hd (ShortNames c)) \<noteq> None"

definition tables_ok :: "registry \<Rightarrow> tables \<Rightarrow> bool" where
  "tables_ok R t \<longleftrightarrow> gm_wf (fst t) \<and> gm_wf (snd t) \<and>
     (\<forall>name c. map_of (fst t) name = Some c \<longrightarrow> listed R (fst t) c) \<and>
     (\<forall>i c. map_of (snd t) i = Some c \<longrightarrow> GrpcId c = i \<and> listed R (fst t) c)"

lemma map_of_fold_names:
  "map_of (fold (\<lambda>name. AList.update name c) names m) n = (if n \<in> set names then Some c else map_of m n)"
  by (induction names arbitrary: m) (auto simp: update_conv')

lemma distinct_fold_names: "gm_wf m \<Longrightarrow> gm_wf (fold (\<lambda>name. AList.update name c) names m)"
  by (induction names arbitrary: m) (simp_all add: distinct_update)

lemma listed_mono:
  assumes "listed R cc c" "keeps_names R R'" "\<And>n. map_of cc n \<noteq> None \<Longrightarrow> map_of cc' n \<noteq> None"
  shows "listed R' cc' c"
  using assms unfolding listed_def keeps_names_def by blast

lemma add_chain_ok:
  assumes "tables_ok R t" "keeps_names R R'" "ShortNames c \<noteq> []" "map_of (chainsMap R') (hd (ShortNames c)) = Some (chainNo c)"
  shows "tables_ok R' (add_chain c t)"
proof -
  have new: "listed R' (fst (add_chain c t)) c"
    using assms(3,4) by (simp add: listed_def add_chain_def map_of_fold_names)
  have old: "listed R' (fst (add_chain c t)) d" if "listed R (fst t) d" for d
    using listed_mono [OF that assms(2)] by (simp add: add_chain_def map_of_fold_names)
  show ?thesis
    using assms(1) new old unfolding tables_ok_def
    by (auto simp: add_chain_def map_of_fold_names distinct_fold_names distinct_update update_conv' split: if_splits)
qed

lemma configure_chains_ok:
  assumes "configure_chains Y dflt type chs t R = (r, R')" "names_ok gen base R" "tables_ok R t"
  shows "names_ok gen base R' \<and> keeps_names R R' \<and> (\<forall>t'. r = Inr t' \<longrightarrow> tables_ok R' t')"
  using assms
proof (induction chs arbitrary: t R)
  case (Cons ch chs)
  show ?case
  proof (cases "yaml_settings Y (deepMerge dflt (cdSettings ch))")
    case (Some settings)
    show ?thesis
    proof (cases "ExpectedBlockTime settings = 0 \<or> cdShortNames ch = []")
      case True
      with Some Cons.prems show ?thesis by (auto split: list.splits if_splits)
    next
      case False
      then obtain name names where n: "cdShortNames ch = name # names" by (cases "cdShortNames ch") auto
      obtain network R1 where a: "allocate name R = (network, R1)" by fastforce
      let ?c = "configured Y type settings ch network"
      note al = allocate_props [OF Cons.prems(2) a]
      have run: "configure_chains Y dflt type chs (add_chain ?c t) R1 = (r, R')"
        using Cons.prems(1) Some False n a by simp
      have "tables_ok R1 (add_chain ?c t)"
        using al n by (intro add_chain_ok [OF Cons.prems(3)]) (simp_all add: configured_def Let_def)
      from Cons.IH [OF run al(1) this] al(2) show ?thesis using keeps_names_trans by blast
    qed
  qed (use Cons.prems in auto)
qed auto

lemma configure_protocols_ok:
  assumes "configure_protocols Y dflt ps t R = (r, R')" "names_ok gen base R" "tables_ok R t"
  shows "names_ok gen base R' \<and> keeps_names R R' \<and> (\<forall>t'. r = Inr t' \<longrightarrow> tables_ok R' t')"
  using assms
proof (induction ps arbitrary: t R)
  case (Cons p ps)
  obtain r1 R1 where c: "configure_chains Y (deepMerge dflt (protoSettings p)) (protoType p) (protoChains p) t R = (r1, R1)"
    by fastforce
  note ok = configure_chains_ok [OF c Cons.prems(2,3)]
  show ?case
  proof (cases r1)
    case (Inl e)
    with c ok Cons.prems(1) show ?thesis by auto
  next
    case (Inr t1)
    with c ok Cons.prems(1) Cons.IH [of t1 R1] show ?thesis using keeps_names_trans by fastforce
  qed
qed auto

lemma configure_ok:
  assumes "configureChainsFromBytes Y raw R = (r, R')" "names_ok gen base R"
  shows "names_ok gen base R' \<and> keeps_names R R' \<and> (\<forall>t'. r = Inr t' \<longrightarrow> tables_ok R' t')"
  using assms configure_protocols_ok [of Y _ _ "([], [])" R r R' gen base]
  by (fastforce simp: configureChainsFromBytes_def tables_ok_def split: option.splits)

lemma map_of_fold_update_wf:
  "gm_wf cc \<Longrightarrow> map_of (fold (\<lambda>(k, v). AList.update k v) cc m) k = (case map_of cc k of Some v \<Rightarrow> Some v | None \<Rightarrow> map_of m k)"
  by (simp add: map_of_fold_update map_of_rev_wf map_add_def)

definition chains_ok :: "registry \<Rightarrow> bool" where
  "chains_ok R \<longleftrightarrow> (\<forall>name c. map_of (chains R) name = Some c \<longrightarrow> listed R (chains R) c)"

lemma init_registry_ok:
  assumes "init_registry Y raw generated base = Some R" "generated_ok gen generated base"
  shows "names_ok gen base R \<and> chains_ok R \<and> \<not> extraChainsLoadedFlag R"
proof -
  let ?R0 = "\<lparr>chains = [], grpcChains = [], chainsMap = generated, dynamicChainNames = [], nextDynamicChainId = base,
         extraChainsLoadedFlag = False\<rparr>"
  obtain cc cg R1 where c: "configureChainsFromBytes Y raw ?R0 = (Inr (cc, cg), R1)" "R = R1\<lparr>chains := cc, grpcChains := cg\<rparr>"
    using assms(1) by (auto simp: init_registry_def split: prod.splits sum.splits)
  have "names_ok gen base ?R0" using assms(2) by (simp add: names_ok_def generated_ok_def)
  from configure_ok [OF c(1) this] show ?thesis
    unfolding c(2) names_ok_def keeps_names_def chains_ok_def tables_ok_def listed_def by auto
qed

lemma loadExtra_ok:
  assumes "LoadExtraChains Y ro raw R = (e, R')" "range_order ro" "names_ok gen base R" "chains_ok R"
  shows "names_ok gen base R' \<and> chains_ok R' \<and>
    (\<forall>name c. map_of (chains R) name = Some c \<longrightarrow> map_of (chains R') name = Some c) \<and>
    (e \<noteq> None \<longrightarrow> chains R' = chains R \<and> grpcChains R' = grpcChains R \<and> extraChainsLoadedFlag R' = extraChainsLoadedFlag R) \<and>
    (e = None \<and> raw \<noteq> [] \<longrightarrow> extraChainsLoadedFlag R')"
proof (cases "raw = [] \<or> extraChainsLoadedFlag R")
  case True
  with assms show ?thesis by (auto simp: LoadExtraChains_def split: if_splits)
next
  case False
  obtain r R1 where c: "configureChainsFromBytes Y raw R = (r, R1)" by fastforce
  note ok = configure_ok [OF c assms(3)]
  have keep: "chains R1 = chains R" "grpcChains R1 = grpcChains R" "extraChainsLoadedFlag R1 = extraChainsLoadedFlag R"
    using ok by (simp_all add: keeps_names_def)
  have ch1: "listed R1 (chains R) c" if "map_of (chains R) name = Some c" for name c
    using assms(4) that ok listed_mono unfolding chains_ok_def by blast
  show ?thesis
  proof (cases "\<exists>cc cg. r = Inr (cc, cg) \<and> List.map_filter (extra_conflict R1) (ro cc) = []")
    case False
    then have "R' = R1 \<and> e \<noteq> None"
      using \<open>\<not> (raw = [] \<or> extraChainsLoadedFlag R)\<close> assms(1) c
      by (auto simp: LoadExtraChains_def loadExtraChainsLocked_def split: sum.splits list.splits)
    with ok keep ch1 show ?thesis by (auto simp: chains_ok_def)
  next
    case True
    then obtain cc cg where r: "r = Inr (cc, cg)" and none: "List.map_filter (extra_conflict R1) (ro cc) = []" by blast
    let ?R2 = "R1\<lparr>chains := fold (\<lambda>(name, c). AList.update name c) cc (chains R1),
        grpcChains := fold (\<lambda>(i, c). if i \<noteq> 0 then AList.update i c else id) cg (grpcChains R1), extraChainsLoadedFlag := True\<rparr>"
    have R': "R' = ?R2" "e = None"
      using \<open>\<not> (raw = [] \<or> extraChainsLoadedFlag R)\<close> assms(1) c r none
      by (auto simp: LoadExtraChains_def loadExtraChainsLocked_def)
    have tab: "gm_wf cc" "\<And>name c. map_of cc name = Some c \<Longrightarrow> listed R1 cc c"
      using ok r by (simp_all add: tables_ok_def)
    have look: "map_of (chains R') name = (case map_of cc name of Some c \<Rightarrow> Some c | None \<Rightarrow> map_of (chains R) name)" for name
      unfolding R' using map_of_fold_update_wf [OF tab(1), of "chains R" name] keep(1) by (simp split: option.split)
    have apart: "map_of cc name = None" if "map_of (chains R) name \<noteq> None" for name
    proof (rule ccontr)
      assume "map_of cc name \<noteq> None"
      then obtain c where "(name, c) \<in> set (ro cc)" using range_order_set [OF assms(2)] by (fastforce dest: map_of_SomeD)
      moreover have "extra_conflict R1 (name, c) \<noteq> None" using that keep by (simp add: extra_conflict_def)
      ultimately show False using none by (force simp: List.map_filter_def filter_empty_conv)
    qed
    have "listed R' (chains R') c" if "map_of (chains R') name = Some c" for name c
    proof -
      have "listed R1 (chains R') c"
      proof (cases "map_of cc name")
        case None
        with that look have "map_of (chains R) name = Some c" by simp
        then show ?thesis using ch1 look by (auto simp: listed_def split: option.splits)
      next
        case (Some d)
        with that look have "d = c" by simp
        with tab(2) [OF Some] look show ?thesis by (auto simp: listed_def split: option.splits)
      qed
      then show ?thesis unfolding R' listed_def by simp
    qed
    moreover have "names_ok gen base R'" using ok unfolding R' names_ok_def by simp
    moreover have "map_of (chains R') name = Some c" if "map_of (chains R) name = Some c" for name c
      using that look apart by simp
    ultimately show ?thesis unfolding chains_ok_def using R' by simp
  qed
qed

lemmas startup_ok = loadExtra_ok [OF _ _ conjunct1 [OF init_registry_ok] conjunct1 [OF conjunct2 [OF init_registry_ok]]]

section \<open>Layered settings\<close>

text \<open>The value at a path of a settings tree. A path is free in an overriding tree when that tree says
  nothing about it: no value at the path, on the way to it or below it.\<close>

fun yget :: "(string \<times> yaml) list \<Rightarrow> string list \<Rightarrow> yaml option" where
  "yget m [] = Some (YMap m)"
| "yget m (k # ks) = (case map_of m k of
     Some (YMap m') \<Rightarrow> yget m' ks
   | Some v \<Rightarrow> if ks = [] then Some v else None
   | None \<Rightarrow> None)"

fun yfree :: "(string \<times> yaml) list \<Rightarrow> string list \<Rightarrow> bool" where
  "yfree m [] = False"
| "yfree m (k # ks) = (case map_of m k of None \<Rightarrow> True | Some (YMap m') \<Rightarrow> yfree m' ks | Some _ \<Rightarrow> False)"

definition yleaf :: "yaml \<Rightarrow> bool" where
  "yleaf v = (case v of YMap _ \<Rightarrow> False | _ \<Rightarrow> True)"

fun ywf :: "yaml \<Rightarrow> bool" where
  "ywf (YMap m) \<longleftrightarrow> distinct (map fst m) \<and> (\<forall>e \<in> set m. ywf (snd e))"
| "ywf (YSeq vs) = True"
| "ywf (YScalar s) = True"

lemma deepMerge_lookup:
  "distinct (map fst src) \<Longrightarrow> map_of (deepMerge dst src) k =
     (case map_of src k of
        None \<Rightarrow> map_of dst k
      | Some v \<Rightarrow> Some (case v of
          YMap s \<Rightarrow> (case map_of dst k of Some (YMap d) \<Rightarrow> YMap (deepMerge d s) | _ \<Rightarrow> v)
        | _ \<Rightarrow> v))"
proof (induction src)
  case (Cons e src)
  obtain key v where [simp]: "e = (key, v)" by fastforce
  show ?case
  proof (cases "k = key")
    case True
    show ?thesis unfolding True by simp
  next
    case False
    with Cons show ?thesis by simp
  qed
qed simp

lemma deepMerge_override:
  "ywf (YMap src) \<Longrightarrow> yget src ks = Some v \<Longrightarrow> yleaf v \<Longrightarrow> yget (deepMerge dst src) ks = Some v"
proof (induction ks arbitrary: src dst)
  case (Cons k ks)
  have l: "map_of (deepMerge dst src) k = (case map_of src k of
        None \<Rightarrow> map_of dst k
      | Some v \<Rightarrow> Some (case v of
          YMap s \<Rightarrow> (case map_of dst k of Some (YMap d) \<Rightarrow> YMap (deepMerge d s) | _ \<Rightarrow> v)
        | _ \<Rightarrow> v))"
    using Cons.prems(1) by (intro deepMerge_lookup) simp
  show ?case
  proof (cases "map_of src k")
    case (Some w)
    show ?thesis
    proof (cases w)
      case (YMap s)
      with Some Cons.prems(1) have "ywf (YMap s)" by (metis map_of_SomeD snd_conv ywf.simps(1))
      with Some YMap Cons l show ?thesis by (auto split: option.splits yaml.splits)
    qed (use Some Cons.prems l in auto)
  qed (use Cons.prems in simp)
qed (auto simp: yleaf_def)

lemma deepMerge_default:
  "ywf (YMap src) \<Longrightarrow> yfree src ks \<Longrightarrow> yget dst ks = Some v \<Longrightarrow> yget (deepMerge dst src) ks = Some v"
proof (induction ks arbitrary: src dst)
  case (Cons k ks)
  have l: "map_of (deepMerge dst src) k = (case map_of src k of
        None \<Rightarrow> map_of dst k
      | Some v \<Rightarrow> Some (case v of
          YMap s \<Rightarrow> (case map_of dst k of Some (YMap d) \<Rightarrow> YMap (deepMerge d s) | _ \<Rightarrow> v)
        | _ \<Rightarrow> v))"
    using Cons.prems(1) by (intro deepMerge_lookup) simp
  show ?case
  proof (cases "map_of src k")
    case (Some w)
    with Cons.prems(2) obtain s where w: "w = YMap s" "yfree s ks" by (auto split: yaml.splits)
    with Some Cons.prems(1) have "ywf (YMap s)" by (metis map_of_SomeD snd_conv ywf.simps(1))
    moreover have "ks \<noteq> []" using w(2) by auto
    ultimately show ?thesis using Some w Cons l by (auto split: option.splits yaml.splits if_splits)
  qed (use Cons.prems l in simp)
qed simp

section \<open>Properties\<close>

text \<open>\<^bold>\<open>C32\<close>. Chain numbers round-trip through their names: in the registry a start-up builds from the bundled
  file and any extra file, accepted or refused, the number of every registered chain prints as the chain's primary short
  name, and that name is registered. Numbers given at run time never coincide with generated ones.\<close>

theorem chain_numbers_roundtrip:
  assumes "generated_ok gen generated base" "range_order ro"
    and "init_registry Y raw generated base = Some R0"
    and "LoadExtraChains Y ro extra R0 = (e, R)"
    and "map_of (chains R) name = Some c"
  shows "Chain_String gen R (chainNo c) = hd (ShortNames c) \<and> IsSupported R (hd (ShortNames c))"
proof -
  from startup_ok [OF assms(4,2,3,1) assms(3,1)] have "names_ok gen base R" "chains_ok R" by blast+
  with assms(5) show ?thesis using names_ok_String by (auto simp: chains_ok_def listed_def IsSupported_def)
qed

text \<open>An extra chain file never changes what is there: loading it keeps every registered name on its
  chain; a refused file leaves both lookup tables as they were and may be corrected and loaded again; after an
  accepted one every further load is refused.\<close>

theorem extra_chains_never_replace:
  assumes "generated_ok gen generated base" "range_order ro"
    and "init_registry Y raw generated base = Some R0"
    and "LoadExtraChains Y ro extra R0 = (e, R)" "extra \<noteq> []"
  shows "(\<forall>name c. map_of (chains R0) name = Some c \<longrightarrow> map_of (chains R) name = Some c)
    \<and> (if e = None then (\<forall>raw'. raw' \<noteq> [] \<longrightarrow> LoadExtraChains Y ro raw' R = (Some AlreadyLoaded, R))
       else chains R = chains R0 \<and> grpcChains R = grpcChains R0 \<and> \<not> extraChainsLoadedFlag R)"
  using startup_ok [OF assms(4,2,3,1) assms(3,1)] init_registry_ok [OF assms(3,1)] assms(5)
  by (auto simp: LoadExtraChains_def)

text \<open>Settings are layered: a value a chain (or a protocol) gives is the value of the merged settings, at
  whatever depth, and where it says nothing the value of the layer below shows through.\<close>

theorem settings_are_layered:
  assumes "ywf (YMap src)"
  shows "(\<forall>v. yget src ks = Some v \<and> yleaf v \<longrightarrow> yget (deepMerge dst src) ks = Some v)
    \<and> (\<forall>v. yfree src ks \<and> yget dst ks = Some v \<longrightarrow> yget (deepMerge dst src) ks = Some v)"
  using assms deepMerge_override deepMerge_default by blast

section \<open>Witnesses\<close>

definition sample_settings :: Settings where
  "sample_settings = \<lparr>ExpectedBlockTime = 12, settingsMethodSpec = [], Lagging = 1, SyncingLag = 3,
     settingsOptions = None, SupportFinalizedBlockTag = None, SupportSafeBlockTag = None\<rparr>"

definition sample_chain_data :: "string list \<Rightarrow> int \<Rightarrow> ChainData" where
  "sample_chain_data names i = \<lparr>cdShortNames = names, cdChainId = ''0x1'', cdGrpcId = i, cdMethodSpec = [], cdSettings = [],
     cdNetVersion = ''1'', cdCallValidateContract = [], cdGasPriceCondition = [], cdLowerBounds = None\<rparr>"

definition sample_file :: "ChainData list \<Rightarrow> ChainSettings" where
  "sample_file chs = \<lparr>csProtocols = [\<lparr>protoChains = chs, protoSettings = [], protoType = ''eth''\<rparr>], csDefault = []\<rparr>"

definition sample_yaml :: yaml_ops where
  "sample_yaml = \<lparr>yaml_file = (\<lambda>raw.
       if raw = ''bundled'' then Some (sample_file [sample_chain_data [''ethereum'', ''eth''] 100])
       else if raw = ''private'' then Some (sample_file [sample_chain_data [''mychain''] 0])
       else if raw = ''shadow'' then Some (sample_file [sample_chain_data [''mychain''] 100, sample_chain_data [''mychain''] 0])
       else None),
     yaml_settings = (\<lambda>_. Some sample_settings), net_version = (\<lambda>_. ''1'')\<rparr>"

definition sample_gen :: "int \<rightharpoonup> string" where
  "sample_gen = [1 \<mapsto> ''ethereum'']"

definition sample_registry :: registry where
  "sample_registry = the (init_registry sample_yaml ''bundled'' [(''ethereum'', 1)] 1000)"

lemma sample_gen_ok: "generated_ok sample_gen [(''ethereum'', 1)] 1000"
  by (auto simp: generated_ok_def sample_gen_def split: if_splits)

lemma sample_init: "init_registry sample_yaml ''bundled'' [(''ethereum'', 1)] 1000 = Some sample_registry"
proof -
  have "init_registry sample_yaml ''bundled'' [(''ethereum'', 1)] 1000 \<noteq> None" by code_simp
  then show ?thesis by (auto simp: sample_registry_def)
qed

definition sample_loaded :: registry where
  "sample_loaded = snd (LoadExtraChains sample_yaml id ''private'' sample_registry)"

lemma sample_load: "LoadExtraChains sample_yaml id ''private'' sample_registry = (None, sample_loaded)"
proof -
  have "fst (LoadExtraChains sample_yaml id ''private'' sample_registry) = None" by code_simp
  then show ?thesis by (simp add: sample_loaded_def prod_eq_iff)
qed

theorem chain_numbers_roundtrip_witness:
  "Chain_String sample_gen sample_loaded (chainNo (GetChain sample_loaded ''mychain'')) = ''mychain''"
proof -
  have "map_of (chains sample_loaded) ''mychain'' \<noteq> None" "ShortNames (GetChain sample_loaded ''mychain'') = [''mychain'']"
    by code_simp+
  then have c: "map_of (chains sample_loaded) ''mychain'' = Some (GetChain sample_loaded ''mychain'')"
    "hd (ShortNames (GetChain sample_loaded ''mychain'')) = ''mychain''" by (auto simp: GetChain_def)
  from chain_numbers_roundtrip [OF sample_gen_ok range_order_id(2) sample_init sample_load c(1)] c(2) show ?thesis by simp
qed

theorem extra_chains_never_replace_witness:
  "map_of (chains sample_loaded) ''eth'' = map_of (chains sample_registry) ''eth''
    \<and> LoadExtraChains sample_yaml id ''private'' sample_loaded = (Some AlreadyLoaded, sample_loaded)"
proof -
  have "map_of (chains sample_registry) ''eth'' \<noteq> None" by code_simp
  with extra_chains_never_replace [OF sample_gen_ok range_order_id(2) sample_init sample_load] show ?thesis by auto
qed

theorem settings_are_layered_witness:
  "yget (deepMerge [(''lags'', YMap [(''syncing'', YScalar ''6''), (''lagging'', YScalar ''1'')])]
           [(''lags'', YMap [(''syncing'', YScalar ''10'')])]) [''lags'', ''syncing''] = Some (YScalar ''10'')
   \<and> yget (deepMerge [(''lags'', YMap [(''syncing'', YScalar ''6''), (''lagging'', YScalar ''1'')])]
           [(''lags'', YMap [(''syncing'', YScalar ''10'')])]) [''lags'', ''lagging''] = Some (YScalar ''1'')"
  using settings_are_layered [of "[(''lags'', YMap [(''syncing'', YScalar ''10'')])]" "[''lags'', ''syncing'']"
      "[(''lags'', YMap [(''syncing'', YScalar ''6''), (''lagging'', YScalar ''1'')])]"]
    settings_are_layered [of "[(''lags'', YMap [(''syncing'', YScalar ''10'')])]" "[''lags'', ''lagging'']"
      "[(''lags'', YMap [(''syncing'', YScalar ''6''), (''lagging'', YScalar ''1'')])]"]
  by (simp add: yleaf_def)

text \<open>A shadowed extra chain takes an existing gRPC id: the collision check looks only at the chains left under
  some short name, so when a later entry of the same file reuses the short name of an earlier one, the earlier
  entry's gRPC id is not checked, the file is accepted and the id now leads to the extra chain.\<close>

theorem shadowed_chain_takes_grpc_id:
  "\<exists>R. LoadExtraChains sample_yaml id ''shadow'' sample_registry = (None, R)
     \<and> ShortNames (GetChainByGrpcId sample_registry 100) = [''ethereum'', ''eth'']
     \<and> ShortNames (GetChainByGrpcId R 100) = [''mychain'']"
proof -
  have "fst (LoadExtraChains sample_yaml id ''shadow'' sample_registry) = None"
    "ShortNames (GetChainByGrpcId sample_registry 100) = [''ethereum'', ''eth'']"
    "ShortNames (GetChainByGrpcId (snd (LoadExtraChains sample_yaml id ''shadow'' sample_registry)) 100) = [''mychain'']"
    by code_simp+
  then show ?thesis
    by (intro exI [of _ "snd (LoadExtraChains sample_yaml id ''shadow'' sample_registry)"]) (simp add: prod_eq_iff)
qed

end
