(* ===== verification/ConfigUpstreams.thy ===== *)
theory ConfigUpstreams
  imports Chains RateLimiter
begin

text \<open>
  The upstream section of the configuration: \<open>internal/config/upstream_config.go\<close>, its part of \<open>defaults.go\<close>,
  and \<open>option_defaults.go\<close>. The configuration is read from YAML, completed by \<open>setDefaults\<close> and then checked by
  \<open>validate\<close>.

  Pointers that YAML may leave null are options, in particular an entry of \<open>upstreams\<close> and of \<open>chain-defaults\<close>;
  following a null one is the panic \<open>None\<close>. Connector entries are taken as present. Durations are nanoseconds.
  Compiling a rating script (\<open>esbuild\<close>, \<open>goja\<close>) is the argument \<open>compiles\<close>, the names of the built-in scripts are
  written out, and \<open>url_parts\<close> is what \<open>net/url\<close> reads from a connector's address: scheme, host and host name.
\<close>

section \<open>Data\<close>

record RetryConfig =
  Attempts :: i64
  retryDelay :: i64
  MaxDelay :: "i64 option"
  Jitter :: "i64 option"

record HedgeConfig =
  hedgeDelay :: i64
  hedgeCount :: i64

record FailsafeConfig =
  fsHedge :: "HedgeConfig option"
  fsTimeout :: "i64 option"
  fsRetry :: "RetryConfig option"

record LabelBalancingConfig =
  lbOrder :: "string list"
  lbPassOnError :: bool
  IncludeDefault :: "bool option"

record DispatchOptions =
  Broadcast :: "bool option"
  MaximumValue :: "bool option"
  NotNull :: "bool option"

record LocalSubscriptionsConfig =
  lsEnable :: "bool option"
  EnableNewHeads :: "bool option"
  EnableLogs :: "bool option"
  EnableNewPendingTransactions :: "bool option"

record LocalSubSettings =
  lssNewHeads :: bool
  lssLogs :: bool
  lssPendingTx :: bool

record ChainDefaults =
  dfPollInterval :: i64
  dfOptions :: "Options option"
  dfLabelBalancing :: "LabelBalancingConfig option"
  dfDispatch :: "DispatchOptions option"
  dfLocalSubscriptions :: "LocalSubscriptionsConfig option"
  dfValidateLag :: "bool option"
  dfBalancingStrategy :: string

record ScorePolicyConfig =
  CalculationInterval :: i64
  CalculationFunctionName :: string
  CalculationFunctionFilePath :: string

record ApiConnectorConfig =
  acType :: string
  acUrl :: string

record UpstreamMethodsConfig = MethodsConfig +
  BanDuration :: i64

record UpstreamCfg =
  uId :: string
  ChainName :: string
  Connectors :: "ApiConnectorConfig list"
  HeadConnector :: string
  PollInterval :: i64
  uMethods :: "UpstreamMethodsConfig option"
  uFailsafe :: "FailsafeConfig option"
  uOptions :: "Options option"
  uRateLimitBudget :: string
  uRateLimit :: "RateLimitRule list option"
  uAutoTune :: "RateLimitAutoTuneConfig option"
  GroupLabels :: "string list"
  uLabels :: "(string, string) gomap"

record UpstreamConfig =
  Upstreams :: "UpstreamCfg option list"
  cfgChainDefaults :: "(string, ChainDefaults option) gomap"
  cfgFailsafe :: "FailsafeConfig option"
  cfgScorePolicy :: "ScorePolicyConfig option"
  cfgIntegrity :: "bool option"
  cfgLabelBalancing :: "LabelBalancingConfig option"
  cfgBalancingStrategy :: string
  Mode :: string

abbreviation DefaultMode :: string where "DefaultMode \<equiv> ''default''"
abbreviation StrictMode :: string where "StrictMode \<equiv> ''strict''"

definition NoOptions :: Options where
  "NoOptions =
     \<lparr>InternalTimeout = 0, ValidationInterval = 0, DisableValidation = None, DisableSettingsValidation = None,
      DisableChainValidation = None, DisableHealthValidation = None, DisableLowerBoundsDetection = None,
      DisableSafeBlockDetection = None, DisableFinalizedBlockDetection = None, DisableLabelsDetection = None,
      DisableMethodsDetection = None, DisableLogIndexValidation = None,
      DisableLivenessSubscriptionValidation = None, ArchiveCapability = None, ValidateSyncing = None,
      ValidatePeers = None, MinPeers = 0, ValidateCallLimit = None, ValidateClientVersion = None, CallLimitSize = 0\<rparr>"

definition NoFailsafe :: FailsafeConfig where
  "NoFailsafe = \<lparr>fsHedge = None, fsTimeout = None, fsRetry = None\<rparr>"

section \<open>Settings resolved at read time\<close>

text \<open>An entry that is absent and an entry that is null read the same.\<close>

definition chain_defaults :: "UpstreamConfig \<Rightarrow> string \<Rightarrow> ChainDefaults option" where
  "chain_defaults u name = (case map_of (cfgChainDefaults u) name of Some d \<Rightarrow> d | None \<Rightarrow> None)"

definition BalancingStrategyFor :: "UpstreamConfig \<Rightarrow> string \<Rightarrow> string" where
  "BalancingStrategyFor u name =
     (case chain_defaults u name of
        Some d \<Rightarrow> if dfBalancingStrategy d \<noteq> [] then dfBalancingStrategy d else cfgBalancingStrategy u
      | None \<Rightarrow> cfgBalancingStrategy u)"

text \<open>Without a null guard: a null entry is followed.\<close>

definition LabelBalancingFor :: "UpstreamConfig \<Rightarrow> string \<Rightarrow> LabelBalancingConfig option option" where
  "LabelBalancingFor u name =
     (case map_of (cfgChainDefaults u) name of
        None \<Rightarrow> Some (cfgLabelBalancing u)
      | Some None \<Rightarrow> None
      | Some (Some d) \<Rightarrow>
          Some (case dfLabelBalancing d of Some l \<Rightarrow> Some l | None \<Rightarrow> cfgLabelBalancing u))"

definition GetDispatchOptions :: "UpstreamConfig option \<Rightarrow> string \<Rightarrow> DispatchOptions" where
  "GetDispatchOptions cfg name =
     (let enabled = (case cfg of None \<Rightarrow> False | Some u \<Rightarrow> Mode u = StrictMode);
          base = \<lparr>Broadcast = Some enabled, MaximumValue = Some enabled, NotNull = Some enabled\<rparr>;
          over = (\<lambda>v d. if v \<noteq> None then v else d)
      in case cfg of
           None \<Rightarrow> base
         | Some u \<Rightarrow>
             (case chain_defaults u name of
                None \<Rightarrow> base
              | Some d \<Rightarrow>
                  (case dfDispatch d of
                     None \<Rightarrow> base
                   | Some x \<Rightarrow>
                       \<lparr>Broadcast = over (Broadcast x) (Broadcast base),
                        MaximumValue = over (MaximumValue x) (MaximumValue base),
                        NotNull = over (NotNull x) (NotNull base)\<rparr>)))"

definition ValidateLagFor :: "UpstreamConfig option \<Rightarrow> string \<Rightarrow> bool" where
  "ValidateLagFor cfg name =
     (case cfg of
        None \<Rightarrow> False
      | Some u \<Rightarrow>
          (case chain_defaults u name of
             Some d \<Rightarrow> (case dfValidateLag d of Some b \<Rightarrow> b | None \<Rightarrow> Mode u = StrictMode)
           | None \<Rightarrow> Mode u = StrictMode))"

definition LocalSubSettings_for :: "UpstreamConfig option \<Rightarrow> string \<Rightarrow> LocalSubSettings" where
  "LocalSubSettings_for cfg name =
     (case cfg of
        None \<Rightarrow> \<lparr>lssNewHeads = True, lssLogs = True, lssPendingTx = True\<rparr>
      | Some u \<Rightarrow>
          (case chain_defaults u name of
             None \<Rightarrow> \<lparr>lssNewHeads = True, lssLogs = True, lssPendingTx = True\<rparr>
           | Some d \<Rightarrow>
               (case dfLocalSubscriptions d of
                  None \<Rightarrow> \<lparr>lssNewHeads = True, lssLogs = True, lssPendingTx = True\<rparr>
                | Some ls \<Rightarrow>
                    (let base = boolValue (lsEnable ls) True
                     in \<lparr>lssNewHeads = boolValue (EnableNewHeads ls) base, lssLogs = boolValue (EnableLogs ls) base,
                         lssPendingTx = boolValue (EnableNewPendingTransactions ls) base\<rparr>))))"

section \<open>Connectors\<close>

definition connector_type :: "ApiConnectorConfig \<Rightarrow> ApiConnectorType" where
  "connector_type a = GetApiConnectorType (acType a)"

definition GetHeadApiConnectorType :: "UpstreamCfg \<Rightarrow> ApiConnectorType" where
  "GetHeadApiConnectorType u = GetApiConnectorType (HeadConnector u)"

text \<open>\<open>lo.MinBy\<close> and \<open>lo.MaxBy\<close> of a non-empty list: the running best is replaced only by a strictly better one.\<close>

definition best_by :: "(ApiConnectorType \<Rightarrow> ApiConnectorType \<Rightarrow> bool) \<Rightarrow> ApiConnectorConfig list \<Rightarrow> ApiConnectorType" where
  "best_by better cs =
     connector_type (fold (\<lambda>c best. if better (connector_type c) (connector_type best) then c else best) (tl cs) (hd cs))"

definition GetBestConnector :: "UpstreamCfg \<Rightarrow> string \<Rightarrow> ApiConnectorType" where
  "GetBestConnector u mode =
     (let filtered = filter (\<lambda>c. connector_type c \<noteq> UnknownType \<and> \<not> IsAdditionalApiConnectorType (connector_type c)) (Connectors u)
      in if filtered = [] then UnknownType
         else if mode = DefaultMode then best_by (<) filtered
         else if mode = StrictMode then best_by (>) filtered
         else UnknownType)"

section \<open>Options\<close>

text \<open>\<open>setOptionsDefaults\<close>: a value of the upstream stays; otherwise the chain defaults of the
  configuration decide, then the options of the chain registry, then the fallback.\<close>

definition from_options :: "Options option \<Rightarrow> (Options \<Rightarrow> 'a) \<Rightarrow> 'a \<Rightarrow> 'a" where
  "from_options opts sel unset = (case opts of None \<Rightarrow> unset | Some p \<Rightarrow> sel p)"

definition resolve_num :: "Options option \<Rightarrow> Options option \<Rightarrow> (Options \<Rightarrow> i64) \<Rightarrow> i64 \<Rightarrow> Options \<Rightarrow> i64" where
  "resolve_num dflt glob sel fallback p =
     (if sel p \<noteq> 0 then sel p
      else if from_options dflt sel 0 \<noteq> 0 then from_options dflt sel 0
      else if from_options glob sel 0 \<noteq> 0 then from_options glob sel 0
      else fallback)"

definition resolve_bool :: "Options option \<Rightarrow> Options option \<Rightarrow> (Options \<Rightarrow> bool option) \<Rightarrow> bool \<Rightarrow> Options \<Rightarrow> bool option" where
  "resolve_bool dflt glob sel fallback p =
     (if sel p \<noteq> None then sel p
      else Some (case from_options dflt sel None of
                   Some b \<Rightarrow> b
                 | None \<Rightarrow> (case from_options glob sel None of Some b \<Rightarrow> b | None \<Rightarrow> fallback)))"

definition setOptionsDefaults :: "Options \<Rightarrow> ChainDefaults option \<Rightarrow> Settings \<Rightarrow> string \<Rightarrow> Options" where
  "setOptionsDefaults p defaults settings mode =
     (let d = (case defaults of None \<Rightarrow> None | Some c \<Rightarrow> dfOptions c);
          g = settingsOptions settings;
          strict = (mode = StrictMode)
      in p\<lparr>InternalTimeout := resolve_num d g InternalTimeout 5000000000 p,
           ValidationInterval := resolve_num d g ValidationInterval 30000000000 p,
           DisableValidation := resolve_bool d g DisableValidation False p,
           DisableChainValidation := resolve_bool d g DisableChainValidation False p,
           DisableSettingsValidation := resolve_bool d g DisableSettingsValidation False p,
           DisableHealthValidation := resolve_bool d g DisableHealthValidation False p,
           DisableLowerBoundsDetection := resolve_bool d g DisableLowerBoundsDetection (\<not> strict) p,
           DisableSafeBlockDetection := resolve_bool d g DisableSafeBlockDetection
             (if SupportSafeBlockTag settings = Some False then True else \<not> strict) p,
           DisableFinalizedBlockDetection := resolve_bool d g DisableFinalizedBlockDetection
             (SupportFinalizedBlockTag settings = Some False) p,
           DisableLabelsDetection := resolve_bool d g DisableLabelsDetection (\<not> strict) p,
           DisableMethodsDetection := resolve_bool d g DisableMethodsDetection (\<not> strict) p,
           DisableLogIndexValidation := resolve_bool d g DisableLogIndexValidation (\<not> strict) p,
           DisableLivenessSubscriptionValidation := resolve_bool d g DisableLivenessSubscriptionValidation (\<not> strict) p,
           ValidateSyncing := resolve_bool d g ValidateSyncing strict p,
           ValidatePeers := resolve_bool d g ValidatePeers strict p,
           MinPeers := resolve_num d g MinPeers 1 p,
           ValidateCallLimit := resolve_bool d g ValidateCallLimit strict p,
           ValidateClientVersion := resolve_bool d g ValidateClientVersion strict p,
           CallLimitSize := resolve_num d g CallLimitSize 1000000 p\<rparr>)"

section \<open>Defaults\<close>

definition RetryConfig_setDefaults :: "RetryConfig \<Rightarrow> RetryConfig" where
  "RetryConfig_setDefaults r = (if Attempts r = 0 then r\<lparr>Attempts := 3\<rparr> else r)"

definition HedgeConfig_setDefaults :: "HedgeConfig \<Rightarrow> HedgeConfig" where
  "HedgeConfig_setDefaults h =
     (let h = (if hedgeDelay h = 0 then h\<lparr>hedgeDelay := 1000000000\<rparr> else h)
      in if hedgeCount h = 0 then h\<lparr>hedgeCount := 2\<rparr> else h)"

definition MethodsConfig_setDefaults :: "UpstreamMethodsConfig \<Rightarrow> UpstreamMethodsConfig" where
  "MethodsConfig_setDefaults m = (if BanDuration m = 0 then m\<lparr>BanDuration := 300000000000\<rparr> else m)"

definition LabelBalancing_setDefaults :: "LabelBalancingConfig \<Rightarrow> LabelBalancingConfig" where
  "LabelBalancing_setDefaults l = (if IncludeDefault l = None then l\<lparr>IncludeDefault := Some True\<rparr> else l)"

definition AutoTune_setDefaults :: "RateLimitAutoTuneConfig \<Rightarrow> RateLimitAutoTuneConfig" where
  "AutoTune_setDefaults r =
     r\<lparr>atPeriod := (if atPeriod r = 0 then 60000000000 else atPeriod r),
       ErrorRateThreshold := (if ErrorRateThreshold r = 0 then 1 / 10 else ErrorRateThreshold r),
       InitRateLimit := (if InitRateLimit r = 0 then 100 else InitRateLimit r),
       InitRateLimitPeriod := (if InitRateLimitPeriod r = 0 then 1000000000 else InitRateLimitPeriod r)\<rparr>"

definition ScorePolicy_setDefaults :: "ScorePolicyConfig \<Rightarrow> ScorePolicyConfig" where
  "ScorePolicy_setDefaults s =
     (let s = (if CalculationInterval s = 0 then s\<lparr>CalculationInterval := 10000000000\<rparr> else s)
      in if CalculationFunctionName s = [] \<and> CalculationFunctionFilePath s = []
         then s\<lparr>CalculationFunctionName := ''defaultLatencyPolicyFunc''\<rparr> else s)"

definition IntegrityConfig_setDefaults :: "string \<Rightarrow> bool \<Rightarrow> bool" where
  "IntegrityConfig_setDefaults mode on = (if mode = StrictMode then False else on)"

definition getDefaultPollInterval :: "registry \<Rightarrow> string \<Rightarrow> string \<Rightarrow> i64" where
  "getDefaultPollInterval R name mode =
     (if mode = DefaultMode then 60000000000
      else if \<not> IsSupported R name then 60000000000
      else ExpectedBlockTime (chainSettings (GetChain R name)))"

definition translateDeprecatedArchiveOption :: "UpstreamCfg \<Rightarrow> UpstreamCfg" where
  "translateDeprecatedArchiveOption u =
     (case uOptions u of
        None \<Rightarrow> u
      | Some p \<Rightarrow>
          (case ArchiveCapability p of
             None \<Rightarrow> u
           | Some b \<Rightarrow>
               if map_of (uLabels u) ArchiveLabel \<noteq> None then u
               else u\<lparr>uLabels := AList.update ArchiveLabel (if b then ''true'' else ''false'') (uLabels u)\<rparr>))"

definition SecureSignedLabel :: string where "SecureSignedLabel = ''secure-signed''"

definition setSecureSignedLabel :: "UpstreamCfg \<Rightarrow> UpstreamCfg" where
  "setSecureSignedLabel u =
     (if map_of (uLabels u) SecureSignedLabel \<noteq> None then u
      else u\<lparr>uLabels := AList.update SecureSignedLabel ''true'' (uLabels u)\<rparr>)"

definition Upstream_setDefaults :: "registry \<Rightarrow> ChainDefaults option \<Rightarrow> string \<Rightarrow> UpstreamCfg \<Rightarrow> UpstreamCfg" where
  "Upstream_setDefaults R defaults mode u =
     (let ms = (case uMethods u of None \<Rightarrow> \<lparr>EnableMethods = [], DisableMethods = [], BanDuration = 0\<rparr> | Some m \<Rightarrow> m);
          fs = (case uFailsafe u of None \<Rightarrow> NoFailsafe | Some f \<Rightarrow> f);
          opts = (case uOptions u of None \<Rightarrow> NoOptions | Some p \<Rightarrow> p);
          head = (if HeadConnector u = [] \<and> Connectors u \<noteq> [] \<and> GetBestConnector u mode \<noteq> UnknownType
                  then ApiConnectorType_String (GetBestConnector u mode) else HeadConnector u);
          poll = (if PollInterval u \<noteq> 0 then PollInterval u
                  else case defaults of
                         Some d \<Rightarrow> if dfPollInterval d \<noteq> 0 then dfPollInterval d else getDefaultPollInterval R (ChainName u) mode
                       | None \<Rightarrow> getDefaultPollInterval R (ChainName u) mode)
      in translateDeprecatedArchiveOption
           (u\<lparr>uMethods := Some (MethodsConfig_setDefaults ms),
              uFailsafe := Some (fs\<lparr>fsRetry := map_option RetryConfig_setDefaults (fsRetry fs)\<rparr>),
              uOptions := Some (setOptionsDefaults opts defaults (chainSettings (GetChain R (ChainName u))) mode),
              HeadConnector := head,
              uAutoTune := map_option AutoTune_setDefaults (uAutoTune u),
              PollInterval := poll\<rparr>))"

text \<open>\<open>UpstreamConfig.setDefaults\<close>. The loop over the chain defaults follows every entry; the upstreams
  read them after that loop.\<close>

definition chain_defaults_setDefaults :: "(string, ChainDefaults option) gomap \<Rightarrow> (string, ChainDefaults option) gomap option" where
  "chain_defaults_setDefaults ds =
     those (map (\<lambda>(name, d). map_option (\<lambda>d.
       (name, Some (d\<lparr>dfLabelBalancing := map_option LabelBalancing_setDefaults (dfLabelBalancing d)\<rparr>))) d) ds)"

definition fill_upstream :: "registry \<Rightarrow> bool \<Rightarrow> string \<Rightarrow> (string, ChainDefaults option) gomap \<Rightarrow> UpstreamCfg \<Rightarrow> UpstreamCfg" where
  "fill_upstream R signs mode ds x =
     (let y = Upstream_setDefaults R (case map_of ds (ChainName x) of Some d \<Rightarrow> d | None \<Rightarrow> None) mode x
      in if signs then setSecureSignedLabel y else y)"

definition fill_config ::
  "registry \<Rightarrow> bool \<Rightarrow> (string, ChainDefaults option) gomap \<Rightarrow> UpstreamCfg list \<Rightarrow> UpstreamConfig \<Rightarrow> UpstreamConfig" where
  "fill_config R signs ds ups u =
     (let mode = (if Mode u = [] then DefaultMode else Mode u);
          fs = (case cfgFailsafe u of None \<Rightarrow> NoFailsafe | Some f \<Rightarrow> f)
      in u\<lparr>Mode := mode,
           cfgBalancingStrategy := (if cfgBalancingStrategy u = [] then ''rating'' else cfgBalancingStrategy u),
           cfgFailsafe := Some (fs\<lparr>fsRetry := map_option RetryConfig_setDefaults (fsRetry fs),
             fsHedge := map_option HedgeConfig_setDefaults (fsHedge fs)\<rparr>),
           cfgScorePolicy := Some (ScorePolicy_setDefaults (case cfgScorePolicy u of
             None \<Rightarrow> \<lparr>CalculationInterval = 0, CalculationFunctionName = [], CalculationFunctionFilePath = []\<rparr>
           | Some s \<Rightarrow> s)),
           cfgLabelBalancing := map_option LabelBalancing_setDefaults (cfgLabelBalancing u),
           cfgChainDefaults := ds,
           Upstreams := map (\<lambda>x. Some (fill_upstream R signs mode ds x)) ups,
           cfgIntegrity := Some (IntegrityConfig_setDefaults mode (boolValue (cfgIntegrity u) False))\<rparr>)"

definition UpstreamConfig_setDefaults :: "registry \<Rightarrow> bool \<Rightarrow> UpstreamConfig \<Rightarrow> UpstreamConfig option" where
  "UpstreamConfig_setDefaults R signs u =
     (case (chain_defaults_setDefaults (cfgChainDefaults u), those (Upstreams u)) of
        (Some ds, Some ups) \<Rightarrow> Some (fill_config R signs ds ups u)
      | _ \<Rightarrow> None)"

section \<open>Validation\<close>

datatype config_error =
    BadMode | BadScoreInterval | TwoScoreFunctions | NoSuchFunction string | ScriptError
  | EmptyOrder | EmptyOrderLabel | DuplicateOrderLabel string | BadStrategy string
  | ChainNotSupported string | BadOptions
  | BadHedgeCount | BadHedgeDelay | BadAttempts | BadDelay | BadMaxDelay | BadJitter | DelayAboveMax
  | NoUpstreams | NoUpstreamId nat | DuplicateUpstreamId string | NoSuchBudget string | BadAutoTune
  | NoConnectors | RateLimitError rl_error | OnlyAdditional | DuplicateConnector string
  | BadConnectorType string | NoUrl string | BadUrl string | NeedsTor
  | BadHeadConnector string | AdditionalHead string | NoHeadConnector string
  | BadBanDuration | EnabledAndDisabled string | EmptyGroupLabel | EmptyLabelKey | EmptyLabelValue string

definition Mode_Validate :: "string \<Rightarrow> config_error option" where
  "Mode_Validate mode = (if mode \<in> {DefaultMode, StrictMode} then None else Some BadMode)"

definition BalancingStrategy_validate :: "string \<Rightarrow> config_error option" where
  "BalancingStrategy_validate s = (if s \<in> {[], ''rating'', ''base''} then None else Some (BadStrategy s))"

fun order_validate :: "string list \<Rightarrow> string set \<Rightarrow> config_error option" where
  "order_validate [] seen = None"
| "order_validate (l # ls) seen =
     (if l = [] then Some EmptyOrderLabel
      else if l \<in> seen then Some (DuplicateOrderLabel l)
      else order_validate ls (insert l seen))"

definition LabelBalancing_validate :: "LabelBalancingConfig \<Rightarrow> config_error option" where
  "LabelBalancing_validate l = (if lbOrder l = [] then Some EmptyOrder else order_validate (lbOrder l) {})"

text \<open>The first error of a sequence of checks.\<close>

fun first_error :: "'e option list \<Rightarrow> 'e option" where
  "first_error [] = None"
| "first_error (Some e # _) = Some e"
| "first_error (None # es) = first_error es"

definition check :: "bool \<Rightarrow> 'e \<Rightarrow> 'e option" where
  "check bad e = (if bad then Some e else None)"

definition opt_check :: "('a \<Rightarrow> 'e option) \<Rightarrow> 'a option \<Rightarrow> 'e option" where
  "opt_check f x = (case x of None \<Rightarrow> None | Some a \<Rightarrow> f a)"

definition RetryConfig_validate :: "RetryConfig \<Rightarrow> config_error option" where
  "RetryConfig_validate r = first_error
     [check (Attempts r < 1) BadAttempts,
      check (retryDelay r < 0) BadDelay,
      opt_check (\<lambda>m. check (m \<le> 0) BadMaxDelay) (MaxDelay r),
      opt_check (\<lambda>j. check (j \<le> 0) BadJitter) (Jitter r),
      opt_check (\<lambda>m. check (retryDelay r > m) DelayAboveMax) (MaxDelay r)]"

text \<open>\<open>Duration.Milliseconds\<close> truncates.\<close>

definition HedgeConfig_validate :: "HedgeConfig \<Rightarrow> config_error option" where
  "HedgeConfig_validate h = first_error
     [check (hedgeCount h \<le> 0) BadHedgeCount,
      check (go_quot (hedgeDelay h) 1000000 < 50) BadHedgeDelay]"

definition FailsafeConfig_validate :: "FailsafeConfig \<Rightarrow> config_error option" where
  "FailsafeConfig_validate f = first_error
     [opt_check HedgeConfig_validate (fsHedge f), opt_check RetryConfig_validate (fsRetry f)]"

definition rating_functions :: "string set" where
  "rating_functions = {''defaultLatencyPolicyFunc'', ''defaultLatencyErrorRatePolicyFunc''}"

definition ScorePolicy_validate :: "(ScorePolicyConfig \<Rightarrow> bool) \<Rightarrow> ScorePolicyConfig \<Rightarrow> config_error option" where
  "ScorePolicy_validate compiles s = first_error
     [check (CalculationInterval s \<le> 0) BadScoreInterval,
      check (CalculationFunctionName s \<noteq> [] \<and> CalculationFunctionFilePath s \<noteq> []) TwoScoreFunctions,
      check (CalculationFunctionName s \<noteq> [] \<and> CalculationFunctionName s \<notin> rating_functions)
        (NoSuchFunction (CalculationFunctionName s)),
      check (\<not> compiles s) ScriptError]"

definition MethodsConfig_validate :: "UpstreamMethodsConfig \<Rightarrow> config_error option" where
  "MethodsConfig_validate m = first_error
     (check (BanDuration m \<le> 0) BadBanDuration #
      map (\<lambda>d. check (d \<in> set (EnableMethods m)) (EnabledAndDisabled d)) (DisableMethods m))"

definition ChainDefaults_validate :: "ChainDefaults \<Rightarrow> config_error option" where
  "ChainDefaults_validate c = first_error
     [opt_check (\<lambda>p. check (\<not> Options_Validate p) BadOptions) (dfOptions c),
      opt_check LabelBalancing_validate (dfLabelBalancing c),
      BalancingStrategy_validate (dfBalancingStrategy c)]"

type_synonym url_reader = "string \<Rightarrow> (string \<times> string \<times> string) option"

definition ApiConnectorConfig_validate :: "url_reader \<Rightarrow> string \<Rightarrow> ApiConnectorConfig \<Rightarrow> config_error option" where
  "ApiConnectorConfig_validate url_parts tor a =
     (if \<not> ValidateApiConnectorType (acType a) then Some (BadConnectorType (acType a))
      else if acUrl a = [] then Some (NoUrl (acType a))
      else case url_parts (acUrl a) of
             None \<Rightarrow> Some (BadUrl (acType a))
           | Some (scheme, host, hostname) \<Rightarrow>
               if scheme = [] \<or> host = [] then Some (BadUrl (acType a))
               else if hasSuffix hostname ''.onion'' \<and> tor = [] then Some NeedsTor
               else None)"

fun connectors_validate :: "url_reader \<Rightarrow> string \<Rightarrow> ApiConnectorConfig list \<Rightarrow> ApiConnectorType set \<Rightarrow> config_error option" where
  "connectors_validate url_parts tor [] seen = None"
| "connectors_validate url_parts tor (a # as) seen =
     (if connector_type a \<in> seen then Some (DuplicateConnector (acType a))
      else case ApiConnectorConfig_validate url_parts tor a of
             Some e \<Rightarrow> Some e
           | None \<Rightarrow> connectors_validate url_parts tor as (insert (connector_type a) seen))"

definition validateHeadConnector :: "UpstreamCfg \<Rightarrow> config_error option" where
  "validateHeadConnector u = first_error
     [check (\<not> ValidateApiConnectorType (HeadConnector u)) (BadHeadConnector (HeadConnector u)),
      check (IsAdditionalApiConnectorType (GetHeadApiConnectorType u)) (AdditionalHead (HeadConnector u))]"

definition validateLabels :: "UpstreamCfg \<Rightarrow> config_error option" where
  "validateLabels u = first_error (concat (map
     (\<lambda>l. [check (l = []) EmptyLabelKey, check (map_of (uLabels u) l = Some []) (EmptyLabelValue l)])
     (sort (gm_keys (uLabels u)))))"

text \<open>\<open>Upstream.validate\<close>, for an upstream whose defaults are set; \<open>None\<close> is the panic on a null section.\<close>

definition Upstream_validate :: "registry \<Rightarrow> url_reader \<Rightarrow> string \<Rightarrow> UpstreamCfg \<Rightarrow> config_error option option" where
  "Upstream_validate R url_parts tor u =
     (let early = first_error
            [check (\<not> IsSupported R (ChainName u)) (ChainNotSupported (ChainName u)),
             check (Connectors u = []) NoConnectors,
             opt_check (\<lambda>rs. map_option RateLimitError (RateLimiterConfig_validate rs)) (uRateLimit u),
             check (length (Connectors u) = 1 \<and> IsAdditionalApiConnectorType (connector_type (hd (Connectors u)))) OnlyAdditional,
             connectors_validate url_parts tor (Connectors u) {},
             validateHeadConnector u,
             check (GetHeadApiConnectorType u \<notin> connector_type ` set (Connectors u)) (NoHeadConnector (HeadConnector u))]
      in if early \<noteq> None then Some early
         else case (uFailsafe u, uMethods u, uOptions u) of
                (Some f, Some m, Some p) \<Rightarrow>
                  Some (first_error
                    [FailsafeConfig_validate f, MethodsConfig_validate m,
                     check (\<not> Options_Validate p) BadOptions,
                     check ([] \<in> set (GroupLabels u)) EmptyGroupLabel,
                     validateLabels u])
              | _ \<Rightarrow> None)"

fun upstreams_validate ::
  "registry \<Rightarrow> url_reader \<Rightarrow> string set \<Rightarrow> string \<Rightarrow> nat \<Rightarrow> string set \<Rightarrow> UpstreamCfg option list \<Rightarrow> config_error option option" where
  "upstreams_validate R url_parts budgets tor i ids [] = Some None"
| "upstreams_validate R url_parts budgets tor i ids (None # us) = None"
| "upstreams_validate R url_parts budgets tor i ids (Some u # us) =
     (if uId u = [] then Some (Some (NoUpstreamId i))
      else if uId u \<in> ids then Some (Some (DuplicateUpstreamId (uId u)))
      else case Upstream_validate R url_parts tor u of
             None \<Rightarrow> None
           | Some (Some e) \<Rightarrow> Some (Some e)
           | Some None \<Rightarrow>
               if uRateLimitBudget u \<noteq> [] \<and> uRateLimitBudget u \<notin> budgets then Some (Some (NoSuchBudget (uRateLimitBudget u)))
               else (case uAutoTune u of
                       Some a \<Rightarrow>
                         if \<not> RateLimitAutoTuneConfig_validate a then Some (Some BadAutoTune)
                         else upstreams_validate R url_parts budgets tor (Suc i) (insert (uId u) ids) us
                     | None \<Rightarrow> upstreams_validate R url_parts budgets tor (Suc i) (insert (uId u) ids) us))"

fun defaults_validate :: "registry \<Rightarrow> (string, ChainDefaults option) gomap \<Rightarrow> config_error option option" where
  "defaults_validate R [] = Some None"
| "defaults_validate R ((name, d) # ds) =
     (if \<not> IsSupported R name then Some (Some (ChainNotSupported name))
      else case d of
             None \<Rightarrow> None
           | Some c \<Rightarrow> (case ChainDefaults_validate c of
               Some e \<Rightarrow> Some (Some e)
             | None \<Rightarrow> defaults_validate R ds))"

definition UpstreamConfig_validate ::
  "registry \<Rightarrow> (ScorePolicyConfig \<Rightarrow> bool) \<Rightarrow> url_reader
     \<Rightarrow> ((string, ChainDefaults option) gomap \<Rightarrow> (string, ChainDefaults option) gomap)
     \<Rightarrow> string set \<Rightarrow> string \<Rightarrow> UpstreamConfig \<Rightarrow> config_error option option" where
  "UpstreamConfig_validate R compiles url_parts ro budgets tor u =
     (case (cfgScorePolicy u, cfgFailsafe u) of
        (Some s, Some f) \<Rightarrow>
          (let early = first_error
                 [Mode_Validate (Mode u), ScorePolicy_validate compiles s,
                  opt_check LabelBalancing_validate (cfgLabelBalancing u),
                  BalancingStrategy_validate (cfgBalancingStrategy u)]
           in if early \<noteq> None then Some early
              else case defaults_validate R (ro (cfgChainDefaults u)) of
                     None \<Rightarrow> None
                   | Some (Some e) \<Rightarrow> Some (Some e)
                   | Some None \<Rightarrow>
                       (case first_error [FailsafeConfig_validate f, check (Upstreams u = []) NoUpstreams] of
                          Some e \<Rightarrow> Some (Some e)
                        | None \<Rightarrow> upstreams_validate R url_parts budgets tor 0 {} (Upstreams u)))
      | _ \<Rightarrow> None)"

section \<open>Checks\<close>

lemma first_error_None: "first_error es = None \<longleftrightarrow> (\<forall>e \<in> set es. e = None)"
  by (induction es rule: first_error.induct) auto

lemma check_None [simp]: "check bad e = None \<longleftrightarrow> \<not> bad"
  by (simp add: check_def)

lemma opt_check_None: "opt_check f x = None \<longleftrightarrow> (\<forall>a. x = Some a \<longrightarrow> f a = None)"
  by (cases x) (simp_all add: opt_check_def)

lemma those_eq_None: "those xs = None \<longleftrightarrow> None \<in> set xs"
  by (induction xs) (auto split: option.splits)

lemma those_eq_Some: "those xs = Some ys \<longleftrightarrow> xs = map Some ys"
  by (induction xs arbitrary: ys) (auto split: option.splits)

section \<open>The completed configuration\<close>

lemma chain_defaults_setDefaults_None:
  "chain_defaults_setDefaults ds = None \<longleftrightarrow> None \<in> snd ` set ds"
  unfolding chain_defaults_setDefaults_def those_eq_None by (force simp: image_iff)

lemma setDefaults_None:
  "UpstreamConfig_setDefaults R signs u = None \<longleftrightarrow>
     None \<in> set (Upstreams u) \<or> None \<in> snd ` set (cfgChainDefaults u)"
  using chain_defaults_setDefaults_None [of "cfgChainDefaults u"] those_eq_None [of "Upstreams u"]
  by (auto simp: UpstreamConfig_setDefaults_def split: option.splits)

text \<open>What the rest of the program relies on in an upstream's configuration.\<close>

definition resolved :: "Options \<Rightarrow> bool" where
  "resolved p \<longleftrightarrow>
     InternalTimeout p \<noteq> 0 \<and> ValidationInterval p \<noteq> 0 \<and> MinPeers p \<noteq> 0 \<and> CallLimitSize p \<noteq> 0 \<and>
     (\<forall>sel \<in> {DisableValidation, DisableSettingsValidation, DisableChainValidation, DisableHealthValidation,
        DisableLowerBoundsDetection, DisableSafeBlockDetection, DisableFinalizedBlockDetection,
        DisableLabelsDetection, DisableMethodsDetection, DisableLogIndexValidation,
        DisableLivenessSubscriptionValidation, ValidateSyncing, ValidatePeers, ValidateCallLimit,
        ValidateClientVersion}. sel p \<noteq> None)"

definition completed :: "UpstreamCfg \<Rightarrow> bool" where
  "completed x \<longleftrightarrow>
     uFailsafe x \<noteq> None \<and> (\<exists>m. uMethods x = Some m \<and> BanDuration m \<noteq> 0) \<and> (\<exists>p. uOptions x = Some p \<and> resolved p)"

lemma resolve_num_nonzero: "fallback \<noteq> 0 \<Longrightarrow> resolve_num d g sel fallback p \<noteq> 0"
  by (simp add: resolve_num_def)

lemma resolve_bool_Some: "\<exists>b. resolve_bool d g sel fallback p = Some b"
  by (simp add: resolve_bool_def)

lemma setOptionsDefaults_resolved: "resolved (setOptionsDefaults p defaults settings mode)"
  by (simp add: resolved_def setOptionsDefaults_def Let_def resolve_num_nonzero resolve_bool_Some)

lemma Upstream_setDefaults_completed: "completed (Upstream_setDefaults R defaults mode x)"
proof -
  have keep: "uFailsafe (translateDeprecatedArchiveOption y) = uFailsafe y"
    "uMethods (translateDeprecatedArchiveOption y) = uMethods y"
    "uOptions (translateDeprecatedArchiveOption y) = uOptions y" for y
    by (simp_all add: translateDeprecatedArchiveOption_def split: option.split)
  show ?thesis
    by (simp add: completed_def Upstream_setDefaults_def Let_def keep MethodsConfig_setDefaults_def setOptionsDefaults_resolved)
qed

lemma setDefaults_completed:
  assumes "UpstreamConfig_setDefaults R signs u = Some u'"
  shows "\<exists>ups. Upstreams u' = map Some ups \<and> (\<forall>x \<in> set ups. completed x)"
    and "cfgScorePolicy u' \<noteq> None" "cfgFailsafe u' \<noteq> None" "None \<notin> snd ` set (cfgChainDefaults u')"
proof -
  have label: "completed (setSecureSignedLabel y) \<longleftrightarrow> completed y" for y
    by (simp add: setSecureSignedLabel_def completed_def)
  obtain ds ups where u': "chain_defaults_setDefaults (cfgChainDefaults u) = Some ds" "u' = fill_config R signs ds ups u"
    using assms by (auto simp: UpstreamConfig_setDefaults_def split: option.splits)
  have "Upstreams u' = map Some (map (fill_upstream R signs (if Mode u = [] then DefaultMode else Mode u) ds) ups)"
    by (simp add: u'(2) fill_config_def Let_def)
  moreover have "completed (fill_upstream R signs mode ds x)" for mode x
    by (simp add: fill_upstream_def Let_def label Upstream_setDefaults_completed)
  ultimately show "\<exists>ups. Upstreams u' = map Some ups \<and> (\<forall>x \<in> set ups. completed x)"
    by (metis (no_types, lifting) imageE list.set_map)
  show "cfgScorePolicy u' \<noteq> None" "cfgFailsafe u' \<noteq> None"
    by (simp_all add: u'(2) fill_config_def Let_def)
  have "None \<notin> snd ` set ds"
  proof
    assume "None \<in> snd ` set ds"
    then obtain name where "Some (name, None) \<in> set (map Some ds)" by force
    moreover have "map Some ds = map (\<lambda>(name, d). map_option (\<lambda>d.
       (name, Some (d\<lparr>dfLabelBalancing := map_option LabelBalancing_setDefaults (dfLabelBalancing d)\<rparr>))) d) (cfgChainDefaults u)"
      using u'(1) by (simp add: chain_defaults_setDefaults_def those_eq_Some)
    ultimately have "Some (name, None) \<in> set (map (\<lambda>(name, d). map_option (\<lambda>d.
       (name, Some (d\<lparr>dfLabelBalancing := map_option LabelBalancing_setDefaults (dfLabelBalancing d)\<rparr>))) d) (cfgChainDefaults u))"
      by simp
    then show False by (auto simp: map_option_case split: option.splits)
  qed
  then show "None \<notin> snd ` set (cfgChainDefaults u')" by (simp add: u'(2) fill_config_def Let_def)
qed

section \<open>The accepted configuration\<close>

definition serviceable :: "registry \<Rightarrow> UpstreamCfg \<Rightarrow> bool" where
  "serviceable R x \<longleftrightarrow>
     IsSupported R (ChainName x) \<and>
     distinct (map connector_type (Connectors x)) \<and> UnknownType \<notin> connector_type ` set (Connectors x) \<and>
     GetHeadApiConnectorType x \<in> connector_type ` set (Connectors x) \<and>
     \<not> IsAdditionalApiConnectorType (GetHeadApiConnectorType x) \<and>
     (\<exists>p. uOptions x = Some p \<and> resolved p \<and> 0 < InternalTimeout p \<and> 0 < ValidationInterval p) \<and>
     (\<exists>m. uMethods x = Some m \<and> 0 < BanDuration m \<and> set (EnableMethods m) \<inter> set (DisableMethods m) = {})"

lemma known_connector: "ValidateApiConnectorType s \<Longrightarrow> GetApiConnectorType s \<noteq> UnknownType"
  by (auto simp: ValidateApiConnectorType_def GetApiConnectorType_def apiConnectors_def split: if_splits)

lemma connectors_validate_None:
  "connectors_validate url_parts tor as seen = None \<Longrightarrow>
     distinct (map connector_type as) \<and> connector_type ` set as \<inter> seen = {} \<and> UnknownType \<notin> connector_type ` set as"
proof (induction as arbitrary: seen)
  case (Cons a as)
  have "ApiConnectorConfig_validate url_parts tor a = None" using Cons.prems by (auto split: if_splits option.splits)
  then have "connector_type a \<noteq> UnknownType"
    using known_connector by (auto simp: ApiConnectorConfig_validate_def connector_type_def split: if_splits)
  moreover have "connector_type a \<notin> seen" "connectors_validate url_parts tor as (insert (connector_type a) seen) = None"
    using Cons.prems by (auto split: if_splits option.splits)
  ultimately show ?case using Cons.IH [of "insert (connector_type a) seen"] by auto
qed simp

lemma Upstream_validate_panics: "completed x \<Longrightarrow> Upstream_validate R url_parts tor x \<noteq> None"
  by (auto simp: Upstream_validate_def completed_def Let_def)

lemma Upstream_validate_accepts:
  assumes "Upstream_validate R url_parts tor x = Some None" "completed x"
  shows "serviceable R x"
proof -
  obtain f m p where c: "uFailsafe x = Some f" "uMethods x = Some m" "uOptions x = Some p" "resolved p" "BanDuration m \<noteq> 0"
    using assms(2) by (auto simp: completed_def)
  have early: "IsSupported R (ChainName x)" "connectors_validate url_parts tor (Connectors x) {} = None"
    "validateHeadConnector x = None" "GetHeadApiConnectorType x \<in> connector_type ` set (Connectors x)"
    and late: "MethodsConfig_validate m = None" "Options_Validate p"
    using assms(1) c by (auto simp: Upstream_validate_def Let_def first_error_None split: if_splits)
  have "\<not> IsAdditionalApiConnectorType (GetHeadApiConnectorType x)"
    using early(3) by (simp add: validateHeadConnector_def first_error_None)
  moreover have "0 < InternalTimeout p" "0 < ValidationInterval p"
    using late(2) c(4) by (auto simp: Options_Validate_def resolved_def)
  moreover have "0 < BanDuration m" "set (EnableMethods m) \<inter> set (DisableMethods m) = {}"
    using late(1) by (auto simp: MethodsConfig_validate_def first_error_None)
  ultimately show ?thesis
    using early c connectors_validate_None [OF early(2)] by (simp add: serviceable_def)
qed

lemma upstreams_validate_panics:
  "\<forall>x \<in> set ups. completed x \<Longrightarrow> upstreams_validate R url_parts budgets tor i ids (map Some ups) \<noteq> None"
  by (induction ups arbitrary: i ids) (auto simp: Upstream_validate_panics split: option.splits)

lemma upstreams_validate_accepts:
  "upstreams_validate R url_parts budgets tor i ids (map Some ups) = Some None \<Longrightarrow> \<forall>x \<in> set ups. completed x \<Longrightarrow>
     distinct (map uId ups) \<and> uId ` set ups \<inter> ids = {} \<and>
     (\<forall>x \<in> set ups. serviceable R x \<and> (uRateLimitBudget x = [] \<or> uRateLimitBudget x \<in> budgets))"
proof (induction ups arbitrary: i ids)
  case (Cons x ups)
  have x: "uId x \<notin> ids" "Upstream_validate R url_parts tor x = Some None"
    "uRateLimitBudget x = [] \<or> uRateLimitBudget x \<in> budgets"
    "upstreams_validate R url_parts budgets tor (Suc i) (insert (uId x) ids) (map Some ups) = Some None"
    using Cons.prems(1) by (auto split: if_splits option.splits)
  from Cons.IH [OF x(4)] Cons.prems(2) x Upstream_validate_accepts show ?case by auto
qed simp

lemma defaults_validate_panics: "None \<notin> snd ` set ds \<Longrightarrow> defaults_validate R ds \<noteq> None"
  by (induction ds) (auto split: option.splits)

section \<open>Properties\<close>



section \<open>The chosen head connector\<close>

definition plain_types :: "UpstreamCfg \<Rightarrow> ApiConnectorType set" where
  "plain_types u = {t \<in> connector_type ` set (Connectors u). t \<noteq> UnknownType \<and> \<not> IsAdditionalApiConnectorType t}"

lemma best_by_Min: "cs \<noteq> [] \<Longrightarrow> best_by (<) cs = Min (connector_type ` set cs)"
proof (induction cs rule: rev_induct)
  case (snoc c cs)
  show ?case
  proof (cases "cs = []")
    case False
    then have "best_by (<) (cs @ [c]) = min (connector_type c) (best_by (<) cs)" by (auto simp: best_by_def min_def)
    with False snoc.IH show ?thesis by simp
  qed (simp add: best_by_def)
qed simp

lemma best_by_Max: "cs \<noteq> [] \<Longrightarrow> best_by (>) cs = Max (connector_type ` set cs)"
proof (induction cs rule: rev_induct)
  case (snoc c cs)
  show ?case
  proof (cases "cs = []")
    case False
    then have "best_by (>) (cs @ [c]) = max (connector_type c) (best_by (>) cs)" by (auto simp: best_by_def max_def)
    with False snoc.IH show ?thesis by simp
  qed (simp add: best_by_def)
qed simp

lemma connector_names: "t \<noteq> UnknownType \<Longrightarrow>
    GetApiConnectorType (ApiConnectorType_String t) = t \<and> ValidateApiConnectorType (ApiConnectorType_String t)
    \<and> ApiConnectorType_String t \<noteq> []"
  by (cases t) (simp_all add: ApiConnectorType_String_def GetApiConnectorType_def ValidateApiConnectorType_def apiConnectors_def)

lemma GetBestConnector_best:
  assumes "mode \<in> {DefaultMode, StrictMode}" "plain_types u \<noteq> {}"
  shows "GetBestConnector u mode = (if mode = DefaultMode then Min (plain_types u) else Max (plain_types u))"
proof -
  let ?cs = "filter (\<lambda>c. connector_type c \<noteq> UnknownType \<and> \<not> IsAdditionalApiConnectorType (connector_type c)) (Connectors u)"
  have p: "plain_types u = connector_type ` set ?cs" by (auto simp: plain_types_def)
  then have "?cs \<noteq> []" using assms(2) by (metis image_empty set_empty)
  with assms(1) show ?thesis unfolding p by (auto simp: GetBestConnector_def Let_def best_by_Min best_by_Max)
qed

text \<open>An upstream with no configured head connector gets a valid one: the simplest of its plain connectors in
  default mode and the most capable one in strict mode, and that choice passes the head connector's validation.\<close>

theorem chosen_head_connector_is_valid:
  assumes "HeadConnector u = []" "mode \<in> {DefaultMode, StrictMode}" "plain_types u \<noteq> {}"
  shows "GetHeadApiConnectorType (Upstream_setDefaults R defaults mode u) =
      (if mode = DefaultMode then Min (plain_types u) else Max (plain_types u))
    \<and> validateHeadConnector (Upstream_setDefaults R defaults mode u) = None"
proof -
  let ?t = "GetBestConnector u mode"
  have "finite (plain_types u)" by (simp add: plain_types_def)
  then have "?t \<in> plain_types u"
    using GetBestConnector_best [OF assms(2,3)] Min_in Max_in assms(3) by auto
  then have t: "?t \<noteq> UnknownType" "\<not> IsAdditionalApiConnectorType ?t" "Connectors u \<noteq> []" by (auto simp: plain_types_def)
  have "HeadConnector (translateDeprecatedArchiveOption y) = HeadConnector y" for y
    by (simp add: translateDeprecatedArchiveOption_def split: option.split)
  then have "HeadConnector (Upstream_setDefaults R defaults mode u) = ApiConnectorType_String ?t"
    using assms(1) t by (simp add: Upstream_setDefaults_def Let_def)
  with t connector_names [OF t(1)] GetBestConnector_best [OF assms(2,3)] show ?thesis
    by (simp add: GetHeadApiConnectorType_def validateHeadConnector_def first_error_None)
qed

section \<open>Witnesses\<close>

definition sample_upstream_cfg :: UpstreamCfg where
  "sample_upstream_cfg = \<lparr>uId = ''one'', ChainName = ''ethereum'',
     Connectors = [\<lparr>acType = ''websocket'', acUrl = ''wss://node''\<rparr>, \<lparr>acType = ''json-rpc'', acUrl = ''https://node''\<rparr>,
       \<lparr>acType = ''rest-additional'', acUrl = ''https://node''\<rparr>],
     HeadConnector = [], PollInterval = 0, uMethods = None, uFailsafe = None, uOptions = None, uRateLimitBudget = [],
     uRateLimit = None, uAutoTune = None, GroupLabels = [], uLabels = []\<rparr>"

definition sample_config :: UpstreamConfig where
  "sample_config = \<lparr>Upstreams = [Some sample_upstream_cfg], cfgChainDefaults = [], cfgFailsafe = None, cfgScorePolicy = None,
     cfgIntegrity = None, cfgLabelBalancing = None, cfgBalancingStrategy = [], Mode = []\<rparr>"

definition sample_filled :: UpstreamConfig where
  "sample_filled = fill_config sample_registry False [] [sample_upstream_cfg] sample_config"

definition sample_urls :: url_reader where
  "sample_urls s = Some (''https'', ''node'', ''node'')"

lemma sample_filled: "UpstreamConfig_setDefaults sample_registry False sample_config = Some sample_filled"
  by (simp add: UpstreamConfig_setDefaults_def sample_config_def sample_filled_def chain_defaults_setDefaults_def)



theorem chosen_head_connector_is_valid_witness:
  "GetHeadApiConnectorType (Upstream_setDefaults sample_registry None StrictMode sample_upstream_cfg) = WebsocketConnector
   \<and> GetHeadApiConnectorType (Upstream_setDefaults sample_registry None DefaultMode sample_upstream_cfg) = JsonRpcConnector"
proof -
  have types: "connector_type ` set (Connectors sample_upstream_cfg) = {WebsocketConnector, JsonRpcConnector, RestAdditional}"
    by (simp add: sample_upstream_cfg_def connector_type_def GetApiConnectorType_def apiConnectors_def)
  have "plain_types sample_upstream_cfg = {WebsocketConnector, JsonRpcConnector}"
    unfolding plain_types_def types by (auto simp: IsAdditionalApiConnectorType_def)
  moreover have "JsonRpcConnector < WebsocketConnector" by (simp add: less_ApiConnectorType_def)
  moreover have "HeadConnector sample_upstream_cfg = []" by (simp add: sample_upstream_cfg_def)
  ultimately show ?thesis
    using chosen_head_connector_is_valid [of sample_upstream_cfg StrictMode sample_registry None]
      chosen_head_connector_is_valid [of sample_upstream_cfg DefaultMode sample_registry None]
    by (simp add: max_def min_def less_imp_le not_le)
qed

end
