(* ===== verification/PathGlob.thy ===== *)
theory PathGlob
  imports GoStrings
begin

text \<open>
  \<open>path.Match\<close> of Go's standard library, which the cache policies (\<open>internal/caches/cache_policies.go\<close>) use for
  method patterns: a pattern is a sequence of chunks separated by stars, a star skips any bytes but a slash, a chunk is
  matched byte by byte. Strings are ASCII, so that a byte is a rune. \<open>None\<close> is \<open>ErrBadPattern\<close>.
\<close>

section \<open>Chunks\<close>

text \<open>\<open>getEsc\<close>: one possibly escaped character of a class.\<close>

definition getEsc :: "string \<Rightarrow> (char \<times> string) option" where
  "getEsc chunk =
     (case chunk of
        [] \<Rightarrow> None
      | c # rest \<Rightarrow>
          if c = CHR ''-'' \<or> c = CHR '']'' then None
          else (let body = (if c = CHR 0x5C then rest else chunk)
                in case body of
                     [] \<Rightarrow> None
                   | [_] \<Rightarrow> None
                   | d # after \<Rightarrow> Some (d, after)))"

lemma getEsc_shorter: "getEsc chunk = Some (c, rest) \<Longrightarrow> length rest < length chunk \<and> rest \<noteq> []"
  by (auto simp: getEsc_def Let_def split: list.splits if_splits)

text \<open>The ranges of a class up to the closing bracket, which may not come first.\<close>

function class_ranges :: "bool \<Rightarrow> string \<Rightarrow> ((char \<times> char) list \<times> string) option" where
  "class_ranges started chunk =
     (if chunk \<noteq> [] \<and> hd chunk = CHR '']'' \<and> started then Some ([], tl chunk)
      else case getEsc chunk of
             None \<Rightarrow> None
           | Some (low, rest) \<Rightarrow>
               if hd rest = CHR ''-'' then
                 (case getEsc (tl rest) of
                    None \<Rightarrow> None
                  | Some (high, rest') \<Rightarrow> map_option (\<lambda>(rs, r). ((low, high) # rs, r)) (class_ranges True rest'))
               else map_option (\<lambda>(rs, r). ((low, low) # rs, r)) (class_ranges True rest))"
  by auto
termination
  by (relation "measure (\<lambda>(_, chunk). length chunk)") (auto dest!: getEsc_shorter)

declare class_ranges.simps [simp del]

lemma class_ranges_shorter: "class_ranges started chunk = Some (rs, rest) \<Longrightarrow> length rest < length chunk"
proof (induction started chunk arbitrary: rs rest rule: class_ranges.induct)
  case (1 started chunk)
  show ?case
  proof (cases "chunk \<noteq> [] \<and> hd chunk = CHR '']'' \<and> started")
    case True
    with "1.prems" show ?thesis by (auto simp: class_ranges.simps [of True chunk])
  next
    case False
    with "1.prems" obtain low rest1 where g: "getEsc chunk = Some (low, rest1)"
      by (auto simp: class_ranges.simps [of started chunk] split: option.splits)
    note len = getEsc_shorter [OF g]
    show ?thesis
    proof (cases "hd rest1 = CHR ''-''")
      case True
      with "1.prems" False g obtain high rest2 rs' where h: "getEsc (tl rest1) = Some (high, rest2)"
        "class_ranges True rest2 = Some (rs', rest)"
        by (auto simp: class_ranges.simps [of started chunk] split: option.splits)
      from "1.IH"(1) [OF False g refl True h(1) refl h(2)] len getEsc_shorter [OF h(1)] show ?thesis by auto
    next
      case neq: False
      with "1.prems" False g obtain rs' where h: "class_ranges True rest1 = Some (rs', rest)"
        by (auto simp: class_ranges.simps [of started chunk] split: option.splits)
      from "1.IH"(2) [OF False g refl neq h] len show ?thesis by auto
    qed
  qed
qed

definition in_ranges :: "(char \<times> char) list \<Rightarrow> char \<Rightarrow> bool" where
  "in_ranges rs c = list_ex (\<lambda>(low, high). (of_char low :: nat) \<le> of_char c \<and> (of_char c :: nat) \<le> of_char high) rs"

text \<open>\<open>matchChunk\<close>: \<open>Some (Some rest)\<close> is a match with the rest of the name; a failed match still reads the
  whole chunk, so that a bad pattern is found. The name is \<open>None\<close> once the match has failed.\<close>

function match_loop :: "string \<Rightarrow> string option \<Rightarrow> string option option" where
  "match_loop [] s = Some s"
| "match_loop (c # chunk) s =
     (let s = (case s of Some [] \<Rightarrow> None | _ \<Rightarrow> s) in
      if c = CHR ''['' then
        (let negated = (chunk \<noteq> [] \<and> hd chunk = CHR 0x5E) in
         case class_ranges False (if negated then tl chunk else chunk) of
           None \<Rightarrow> None
         | Some (rs, rest) \<Rightarrow>
             match_loop rest (case s of
               Some (r # s') \<Rightarrow> if in_ranges rs r = negated then None else Some s'
             | _ \<Rightarrow> None))
      else if c = CHR ''?'' then
        match_loop chunk (case s of Some (r # s') \<Rightarrow> if r = CHR ''/'' then None else Some s' | _ \<Rightarrow> None)
      else if c = CHR 0x5C then
        (case chunk of
           [] \<Rightarrow> None
         | d # chunk' \<Rightarrow> match_loop chunk' (case s of Some (r # s') \<Rightarrow> if d \<noteq> r then None else Some s' | _ \<Rightarrow> None))
      else match_loop chunk (case s of Some (r # s') \<Rightarrow> if c \<noteq> r then None else Some s' | _ \<Rightarrow> None))"
  by pat_completeness auto
termination
  by (relation "measure (\<lambda>(chunk, _). length chunk)") (auto dest!: class_ranges_shorter split: if_splits)

definition matchChunk :: "string \<Rightarrow> string \<Rightarrow> string option option" where
  "matchChunk chunk s = match_loop chunk (Some s)"

text \<open>\<open>scanChunk\<close>: the stars in front, the chunk up to the next star outside a class, the rest.\<close>

fun chunk_end :: "bool \<Rightarrow> string \<Rightarrow> string \<times> string" where
  "chunk_end inrange [] = ([], [])"
| "chunk_end inrange [c] = (if c = CHR ''*'' \<and> \<not> inrange then ([], [c]) else ([c], []))"
| "chunk_end inrange (c # d # p) =
     (if c = CHR 0x5C then (case chunk_end inrange p of (a, b) \<Rightarrow> (c # d # a, b))
      else if c = CHR ''*'' \<and> \<not> inrange then ([], c # d # p)
      else (case chunk_end (if c = CHR ''['' then True else if c = CHR '']'' then False else inrange) (d # p) of
              (a, b) \<Rightarrow> (c # a, b)))"

definition scanChunk :: "string \<Rightarrow> bool \<times> string \<times> string" where
  "scanChunk pattern =
     (let p = dropWhile (\<lambda>c. c = CHR ''*'') pattern
      in (pattern \<noteq> [] \<and> hd pattern = CHR ''*'', chunk_end False p))"

lemma chunk_end_split: "chunk_end inrange p = (a, b) \<Longrightarrow> p = a @ b"
  by (induction inrange p arbitrary: a b rule: chunk_end.induct) (auto split: if_splits prod.splits)

lemma chunk_end_progress: "chunk_end False p = (a, b) \<Longrightarrow> p \<noteq> [] \<Longrightarrow> hd p \<noteq> CHR ''*'' \<Longrightarrow> a \<noteq> []"
  by (cases p rule: list.exhaust; cases "tl p") (auto split: if_splits prod.splits)

lemma scanChunk_shorter:
  assumes "scanChunk pattern = (star, chunk, rest)" "pattern \<noteq> []"
  shows "length rest < length pattern"
proof -
  let ?p = "dropWhile (\<lambda>c. c = CHR ''*'') pattern"
  have c: "chunk_end False ?p = (chunk, rest)" using assms(1) by (simp add: scanChunk_def Let_def)
  have len: "length ?p \<le> length pattern" by (rule length_dropWhile_le)
  show ?thesis
  proof (cases "?p = []")
    case True
    with c assms(2) show ?thesis by simp
  next
    case False
    then have "hd ?p \<noteq> CHR ''*''" by (rule hd_dropWhile)
    then have "chunk \<noteq> []" using chunk_end_progress [OF c False] by simp
    then have "0 < length chunk" by simp
    moreover have "length chunk + length rest \<le> length pattern" using chunk_end_split [OF c] len by simp
    ultimately show ?thesis by linarith
  qed
qed

section \<open>Matching\<close>

text \<open>The positions a star may skip to: after one or more bytes, none of them a slash. The last chunk must
  exhaust the name.\<close>

fun skip_to :: "string \<Rightarrow> bool \<Rightarrow> string \<Rightarrow> string option option" where
  "skip_to chunk lst [] = Some None"
| "skip_to chunk lst (c # name) =
     (if c = CHR ''/'' then Some None
      else case matchChunk chunk name of
             None \<Rightarrow> None
           | Some (Some t) \<Rightarrow> if lst \<and> t \<noteq> [] then skip_to chunk lst name else Some (Some t)
           | Some None \<Rightarrow> skip_to chunk lst name)"

text \<open>\<open>Match\<close>, as the caller sees it: a bad pattern matches nothing.\<close>

function Match_glob :: "string \<Rightarrow> string \<Rightarrow> bool" where
  "Match_glob pattern name =
     (if pattern = [] then name = []
      else case scanChunk pattern of
             (star, chunk, rest) \<Rightarrow>
               if star \<and> chunk = [] then CHR ''/'' \<notin> set name
               else case matchChunk chunk name of
                      None \<Rightarrow> False
                    | Some here \<Rightarrow>
                        (case (case here of Some t \<Rightarrow> if t = [] \<or> rest \<noteq> [] then Some t else None | None \<Rightarrow> None) of
                           Some t \<Rightarrow> Match_glob rest t
                         | None \<Rightarrow>
                             if star then
                               (case skip_to chunk (rest = []) name of
                                  Some (Some t) \<Rightarrow> Match_glob rest t
                                | _ \<Rightarrow> False)
                             else False))"
  by auto
termination
  by (relation "measure (\<lambda>(pattern, _). length pattern)") (auto dest!: scanChunk_shorter sym [of "(_, _, _)"])

declare Match_glob.simps [simp del]

text \<open>The usual pattern: a literal prefix and a star.\<close>

definition plain_char :: "char \<Rightarrow> bool" where
  "plain_char c \<longleftrightarrow> c \<notin> {CHR ''['', CHR '']'', CHR ''?'', CHR ''*'', CHR 0x5C}"

lemma chunk_end_plain: "\<forall>c \<in> set p. plain_char c \<Longrightarrow> chunk_end False (p @ ''*'') = (p, ''*'')"
proof (induction p)
  case (Cons c p)
  then have "c \<noteq> CHR 0x5C" "c \<noteq> CHR ''*''" "c \<noteq> CHR ''[''" "c \<noteq> CHR '']''" by (simp_all add: plain_char_def)
  with Cons show ?case by (cases "p @ ''*''") auto
qed simp

lemma match_loop_failed: "\<forall>c \<in> set p. plain_char c \<Longrightarrow> match_loop p None = Some None"
  by (induction p) (auto simp: plain_char_def)

lemma match_loop_plain:
  "\<forall>c \<in> set p. plain_char c \<Longrightarrow> match_loop p (Some s) = Some (if hasPrefix s p then Some (drop (length p) s) else None)"
proof (induction p arbitrary: s)
  case (Cons c p)
  then have "match_loop p None = Some None" by (intro match_loop_failed) simp
  with Cons show ?case by (cases s) (auto simp: hasPrefix_def plain_char_def)
qed (simp add: hasPrefix_def)

lemma Match_glob_prefix:
  assumes "\<forall>c \<in> set p. plain_char c" "CHR ''/'' \<notin> set s"
  shows "Match_glob (p @ ''*'') s \<longleftrightarrow> hasPrefix s p"
proof (cases "p = []")
  case True
  then show ?thesis using assms by (simp add: Match_glob.simps [of "''*''"] scanChunk_def hasPrefix_def)
next
  case False
  then have "hd p \<noteq> CHR ''*''" using assms(1) by (auto simp: plain_char_def dest: hd_in_set)
  then have scan: "scanChunk (p @ ''*'') = (False, p, ''*'')"
    using chunk_end_plain [OF assms(1)] False by (cases p) (auto simp: scanChunk_def Let_def)
  have star: "scanChunk ''*'' = (True, [], [])" by (simp add: scanChunk_def)
  have "CHR ''/'' \<notin> set (drop (length p) s)" using assms(2) by (meson in_set_dropD)
  then have "Match_glob ''*'' (drop (length p) s)" by (simp add: Match_glob.simps [of "''*''"] star)
  with scan match_loop_plain [OF assms(1), of s] False show ?thesis
    by (simp add: Match_glob.simps [of "p @ ''*''"] matchChunk_def)
qed

end
