(* ===== verification/Caches.thy ===== *)
theory Caches
  imports Chains Requests PathGlob ChainSupervisor
begin

text \<open>
  The response cache: \<open>internal/caches\<close> and its configuration \<open>internal/config/cache_config.go\<close>.

  A policy decides whether a request is cacheable and talks to one connector; the processor stores through every
  policy and takes the first hit. The connectors are the in-memory one over an LRU cache (third party, the
  fields of \<open>lru\<close> with its documented behaviour \<open>lru_ok\<close>), Redis (\<open>redis_ops\<close>) and PostgreSQL, whose
  statements are in the source and are written out on a table. Time is an argument in nanoseconds.
  The special block numbers of \<open>go-ethereum\<close> and \<open>time.ParseDuration\<close> are fields of \<open>cache_env\<close>.

  What a policy asks of a request is a \<open>RequestView\<close>: its method, its spec method, its tag and its hash.
\<close>

section \<open>Requests\<close>

record RequestView =
  rvMethod :: string
  rvSpec :: "Method option"
  rvParam :: "MethodParam option"
  rvHash :: string

definition json_view ::
  "(string \<Rightarrow> byte list) \<Rightarrow> tag_ops \<Rightarrow> ((string \<times> json) list \<Rightarrow> (string \<times> json) list) \<Rightarrow> UpstreamJsonRpcRequest \<Rightarrow> RequestView option" where
  "json_view sum256 T ro r =
     (case ParseParams T ro r of
        None \<Rightarrow> None
      | Some (p, r') \<Rightarrow>
          Some \<lparr>rvMethod = jMethod r, rvSpec = jSpecMethod r, rvParam = p, rvHash = fst (RequestHash sum256 r')\<rparr>)"

definition rest_view :: "(string \<Rightarrow> byte list) \<Rightarrow> UpstreamRestRequest \<Rightarrow> RequestView" where
  "rest_view sum256 r =
     \<lparr>rvMethod = restMethod r, rvSpec = restSpecMethod r, rvParam = None, rvHash = fst (rest_RequestHash sum256 r)\<rparr>"

section \<open>Policies\<close>

definition EmptyResponses :: "string list" where
  "EmptyResponses = [[CHR 0x22, CHR ''0'', CHR ''x'', CHR 0x22], ''null'', ''{}'', ''[]'']"

datatype finalizationType = Finalized | NoFinalization

record CachePolicyConfig =
  polId :: string
  polChain :: string
  polBlockchainType :: string
  polMethod :: string
  polFinalization :: string
  polCacheEmpty :: bool
  polConnector :: string
  ObjectMaxSize :: string
  polTTL :: string

record CachePolicy =
  cpConnector :: string
  cpMethods :: "string set"
  cpChains :: "int set option"
  cpTypes :: "string set option"
  cacheEmpty :: bool
  maxSizeBytes :: i64
  cpTtl :: i64
  cpId :: string
  cpFinalization :: finalizationType

record cache_env =
  ce_registry :: registry
  ce_generated :: "int \<rightharpoonup> string"
  ce_supervisor :: "int \<Rightarrow> ChainSupervisorState option"
  eth_tags :: "i64 list"
  parse_duration :: "string \<Rightarrow> i64 option"

definition mapFinalizationType :: "string \<Rightarrow> finalizationType option" where
  "mapFinalizationType t =
     (if t = ''finalized'' then Some Finalized else if t = ''none'' then Some NoFinalization else None)"

text \<open>The number in front of the unit is read with \<open>strconv.ParseInt\<close>; the product wraps.\<close>

definition size_parts :: "string \<Rightarrow> i64 \<times> string" where
  "size_parts s =
     (if hasSuffix s ''MB'' then (1024 * 1024, take (length s - 2) s)
      else if hasSuffix s ''KB'' then (1024, take (length s - 2) s)
      else (1024, []))"

definition maxSizeInBytes :: "string \<Rightarrow> i64" where
  "maxSizeInBytes s =
     (case size_parts s of
        (multiplier, maxSize) \<Rightarrow>
          if maxSize = [] then multiplier
          else (case atoi (trimSpace maxSize) of
                  None \<Rightarrow> multiplier
                | Some n \<Rightarrow> wrap64 (n * multiplier)))"

definition config_items :: "string \<Rightarrow> string list" where
  "config_items s = map trimSpace (splitOn CHR ''|'' s)"

definition getCacheChains :: "registry \<Rightarrow> string \<Rightarrow> int set option" where
  "getCacheChains R cfg =
     (if cfg = ''*'' \<or> cfg = [] then Some {}
      else (let cs = (\<lambda>n. chainNo (GetChain R n)) ` set (filter (IsSupported R) (config_items cfg))
            in if cs = {} then None else Some cs))"

definition getCacheBlockchainTypes :: "string \<Rightarrow> string set option" where
  "getCacheBlockchainTypes cfg =
     (if cfg = ''*'' \<or> cfg = [] then Some {}
      else (let ts = set (filter IsValidBlockchainType (config_items cfg))
            in if ts = {} then None else Some ts))"

definition getCacheMethods :: "string \<Rightarrow> string set" where
  "getCacheMethods cfg = (if cfg = ''*'' then {} else set (config_items cfg))"

text \<open>\<open>NewCachePolicy\<close>; an unknown finalization type panics.\<close>

definition NewCachePolicy :: "cache_env \<Rightarrow> string \<Rightarrow> CachePolicyConfig \<Rightarrow> CachePolicy option" where
  "NewCachePolicy E connector cfg =
     (case mapFinalizationType (polFinalization cfg) of
        None \<Rightarrow> None
      | Some f \<Rightarrow>
          Some \<lparr>cpConnector = connector, cpMethods = getCacheMethods (polMethod cfg),
                cpChains = getCacheChains (ce_registry E) (polChain cfg),
                cpTypes = getCacheBlockchainTypes (polBlockchainType cfg), cacheEmpty = polCacheEmpty cfg,
                maxSizeBytes = maxSizeInBytes (ObjectMaxSize cfg),
                cpTtl = (case parse_duration E (polTTL cfg) of Some d \<Rightarrow> d | None \<Rightarrow> 600000000000),
                cpId = polId cfg, cpFinalization = f\<rparr>)"

definition methodMatched :: "CachePolicy \<Rightarrow> RequestView \<Rightarrow> bool" where
  "methodMatched p v =
     (\<exists>m \<in> cpMethods p. if go_contains m ''*'' then Match_glob m (rvMethod v) else m = rvMethod v)"

definition chainNotMatched :: "CachePolicy \<Rightarrow> int \<Rightarrow> bool" where
  "chainNotMatched p c = (case cpChains p of None \<Rightarrow> True | Some cs \<Rightarrow> cs \<noteq> {} \<and> c \<notin> cs)"

definition blockchainTypeNotMatched :: "cache_env \<Rightarrow> CachePolicy \<Rightarrow> int \<Rightarrow> bool" where
  "blockchainTypeNotMatched E p c =
     (case cpTypes p of
        None \<Rightarrow> True
      | Some ts \<Rightarrow>
          if ts = {} then False
          else chainType (GetChain (ce_registry E) (Chain_String (ce_generated E) (ce_registry E) c)) \<notin> ts)"

definition getCacheKey :: "cache_env \<Rightarrow> int \<Rightarrow> string \<Rightarrow> string" where
  "getCacheKey E c hash = Chain_String (ce_generated E) (ce_registry E) c @ ''_'' @ hash"

definition IsBlockTagNumber :: "cache_env \<Rightarrow> i64 \<Rightarrow> bool" where
  "IsBlockTagNumber E n \<longleftrightarrow> n \<in> set (eth_tags E)"

text \<open>The finalized block a policy compares with, if it is known; \<open>uint64\<close> of a block number wraps.\<close>

definition finalized_height :: "ChainSupervisorState \<Rightarrow> u64 option" where
  "finalized_height st =
     (case map_of (csBlocks st) FinalizedBlock of
        None \<Rightarrow> None
      | Some b \<Rightarrow> if IsEmptyByHeight b then None else Some (Height b))"

definition not_above :: "i64 \<Rightarrow> u64 option \<Rightarrow> bool" where
  "not_above n height = (case height of None \<Rightarrow> False | Some h \<Rightarrow> \<not> (word_of_int n :: u64) > h)"

definition isMethodCacheable :: "cache_env \<Rightarrow> CachePolicy \<Rightarrow> int \<Rightarrow> RequestView \<Rightarrow> bool" where
  "isMethodCacheable E p c v =
     (case ce_supervisor E c of
        None \<Rightarrow> False
      | Some st \<Rightarrow>
          (case rvSpec v of
             None \<Rightarrow> False
           | Some m \<Rightarrow>
               if \<not> cacheable m then False
               else case rvParam v of
                      Some (BlockNumberParam n) \<Rightarrow>
                        if IsBlockTagNumber E n then False
                        else if cpFinalization p = Finalized then not_above n (finalized_height st)
                        else True
                    | Some (BlockRangeParam from to) \<Rightarrow>
                        if (case from of Some n \<Rightarrow> IsBlockTagNumber E n | None \<Rightarrow> False) then False
                        else if (case to of Some n \<Rightarrow> IsBlockTagNumber E n | None \<Rightarrow> False) then False
                        else if cpFinalization p = Finalized then
                          (if finalized_height st = None then False
                           else case (from, to) of
                                  (Some a, Some b) \<Rightarrow> not_above (max a b) (finalized_height st)
                                | (None, Some b) \<Rightarrow> not_above b (finalized_height st)
                                | (_, None) \<Rightarrow> False)
                        else True
                    | _ \<Rightarrow> True))"

definition baseCacheableCheck :: "cache_env \<Rightarrow> CachePolicy \<Rightarrow> int \<Rightarrow> RequestView \<Rightarrow> bool" where
  "baseCacheableCheck E p c v =
     (if \<not> isMethodCacheable E p c v then False
      else if chainNotMatched p c then False
      else if blockchainTypeNotMatched E p c then False
      else if cpMethods p \<noteq> {} \<and> \<not> methodMatched p v then False
      else True)"

section \<open>Connectors\<close>

text \<open>A connector as a policy sees it: storing may fail (\<open>None\<close>), receiving finds an object or not.\<close>

record 's connector_ops =
  cn_store :: "i64 \<Rightarrow> string \<Rightarrow> string \<Rightarrow> i64 \<Rightarrow> 's \<Rightarrow> 's option"
  cn_receive :: "i64 \<Rightarrow> string \<Rightarrow> 's \<Rightarrow> string option \<times> 's"

subsection \<open>In memory\<close>

record cacheItem =
  ciObject :: string
  expireAt :: "i64 option"

record 'c lru =
  lru_Add :: "string \<Rightarrow> cacheItem \<Rightarrow> 'c \<Rightarrow> 'c"
  lru_Get :: "string \<Rightarrow> 'c \<Rightarrow> cacheItem option \<times> 'c"
  lru_Peek :: "string \<Rightarrow> 'c \<Rightarrow> cacheItem option"
  lru_Keys :: "'c \<Rightarrow> string list"
  lru_Remove :: "string \<Rightarrow> 'c \<Rightarrow> 'c"

definition expiry :: "i64 \<Rightarrow> i64 \<Rightarrow> i64 option" where
  "expiry now ttl = (if ttl > 0 then Some (now + ttl) else None)"

definition memory_Store :: "'c lru \<Rightarrow> i64 \<Rightarrow> string \<Rightarrow> string \<Rightarrow> i64 \<Rightarrow> 'c \<Rightarrow> 'c option" where
  "memory_Store L now key obj ttl c = Some (lru_Add L key \<lparr>ciObject = obj, expireAt = expiry now ttl\<rparr> c)"

definition memory_Receive :: "'c lru \<Rightarrow> i64 \<Rightarrow> string \<Rightarrow> 'c \<Rightarrow> string option \<times> 'c" where
  "memory_Receive L now key c =
     (case lru_Get L key c of
        (None, c') \<Rightarrow> (None, c')
      | (Some item, c') \<Rightarrow> (Some (ciObject item), c'))"

text \<open>One sweep of \<open>removeExpired\<close>.\<close>

definition memory_sweep :: "'c lru \<Rightarrow> i64 \<Rightarrow> 'c \<Rightarrow> 'c" where
  "memory_sweep L now c =
     fold (\<lambda>key c. case lru_Peek L key c of
         Some item \<Rightarrow> (case expireAt item of Some t \<Rightarrow> if now > t then lru_Remove L key c else c | None \<Rightarrow> c)
       | None \<Rightarrow> c) (lru_Keys L c) c"

definition memory_connector :: "'c lru \<Rightarrow> 'c connector_ops" where
  "memory_connector L = \<lparr>cn_store = memory_Store L, cn_receive = memory_Receive L\<rparr>"

subsection \<open>Redis\<close>

record 'c redis_ops =
  redis_Set :: "i64 \<Rightarrow> string \<Rightarrow> string \<Rightarrow> i64 \<Rightarrow> 'c \<Rightarrow> 'c option"
  redis_Get :: "i64 \<Rightarrow> string \<Rightarrow> 'c \<Rightarrow> string option"

definition cacheKeyPrefix :: string where "cacheKeyPrefix = ''nodecore:entry:''"

definition redis_Store :: "'c redis_ops \<Rightarrow> i64 \<Rightarrow> string \<Rightarrow> string \<Rightarrow> i64 \<Rightarrow> 'c \<Rightarrow> 'c option" where
  "redis_Store D now key obj ttl c = redis_Set D now (cacheKeyPrefix @ key) obj ttl c"

definition redis_Receive :: "'c redis_ops \<Rightarrow> i64 \<Rightarrow> string \<Rightarrow> 'c \<Rightarrow> string option \<times> 'c" where
  "redis_Receive D now key c = (redis_Get D now (cacheKeyPrefix @ key) c, c)"

subsection \<open>PostgreSQL\<close>

text \<open>The table of the cache, by primary key: value and \<open>expires_at\<close>.\<close>

type_synonym pg_table = "(string, string \<times> i64 option) gomap"

definition pg_live :: "i64 \<Rightarrow> i64 option \<Rightarrow> bool" where
  "pg_live now expires_at = (case expires_at of None \<Rightarrow> True | Some t \<Rightarrow> t > now)"

definition pg_Store :: "i64 \<Rightarrow> string \<Rightarrow> string \<Rightarrow> i64 \<Rightarrow> pg_table \<Rightarrow> pg_table option" where
  "pg_Store now key obj ttl tbl =
     Some (if map_of tbl key \<noteq> None then tbl else (key, obj, expiry now ttl) # tbl)"

definition pg_Receive :: "i64 \<Rightarrow> string \<Rightarrow> pg_table \<Rightarrow> string option \<times> pg_table" where
  "pg_Receive now key tbl =
     ((case map_of tbl key of Some (v, e) \<Rightarrow> if pg_live now e then Some v else None | None \<Rightarrow> None), tbl)"

definition pg_removeItems :: "i64 \<Rightarrow> pg_table \<Rightarrow> pg_table" where
  "pg_removeItems now tbl = filter (\<lambda>(_, _, e). pg_live now e) tbl"

definition pg_connector :: "pg_table connector_ops" where
  "pg_connector = \<lparr>cn_store = pg_Store, cn_receive = pg_Receive\<rparr>"

section \<open>Storing and receiving\<close>

text \<open>The connectors of a processor, by id; \<open>Store\<close> reports whether the response was stored.\<close>

type_synonym 's connectors = "string \<Rightarrow> 's"

definition policy_Store ::
  "cache_env \<Rightarrow> 's connector_ops \<Rightarrow> i64 \<Rightarrow> CachePolicy \<Rightarrow> int \<Rightarrow> RequestView \<Rightarrow> string \<Rightarrow> 's connectors \<Rightarrow> bool \<times> 's connectors" where
  "policy_Store E C now p c v response W =
     (if \<not> baseCacheableCheck E p c v then (False, W)
      else if int (length response) > maxSizeBytes p then (False, W)
      else if \<not> cacheEmpty p \<and> response \<in> set EmptyResponses then (False, W)
      else case cn_store C now (getCacheKey E c (rvHash v)) response (cpTtl p) (W (cpConnector p)) of
             None \<Rightarrow> (False, W)
           | Some s \<Rightarrow> (True, W(cpConnector p := s)))"

definition policy_Receive ::
  "cache_env \<Rightarrow> 's connector_ops \<Rightarrow> i64 \<Rightarrow> CachePolicy \<Rightarrow> int \<Rightarrow> RequestView \<Rightarrow> 's connectors \<Rightarrow> string option \<times> 's connectors" where
  "policy_Receive E C now p c v W =
     (if \<not> baseCacheableCheck E p c v then (None, W)
      else case cn_receive C now (getCacheKey E c (rvHash v)) (W (cpConnector p)) of
             (None, s) \<Rightarrow> (None, W(cpConnector p := s))
           | (Some obj, s) \<Rightarrow> (if length obj > 0 then Some obj else None, W(cpConnector p := s)))"

fun processor_Store ::
  "cache_env \<Rightarrow> 's connector_ops \<Rightarrow> i64 \<Rightarrow> CachePolicy list \<Rightarrow> int \<Rightarrow> RequestView \<Rightarrow> string \<Rightarrow> 's connectors \<Rightarrow> 's connectors" where
  "processor_Store E C now [] c v response W = W"
| "processor_Store E C now (p # ps) c v response W =
     processor_Store E C now ps c v response (snd (policy_Store E C now p c v response W))"

text \<open>\<open>Receive\<close> asks every policy in its own goroutine and takes the first hit to arrive before the timeout.
  \<open>arrived\<close> lists the policies that answered in time, in the order they did; the later ones can only touch the recency
  of their entries.\<close>

fun first_hit ::
  "cache_env \<Rightarrow> 's connector_ops \<Rightarrow> i64 \<Rightarrow> CachePolicy list \<Rightarrow> int \<Rightarrow> RequestView \<Rightarrow> 's connectors \<Rightarrow> string option \<times> 's connectors" where
  "first_hit E C now [] c v W = (None, W)"
| "first_hit E C now (p # ps) c v W =
     (case policy_Receive E C now p c v W of
        (Some obj, W') \<Rightarrow> (Some obj, W')
      | (None, W') \<Rightarrow> first_hit E C now ps c v W')"

definition processor_Receive ::
  "cache_env \<Rightarrow> 's connector_ops \<Rightarrow> i64 \<Rightarrow> CachePolicy list \<Rightarrow> CachePolicy list \<Rightarrow> int \<Rightarrow> RequestView \<Rightarrow> 's connectors \<Rightarrow> string option \<times> 's connectors" where
  "processor_Receive E C now policies arrived c v W =
     (if policies = [] then (None, W) else first_hit E C now arrived c v W)"

section \<open>Configuration\<close>

record MemoryCacheConnectorConfig =
  MaxItems :: i64
  memExpiredRemoveInterval :: i64

record PostgresCacheConnectorConfig =
  pgStorageName :: string
  pgQueryTimeout :: "i64 option"
  CacheTable :: string
  pgExpiredRemoveInterval :: i64

record CacheConnectorConfig =
  conId :: string
  Driver :: string
  conRedis :: "string option"
  conMemory :: "MemoryCacheConnectorConfig option"
  conPostgres :: "PostgresCacheConnectorConfig option"

record CacheConfig =
  ReceiveTimeout :: i64
  CacheConnectors :: "CacheConnectorConfig list"
  CachePolicies :: "CachePolicyConfig list"

definition Memory_setDefaults :: "MemoryCacheConnectorConfig option \<Rightarrow> MemoryCacheConnectorConfig" where
  "Memory_setDefaults m =
     (let m = (case m of None \<Rightarrow> \<lparr>MaxItems = 0, memExpiredRemoveInterval = 0\<rparr> | Some m \<Rightarrow> m)
      in \<lparr>MaxItems = (if MaxItems m = 0 then 10000 else MaxItems m),
          memExpiredRemoveInterval = (if memExpiredRemoveInterval m = 0 then 30000000000 else memExpiredRemoveInterval m)\<rparr>)"

definition Postgres_setDefaults :: "PostgresCacheConnectorConfig \<Rightarrow> PostgresCacheConnectorConfig" where
  "Postgres_setDefaults p =
     p\<lparr>pgExpiredRemoveInterval := (if pgExpiredRemoveInterval p = 0 then 30000000000 else pgExpiredRemoveInterval p),
       pgQueryTimeout := (if pgQueryTimeout p = None then Some 300000000 else pgQueryTimeout p),
       CacheTable := (if CacheTable p = [] then ''cache_rpc'' else CacheTable p)\<rparr>"

definition CacheConnectorConfig_setDefaults :: "CacheConnectorConfig \<Rightarrow> CacheConnectorConfig" where
  "CacheConnectorConfig_setDefaults c =
     (if Driver c = ''memory'' then c\<lparr>conMemory := Some (Memory_setDefaults (conMemory c))\<rparr>
      else if Driver c = ''redis'' then c\<lparr>conRedis := (if conRedis c = None then Some [] else conRedis c)\<rparr>
      else if Driver c = ''postgres'' then
        c\<lparr>conPostgres := Some (Postgres_setDefaults (case conPostgres c of
          None \<Rightarrow> \<lparr>pgStorageName = [], pgQueryTimeout = None, CacheTable = [], pgExpiredRemoveInterval = 0\<rparr>
        | Some p \<Rightarrow> p))\<rparr>
      else c)"

definition CachePolicyConfig_setDefaults :: "CachePolicyConfig \<Rightarrow> CachePolicyConfig" where
  "CachePolicyConfig_setDefaults p =
     p\<lparr>ObjectMaxSize := (if ObjectMaxSize p = [] then ''500KB'' else ObjectMaxSize p),
       polFinalization := (if polFinalization p = [] then ''none'' else polFinalization p),
       polTTL := (if polTTL p = [] then ''10m'' else if polTTL p = ''0'' then ''0s'' else polTTL p)\<rparr>"

definition CacheConfig_setDefaults :: "CacheConfig \<Rightarrow> CacheConfig" where
  "CacheConfig_setDefaults c =
     c\<lparr>ReceiveTimeout := (if ReceiveTimeout c = 0 then 1000000000 else ReceiveTimeout c),
       CacheConnectors := map CacheConnectorConfig_setDefaults (CacheConnectors c),
       CachePolicies := map CachePolicyConfig_setDefaults (CachePolicies c)\<rparr>"

datatype cache_error =
    NoConnectorId nat | DuplicateConnectorId string | NoPolicyId nat | DuplicatePolicyId string
  | BadDriver string | BadMaxItems | BadRemoveInterval | StorageNotFound string | WrongStorage string | BadQueryTimeout
  | ChainAndType | NoChainOrType | ChainUnsupported string | TypeUnsupported string
  | NoSizeUnit | SizeUnreadable | SizeNotPositive | EmptyMethod | EmptyConnector | BadFinalization string
  | BadTTL | NoSuchConnector string

definition MemoryCacheConnectorConfig_validate :: "MemoryCacheConnectorConfig \<Rightarrow> cache_error option" where
  "MemoryCacheConnectorConfig_validate m =
     (if MaxItems m \<le> 0 then Some BadMaxItems
      else if memExpiredRemoveInterval m \<le> 0 then Some BadRemoveInterval else None)"

definition storage_check :: "(string, string) gomap \<Rightarrow> string \<Rightarrow> string \<Rightarrow> cache_error option" where
  "storage_check storages kind name =
     (case map_of storages name of
        None \<Rightarrow> Some (StorageNotFound name)
      | Some k \<Rightarrow> if k \<noteq> kind then Some (WrongStorage name) else None)"

definition PostgresCacheConnectorConfig_validate ::
  "(string, string) gomap \<Rightarrow> PostgresCacheConnectorConfig \<Rightarrow> cache_error option" where
  "PostgresCacheConnectorConfig_validate storages p =
     (case storage_check storages ''postgres'' (pgStorageName p) of
        Some e \<Rightarrow> Some e
      | None \<Rightarrow>
          if (case pgQueryTimeout p of Some t \<Rightarrow> t < 0 | None \<Rightarrow> False) then Some BadQueryTimeout
          else if pgExpiredRemoveInterval p \<le> 0 then Some BadRemoveInterval else None)"

definition CacheConnectorConfig_validate :: "(string, string) gomap \<Rightarrow> CacheConnectorConfig \<Rightarrow> cache_error option" where
  "CacheConnectorConfig_validate storages c =
     (if Driver c \<notin> {''memory'', ''redis'', ''postgres''} then Some (BadDriver (Driver c))
      else case (case conMemory c of Some m \<Rightarrow> MemoryCacheConnectorConfig_validate m | None \<Rightarrow> None) of
             Some e \<Rightarrow> Some e
           | None \<Rightarrow>
               (case (case conRedis c of Some n \<Rightarrow> storage_check storages ''redis'' n | None \<Rightarrow> None) of
                  Some e \<Rightarrow> Some e
                | None \<Rightarrow>
                    (case conPostgres c of Some p \<Rightarrow> PostgresCacheConnectorConfig_validate storages p | None \<Rightarrow> None)))"

definition validateSize :: "string \<Rightarrow> cache_error option" where
  "validateSize s =
     (if \<not> hasSuffix s ''MB'' \<and> \<not> hasSuffix s ''KB'' then Some NoSizeUnit
      else case atoi (trimSpace (snd (size_parts s))) of
             None \<Rightarrow> Some SizeUnreadable
           | Some n \<Rightarrow> if n \<le> 0 then Some SizeNotPositive else None)"

definition validatePolicyChain :: "registry \<Rightarrow> string \<Rightarrow> cache_error option" where
  "validatePolicyChain R cfg =
     (if cfg = ''*'' then None
      else map_option ChainUnsupported (find (\<lambda>n. \<not> IsSupported R n) (config_items cfg)))"

definition validatePolicyBlockchainType :: "string \<Rightarrow> cache_error option" where
  "validatePolicyBlockchainType cfg =
     (if cfg = ''*'' then None
      else map_option TypeUnsupported (find (\<lambda>t. \<not> IsValidBlockchainType t) (config_items cfg)))"

definition CachePolicyConfig_validate :: "cache_env \<Rightarrow> string set \<Rightarrow> CachePolicyConfig \<Rightarrow> cache_error option" where
  "CachePolicyConfig_validate E connectors p =
     (case (if polChain p \<noteq> [] \<and> polBlockchainType p \<noteq> [] then Some ChainAndType
            else if polChain p = [] \<and> polBlockchainType p = [] then Some NoChainOrType
            else if polChain p \<noteq> [] then validatePolicyChain (ce_registry E) (polChain p)
            else validatePolicyBlockchainType (polBlockchainType p)) of
        Some e \<Rightarrow> Some e
      | None \<Rightarrow>
          (case validateSize (ObjectMaxSize p) of
             Some e \<Rightarrow> Some e
           | None \<Rightarrow>
               if polMethod p = [] then Some EmptyMethod
               else if polConnector p = [] then Some EmptyConnector
               else if polFinalization p \<notin> {''finalized'', ''none''} then Some (BadFinalization (polFinalization p))
               else if parse_duration E (polTTL p) = None then Some BadTTL
               else if polConnector p \<notin> connectors then Some (NoSuchConnector (polConnector p))
               else None))"

fun connectors_check ::
  "(string, string) gomap \<Rightarrow> nat \<Rightarrow> string set \<Rightarrow> CacheConnectorConfig list \<Rightarrow> cache_error + string set" where
  "connectors_check storages i ids [] = Inr ids"
| "connectors_check storages i ids (c # cs) =
     (if conId c = [] then Inl (NoConnectorId i)
      else if conId c \<in> ids then Inl (DuplicateConnectorId (conId c))
      else case CacheConnectorConfig_validate storages c of
             Some e \<Rightarrow> Inl e
           | None \<Rightarrow> connectors_check storages (Suc i) (insert (conId c) ids) cs)"

fun policies_check :: "cache_env \<Rightarrow> string set \<Rightarrow> nat \<Rightarrow> string set \<Rightarrow> CachePolicyConfig list \<Rightarrow> cache_error option" where
  "policies_check E connectors i ids [] = None"
| "policies_check E connectors i ids (p # ps) =
     (if polId p = [] then Some (NoPolicyId i)
      else if polId p \<in> ids then Some (DuplicatePolicyId (polId p))
      else case CachePolicyConfig_validate E connectors p of
             Some e \<Rightarrow> Some e
           | None \<Rightarrow> policies_check E connectors (Suc i) (insert (polId p) ids) ps)"

definition CacheConfig_validate :: "cache_env \<Rightarrow> (string, string) gomap \<Rightarrow> CacheConfig \<Rightarrow> cache_error option" where
  "CacheConfig_validate E storages c =
     (case connectors_check storages 0 {} (CacheConnectors c) of
        Inl e \<Rightarrow> Some e
      | Inr ids \<Rightarrow> policies_check E ids 0 {} (CachePolicies c))"

text \<open>\<open>NewGenericCacheProcessor\<close> after its connectors are made: the policies whose connector exists, or
  \<open>None\<close>, a panic.\<close>

definition processor_policies :: "cache_env \<Rightarrow> CacheConfig \<Rightarrow> CachePolicy list option" where
  "processor_policies E c =
     those (map (\<lambda>p. NewCachePolicy E (polConnector p) p)
       (filter (\<lambda>p. polConnector p \<in> conId ` set (CacheConnectors c)) (CachePolicies c)))"

section \<open>What a connector promises\<close>

text \<open>Receiving changes nothing that can be observed, and what is received under a key was stored under it.\<close>

locale cache_connector =
  fixes C :: "'s connector_ops"
  assumes receive_pure: "fst (cn_receive C t k (snd (cn_receive C t' k' s))) = fst (cn_receive C t k s)"
    and store_sound: "cn_store C now k' obj ttl s = Some s' \<Longrightarrow> fst (cn_receive C t k s') = Some v \<Longrightarrow>
      (k = k' \<and> v = obj) \<or> fst (cn_receive C t k s) = Some v"

datatype cache_op =
    DoStore i64 int RequestView string
  | DoReceive i64 "CachePolicy list" int RequestView

fun cache_step :: "cache_env \<Rightarrow> 's connector_ops \<Rightarrow> CachePolicy list \<Rightarrow> cache_op \<Rightarrow> 's connectors \<Rightarrow> 's connectors" where
  "cache_step E C ps (DoStore now c v response) W = processor_Store E C now ps c v response W"
| "cache_step E C ps (DoReceive now arrived c v) W = snd (processor_Receive E C now ps arrived c v W)"

definition cache_run :: "cache_env \<Rightarrow> 's connector_ops \<Rightarrow> CachePolicy list \<Rightarrow> cache_op list \<Rightarrow> 's connectors \<Rightarrow> 's connectors" where
  "cache_run E C ps ops W = fold (cache_step E C ps) ops W"

text \<open>The objects stored under a key by a run.\<close>

definition stored_under :: "cache_env \<Rightarrow> cache_op list \<Rightarrow> string \<Rightarrow> string set" where
  "stored_under E ops key =
     {response. \<exists>now c v. DoStore now c v response \<in> set ops \<and> getCacheKey E c (rvHash v) = key}"

definition visible :: "'s connector_ops \<Rightarrow> 's connectors \<Rightarrow> string \<Rightarrow> string set" where
  "visible C W key = {obj. \<exists>i t. fst (cn_receive C t key (W i)) = Some obj}"

context cache_connector
begin

lemma visible_receive: "visible C (W(i := snd (cn_receive C t k (W i)))) key = visible C W key"
  by (auto simp: visible_def receive_pure)

lemma visible_policy_Receive: "visible C (snd (policy_Receive E C now p c v W)) key = visible C W key"
proof -
  obtain r s where rs: "cn_receive C now (getCacheKey E c (rvHash v)) (W (cpConnector p)) = (r, s)" by fastforce
  then have "visible C (W(cpConnector p := s)) key = visible C W key"
    using visible_receive [of W "cpConnector p" now "getCacheKey E c (rvHash v)" key] by simp
  with rs show ?thesis by (simp add: policy_Receive_def split: option.split)
qed

lemma visible_first_hit: "visible C (snd (first_hit E C now ps c v W)) key = visible C W key"
proof (induction ps arbitrary: W)
  case (Cons p ps)
  then show ?case using visible_policy_Receive [of E now p c v W key] by (auto split: prod.splits option.splits)
qed simp

lemma visible_policy_Store:
  "visible C (snd (policy_Store E C now p c v response W)) key \<subseteq>
     visible C W key \<union> (if key = getCacheKey E c (rvHash v) then {response} else {})"
proof (cases "cn_store C now (getCacheKey E c (rvHash v)) response (cpTtl p) (W (cpConnector p))")
  case (Some s)
  have "visible C (W(cpConnector p := s)) key \<subseteq>
      visible C W key \<union> (if key = getCacheKey E c (rvHash v) then {response} else {})"
  proof
    fix obj
    assume "obj \<in> visible C (W(cpConnector p := s)) key"
    then obtain i t where "fst (cn_receive C t key ((W(cpConnector p := s)) i)) = Some obj" unfolding visible_def by blast
    then have "obj \<in> visible C W key \<or> key = getCacheKey E c (rvHash v) \<and> obj = response"
      using store_sound [OF Some, of t key obj] unfolding visible_def by (cases "i = cpConnector p") auto
    then show "obj \<in> visible C W key \<union> (if key = getCacheKey E c (rvHash v) then {response} else {})" by auto
  qed
  moreover have "snd (policy_Store E C now p c v response W) \<in> {W, W(cpConnector p := s)}"
    using Some by (simp add: policy_Store_def)
  ultimately show ?thesis by (metis Un_upper1 empty_iff insert_iff)
next
  case None
  then have "snd (policy_Store E C now p c v response W) = W" by (simp add: policy_Store_def)
  then show ?thesis by simp
qed

lemma visible_processor_Store:
  "visible C (processor_Store E C now ps c v response W) key \<subseteq>
     visible C W key \<union> (if key = getCacheKey E c (rvHash v) then {response} else {})"
proof (induction ps arbitrary: W)
  case (Cons p ps)
  then show ?case using visible_policy_Store [of E now p c v response W key] by fastforce
qed simp

lemma visible_step:
  "visible C (cache_step E C ps op W) key \<subseteq> visible C W key \<union> stored_under E [op] key"
proof (cases op)
  case (DoStore now c v response)
  then show ?thesis using visible_processor_Store [of E now ps c v response W key] by (auto simp: stored_under_def split: if_splits)
next
  case (DoReceive now arrived c v)
  then show ?thesis using visible_first_hit [of E now arrived c v W key] by (simp add: processor_Receive_def)
qed

lemma visible_run: "visible C (cache_run E C ps ops W) key \<subseteq> visible C W key \<union> stored_under E ops key"
  unfolding cache_run_def
proof (induction ops arbitrary: W)
  case (Cons op ops)
  have "stored_under E (op # ops) key = stored_under E [op] key \<union> stored_under E ops key"
    unfolding stored_under_def by fastforce
  with Cons [of "cache_step E C ps op W"] visible_step [of E ps op W key] show ?case by auto
qed simp

lemma policy_hit_visible: "fst (policy_Receive E C now p c v W) = Some obj \<Longrightarrow> obj \<in> visible C W (getCacheKey E c (rvHash v))"
  by (auto simp: policy_Receive_def visible_def split: if_splits prod.splits option.splits) (metis fst_conv)

lemma first_hit_visible: "fst (first_hit E C now ps c v W) = Some obj \<Longrightarrow> obj \<in> visible C W (getCacheKey E c (rvHash v))"
proof (induction ps arbitrary: W)
  case (Cons p ps)
  obtain r W' where pr: "policy_Receive E C now p c v W = (r, W')" by fastforce
  then have "visible C W' key = visible C W key" for key using visible_policy_Receive [of E now p c v W key] by simp
  with Cons pr policy_hit_visible [of E now p c v W obj] show ?case by (cases r) auto
qed simp

lemma hit_was_stored:
  assumes "\<And>i t k. fst (cn_receive C t k (W i)) = None"
    and "fst (processor_Receive E C now ps arrived c v (cache_run E C ps ops W)) = Some obj"
  shows "\<exists>now' c' v'. DoStore now' c' v' obj \<in> set ops \<and> getCacheKey E c' (rvHash v') = getCacheKey E c (rvHash v)"
proof -
  have "visible C W key = {}" for key using assms(1) by (simp add: visible_def)
  moreover have "obj \<in> visible C (cache_run E C ps ops W) (getCacheKey E c (rvHash v))"
    using assms(2) first_hit_visible by (auto simp: processor_Receive_def split: if_splits)
  ultimately have "obj \<in> stored_under E ops (getCacheKey E c (rvHash v))" using visible_run by blast
  then show ?thesis by (auto simp: stored_under_def)
qed

end

interpretation pg: cache_connector pg_connector
  by unfold_locales
    (auto simp: pg_connector_def pg_Receive_def pg_Store_def split: if_splits option.splits)

text \<open>The documented behaviour of the LRU cache: \<open>Get\<close> finds what \<open>Peek\<close> finds and only changes the recency, an
  added entry is there, adding another may evict it, removing takes one entry out, and \<open>Keys\<close> lists the entries.\<close>

definition lru_ok :: "'c lru \<Rightarrow> bool" where
  "lru_ok L \<longleftrightarrow>
     (\<forall>k c. fst (lru_Get L k c) = lru_Peek L k c) \<and>
     (\<forall>k k' c. lru_Peek L k (snd (lru_Get L k' c)) = lru_Peek L k c) \<and>
     (\<forall>k i c. lru_Peek L k (lru_Add L k i c) = Some i) \<and>
     (\<forall>k k' i c. k \<noteq> k' \<longrightarrow> lru_Peek L k (lru_Add L k' i c) = None \<or> lru_Peek L k (lru_Add L k' i c) = lru_Peek L k c) \<and>
     (\<forall>k k' c. lru_Peek L k (lru_Remove L k' c) = (if k = k' then None else lru_Peek L k c)) \<and>
     (\<forall>c. set (lru_Keys L c) = {k. lru_Peek L k c \<noteq> None})"

lemma memory_Receive_Peek: "lru_ok L \<Longrightarrow> fst (memory_Receive L t k c) = map_option ciObject (lru_Peek L k c)"
  unfolding lru_ok_def memory_Receive_def by (auto split: prod.splits option.splits) (metis fst_conv option.simps(8,9))+

lemma memory_is_connector:
  assumes "lru_ok L"
  shows "cache_connector (memory_connector L)"
proof
  show "fst (cn_receive (memory_connector L) t k (snd (cn_receive (memory_connector L) t' k' s))) =
      fst (cn_receive (memory_connector L) t k s)" for t k t' k' s
  proof -
    have "snd (memory_Receive L t' k' s) = snd (lru_Get L k' s)"
      by (simp add: memory_Receive_def split: prod.splits option.splits)
    with assms show ?thesis by (simp add: memory_connector_def memory_Receive_Peek) (simp add: lru_ok_def)
  qed
  show "(k = k' \<and> v = obj) \<or> fst (cn_receive (memory_connector L) t k s) = Some v"
    if "cn_store (memory_connector L) now k' obj ttl s = Some s'" "fst (cn_receive (memory_connector L) t k s') = Some v"
    for now k' obj ttl s s' t k v
  proof -
    have s': "s' = lru_Add L k' \<lparr>ciObject = obj, expireAt = expiry now ttl\<rparr> s"
      using that(1) by (simp add: memory_connector_def memory_Store_def)
    have v: "map_option ciObject (lru_Peek L k s') = Some v"
      using that(2) memory_Receive_Peek [OF assms] by (simp add: memory_connector_def)
    show ?thesis
    proof (cases "k = k'")
      case True
      with v s' assms show ?thesis by (auto simp: lru_ok_def)
    next
      case False
      with v s' assms have "lru_Peek L k s' = lru_Peek L k s" unfolding lru_ok_def by (metis option.map_disc_iff option.distinct(1))
      with v show ?thesis using memory_Receive_Peek [OF assms] by (simp add: memory_connector_def)
    qed
  qed
qed

section \<open>Keys\<close>

lemma hex_char_plain: "n < 16 \<Longrightarrow> hex_char n \<noteq> CHR ''_''"
proof -
  have "list_all (\<lambda>n. hex_char n \<noteq> CHR ''_'') [0..<16]" by code_simp
  then show "n < 16 \<Longrightarrow> hex_char n \<noteq> CHR ''_''" by (simp add: list_all_iff)
qed

lemma hex_encode_plain: "CHR ''_'' \<notin> set (hex_encode bs)"
proof -
  have b: "hex_char (unat b div 16) \<noteq> CHR ''_''" "hex_char (unat b mod 16) \<noteq> CHR ''_''" for b :: byte
  proof -
    have "unat b div 16 < 16" using unsigned_less [of b, where 'a = nat] by auto
    then show "hex_char (unat b div 16) \<noteq> CHR ''_''" "hex_char (unat b mod 16) \<noteq> CHR ''_''"
      by (simp_all add: hex_char_plain)
  qed
  show ?thesis unfolding hex_encode_def by (induction bs) (simp_all add: b [symmetric])
qed

lemma getCacheKey_inject:
  assumes "getCacheKey E c (hex_encode x) = getCacheKey E c' (hex_encode x')"
  shows "Chain_String (ce_generated E) (ce_registry E) c = Chain_String (ce_generated E) (ce_registry E) c' \<and> x = x'"
proof -
  let ?n = "Chain_String (ce_generated E) (ce_registry E)"
  have "rev (hex_encode x) @ CHR ''_'' # rev (?n c) = rev (hex_encode x') @ CHR ''_'' # rev (?n c')"
    using arg_cong [OF assms, of rev] by (simp add: getCacheKey_def)
  then have "cutAt CHR ''_'' (rev (hex_encode x) @ CHR ''_'' # rev (?n c)) = cutAt CHR ''_'' (rev (hex_encode x') @ CHR ''_'' # rev (?n c'))"
    by simp
  then show ?thesis by (simp add: cutAt_append hex_encode_plain hex_encode_inject)
qed

section \<open>Expiry in memory\<close>

definition expired :: "i64 \<Rightarrow> cacheItem \<Rightarrow> bool" where
  "expired now item = (case expireAt item of Some t \<Rightarrow> now > t | None \<Rightarrow> False)"

lemma sweep_loop:
  assumes "lru_ok L"
  shows "lru_Peek L k (fold (\<lambda>key c. case lru_Peek L key c of
         Some item \<Rightarrow> (case expireAt item of Some t \<Rightarrow> if now > t then lru_Remove L key c else c | None \<Rightarrow> c)
       | None \<Rightarrow> c) keys c) =
     (case lru_Peek L k c of Some item \<Rightarrow> if k \<in> set keys \<and> expired now item then None else Some item | None \<Rightarrow> None)"
proof (induction keys arbitrary: c)
  case (Cons key keys)
  let ?c = "case lru_Peek L key c of
         Some item \<Rightarrow> (case expireAt item of Some t \<Rightarrow> if now > t then lru_Remove L key c else c | None \<Rightarrow> c)
       | None \<Rightarrow> c"
  have "lru_Peek L k ?c =
      (case lru_Peek L k c of Some item \<Rightarrow> if k = key \<and> expired now item then None else Some item | None \<Rightarrow> None)"
    using assms by (auto simp: lru_ok_def expired_def split: option.splits if_splits)
  with Cons [of ?c] show ?case by (auto split: option.splits)
qed (simp split: option.split)

lemma sweep_Peek:
  "lru_ok L \<Longrightarrow> lru_Peek L k (memory_sweep L now c) =
     (case lru_Peek L k c of Some item \<Rightarrow> if expired now item then None else Some item | None \<Rightarrow> None)"
  using sweep_loop [of L k now "lru_Keys L c" c] by (auto simp: memory_sweep_def lru_ok_def split: option.splits)

section \<open>Accepted policies\<close>

lemma find_None_all: "find P xs = None \<longleftrightarrow> (\<forall>x \<in> set xs. \<not> P x)"
  by (auto simp: find_None_iff)

lemma config_items_not_Nil [simp]: "config_items s \<noteq> []"
  by (simp add: config_items_def)

lemma accepted_policy:
  assumes "CachePolicyConfig_validate E ids cfg = None"
  shows "\<exists>p. NewCachePolicy E (polConnector cfg) cfg = Some p \<and> cpChains p \<noteq> None \<and> cpTypes p \<noteq> None"
proof -
  have fin: "polFinalization cfg = ''finalized'' \<or> polFinalization cfg = ''none''"
    and which: "(if polChain cfg \<noteq> [] \<and> polBlockchainType cfg \<noteq> [] then Some ChainAndType
            else if polChain cfg = [] \<and> polBlockchainType cfg = [] then Some NoChainOrType
            else if polChain cfg \<noteq> [] then validatePolicyChain (ce_registry E) (polChain cfg)
            else validatePolicyBlockchainType (polBlockchainType cfg)) = None"
    using assms by (auto simp: CachePolicyConfig_validate_def split: option.splits if_splits)
  have "mapFinalizationType (polFinalization cfg) \<noteq> None" using fin by (auto simp: mapFinalizationType_def)
  moreover have "getCacheChains (ce_registry E) (polChain cfg) \<noteq> None"
  proof (cases "polChain cfg = [] \<or> polChain cfg = ''*''")
    case False
    then have "\<forall>n \<in> set (config_items (polChain cfg)). IsSupported (ce_registry E) n"
      using which by (auto simp: validatePolicyChain_def find_None_all split: if_splits)
    then have "filter (IsSupported (ce_registry E)) (config_items (polChain cfg)) = config_items (polChain cfg)"
      by (simp add: filter_id_conv)
    with False show ?thesis by (simp add: getCacheChains_def Let_def)
  qed (auto simp: getCacheChains_def)
  moreover have "getCacheBlockchainTypes (polBlockchainType cfg) \<noteq> None"
  proof (cases "polBlockchainType cfg = [] \<or> polBlockchainType cfg = ''*''")
    case False
    then have "\<forall>n \<in> set (config_items (polBlockchainType cfg)). IsValidBlockchainType n"
      using which by (auto simp: validatePolicyBlockchainType_def find_None_all split: if_splits)
    then have "filter IsValidBlockchainType (config_items (polBlockchainType cfg)) = config_items (polBlockchainType cfg)"
      by (simp add: filter_id_conv)
    with False show ?thesis by (simp add: getCacheBlockchainTypes_def Let_def)
  qed (auto simp: getCacheBlockchainTypes_def)
  ultimately show ?thesis by (auto simp: NewCachePolicy_def)
qed

lemma policies_check_None:
  "policies_check E ids i seen ps = None \<Longrightarrow> p \<in> set ps \<Longrightarrow> CachePolicyConfig_validate E ids p = None"
  by (induction ps arbitrary: i seen) (auto split: if_splits option.splits)

lemma connectors_check_ids: "connectors_check storages i ids cs = Inr ids' \<Longrightarrow> ids' = ids \<union> conId ` set cs"
  by (induction cs arbitrary: i ids) (auto split: if_splits option.splits)

lemma policy_connector: "CachePolicyConfig_validate E ids p = None \<Longrightarrow> polConnector p \<in> ids"
  by (auto simp: CachePolicyConfig_validate_def split: option.splits if_splits)

section \<open>Finalized policies\<close>

lemma not_above_Some: "not_above n height \<longleftrightarrow> (\<exists>h. height = Some h \<and> \<not> (word_of_int n :: u64) > h)"
  by (simp add: not_above_def split: option.split)

lemma cacheable_number:
  assumes "isMethodCacheable E p c v" "cpFinalization p = Finalized" "rvParam v = Some (BlockNumberParam n)"
  shows "\<exists>st h. ce_supervisor E c = Some st \<and> finalized_height st = Some h \<and> n \<notin> set (eth_tags E) \<and> \<not> (word_of_int n :: u64) > h"
  using assms by (auto simp: isMethodCacheable_def not_above_Some IsBlockTagNumber_def split: option.splits if_splits)

lemma cacheable_range:
  assumes "isMethodCacheable E p c v" "cpFinalization p = Finalized" "rvParam v = Some (BlockRangeParam from to)"
  shows "\<exists>st h b m. ce_supervisor E c = Some st \<and> finalized_height st = Some h \<and> to = Some b \<and> b \<notin> set (eth_tags E)
    \<and> m = (case from of Some a \<Rightarrow> max a b | None \<Rightarrow> b) \<and> \<not> (word_of_int m :: u64) > h
    \<and> (\<forall>a. from = Some a \<longrightarrow> a \<notin> set (eth_tags E))"
proof -
  obtain st where st: "ce_supervisor E c = Some st" using assms(1) by (auto simp: isMethodCacheable_def split: option.splits)
  obtain m where m: "rvSpec v = Some m" "cacheable m" using assms(1) st by (auto simp: isMethodCacheable_def split: option.splits if_splits)
  note facts = assms st m
  show ?thesis
  proof (cases "to")
    case None
    with facts show ?thesis by (cases "from") (auto simp: isMethodCacheable_def split: if_splits)
  next
    case (Some b)
    with facts show ?thesis
      by (cases "from") (auto simp: isMethodCacheable_def not_above_Some IsBlockTagNumber_def split: if_splits)
  qed
qed

lemma below_height:
  assumes "in_i64 n" "uint h < 2 ^ 63" "\<not> (word_of_int n :: u64) > h"
  shows "n \<le> uint h"
proof (cases "n < 0")
  case False
  with assms(1) have "uint (word_of_int n :: u64) = n" by (simp add: in_i64_def uint_word_of_int)
  with assms(3) show ?thesis by (simp add: word_less_alt)
next
  case True
  moreover have "0 \<le> uint h" by simp
  ultimately show ?thesis by linarith
qed

section \<open>Properties\<close>


text \<open>\<^bold>\<open>C26\<close>. A policy for finalized data neither stores nor serves anything above the finalized block: if it does either for a
  request whose tag is a block number or a block range, the finalized height of the chain is known, no number is a block
  tag, a range has an upper end, and every number is at most that height.\<close>

theorem finalized_policy_stays_finalized:
  assumes "cpFinalization p = Finalized"
    and "fst (policy_Store E C now p c v response W) \<or> fst (policy_Receive E C now p c v W) \<noteq> None"
    and "rvParam v = Some (BlockNumberParam n) \<and> ns = [n] \<or>
         rvParam v = Some (BlockRangeParam from to) \<and> ns = map the (filter (\<lambda>x. x \<noteq> None) [from, to])"
    and "\<forall>n \<in> set ns. in_i64 n"
  shows "\<exists>st h. ce_supervisor E c = Some st \<and> finalized_height st = Some h \<and>
     (uint h < 2 ^ 63 \<longrightarrow> (\<forall>n \<in> set ns. n \<notin> set (eth_tags E) \<and> n \<le> uint h)) \<and>
     (\<forall>from to. rvParam v = Some (BlockRangeParam from to) \<longrightarrow> to \<noteq> None)"
proof -
  have cacheable: "isMethodCacheable E p c v"
    using assms(2) by (auto simp: policy_Store_def policy_Receive_def baseCacheableCheck_def split: if_splits)
  from assms(3) show ?thesis
  proof (elim disjE conjE)
    assume "rvParam v = Some (BlockNumberParam n)" "ns = [n]"
    with cacheable_number [OF cacheable assms(1)] assms(4) below_height show ?thesis by fastforce
  next
    assume r: "rvParam v = Some (BlockRangeParam from to)" "ns = map the (filter (\<lambda>x. x \<noteq> None) [from, to])"
    from cacheable_range [OF cacheable assms(1) r(1)] obtain st h b m
      where f: "ce_supervisor E c = Some st" "finalized_height st = Some h" "to = Some b" "b \<notin> set (eth_tags E)"
        "m = (case from of Some a \<Rightarrow> max a b | None \<Rightarrow> b)" "\<not> (word_of_int m :: u64) > h"
        "\<forall>a. from = Some a \<longrightarrow> a \<notin> set (eth_tags E)" by blast
    have "in_i64 m" using f(3,5) r(2) assms(4) by (auto simp: max_def split: option.splits)
    then have "uint h < 2 ^ 63 \<Longrightarrow> m \<le> uint h" using below_height f(6) by blast
    with f r show ?thesis by (auto split: option.splits)
  qed
qed


text \<open>An accepted cache configuration starts: after validation every configured policy is built, none panics or is
  dropped for want of its connector, and each can match some chain and some blockchain type.\<close>

theorem accepted_cache_config_starts:
  assumes "CacheConfig_validate E storages cfg = None"
  shows "\<exists>ps. processor_policies E cfg = Some ps \<and> length ps = length (CachePolicies cfg) \<and>
     (\<forall>p \<in> set ps. cpChains p \<noteq> None \<and> cpTypes p \<noteq> None)"
proof -
  obtain ids where ids: "connectors_check storages 0 {} (CacheConnectors cfg) = Inr ids" "policies_check E ids 0 {} (CachePolicies cfg) = None"
    using assms by (auto simp: CacheConfig_validate_def split: sum.splits)
  have ok: "CachePolicyConfig_validate E ids p = None" if "p \<in> set (CachePolicies cfg)" for p
    using policies_check_None [OF ids(2) that] .
  have "filter (\<lambda>p. polConnector p \<in> conId ` set (CacheConnectors cfg)) (CachePolicies cfg) = CachePolicies cfg"
    using policy_connector [OF ok] connectors_check_ids [OF ids(1)] by (simp add: filter_id_conv)
  moreover have "\<exists>qs. those (map (\<lambda>p. NewCachePolicy E (polConnector p) p) ps) = Some qs
      \<and> length qs = length ps \<and> (\<forall>q \<in> set qs. cpChains q \<noteq> None \<and> cpTypes q \<noteq> None)"
    if "set ps \<subseteq> set (CachePolicies cfg)" for ps
    using that
  proof (induction ps)
    case (Cons p ps)
    then obtain qs where "those (map (\<lambda>p. NewCachePolicy E (polConnector p) p) ps) = Some qs" "length qs = length ps"
      "\<forall>q \<in> set qs. cpChains q \<noteq> None \<and> cpTypes q \<noteq> None" by auto
    moreover obtain q where "NewCachePolicy E (polConnector p) p = Some q" "cpChains q \<noteq> None" "cpTypes q \<noteq> None"
      using accepted_policy ok Cons.prems by (metis list.set_intros(1) subsetD)
    ultimately show ?case by (intro exI [of _ "q # qs"]) simp
  qed simp
  ultimately show ?thesis by (simp add: processor_policies_def)
qed

text \<open>A policy without finalization caches a range that ends at the head: when a block range has a lower end
  and no upper one, the upper end is the latest block, which the finalized branch treats as a block tag, but the
  other branch accepts the request.\<close>

theorem open_range_is_cached_without_finalization:
  assumes "ce_supervisor E c = Some st" "rvSpec v = Some m" "cacheable m"
    and "rvParam v = Some (BlockRangeParam (Some n) None)" "n \<notin> set (eth_tags E)"
  shows "isMethodCacheable E p c v \<longleftrightarrow> cpFinalization p = NoFinalization"
  using assms by (cases "cpFinalization p") (auto simp: isMethodCacheable_def IsBlockTagNumber_def)

section \<open>Witnesses\<close>

text \<open>A cache that never evicts behaves as documented.\<close>

definition plain_lru :: "(string, cacheItem) gomap lru" where
  "plain_lru = \<lparr>lru_Add = AList.update, lru_Get = (\<lambda>k c. (map_of c k, c)), lru_Peek = (\<lambda>k c. map_of c k),
     lru_Keys = map fst, lru_Remove = AList.delete\<rparr>"

lemma plain_lru_ok: "lru_ok plain_lru"
  by (auto simp: lru_ok_def plain_lru_def map_of_eq_None_iff)

definition sample_state :: ChainSupervisorState where
  "sample_state = \<lparr>csStatus = Available, csHeadData = NewChainHeadData ZeroBlock [], csMethods = ChainMethods [] {},
     csBlocks = [(FinalizedBlock, NewBlockWithHeight 100)], csLowerBounds = [], csLabels = [], csSubMethods = {}, csCaps = {}\<rparr>"

definition sample_cache_env :: cache_env where
  "sample_cache_env = \<lparr>ce_registry = sample_registry, ce_generated = sample_gen, ce_supervisor = (\<lambda>c. if c = 1 then Some sample_state else None),
     eth_tags = [- 1, - 2, - 3, - 4, - 5], parse_duration = (\<lambda>s. if s = ''10m'' then Some 600000000000 else None)\<rparr>"

definition sample_policy_cfg :: CachePolicyConfig where
  "sample_policy_cfg = CachePolicyConfig_setDefaults \<lparr>polId = ''p'', polChain = ''ethereum | eth'', polBlockchainType = [], polMethod = ''eth_*'',
     polFinalization = ''finalized'', polCacheEmpty = False, polConnector = ''mem'', ObjectMaxSize = [], polTTL = []\<rparr>"

definition sample_policy :: CachePolicy where
  "sample_policy = the (NewCachePolicy sample_cache_env ''mem'' sample_policy_cfg)"

definition sample_view :: "i64 \<Rightarrow> RequestView" where
  "sample_view n = \<lparr>rvMethod = ''eth_getBlock'', rvSpec = Some sample_tag_method, rvParam = Some (BlockNumberParam n), rvHash = hex_encode [7, 255]\<rparr>"

definition sample_caches :: "(string, cacheItem) gomap connectors" where
  "sample_caches i = []"

definition sample_stored :: "bool \<times> (string, cacheItem) gomap connectors" where
  "sample_stored = policy_Store sample_cache_env (memory_connector plain_lru) 5 sample_policy 1 (sample_view 40) ''abc'' sample_caches"

lemma sample_stored_ok: "fst sample_stored"
  by code_simp


theorem finalized_policy_stays_finalized_witness:
  "\<exists>st h. ce_supervisor sample_cache_env 1 = Some st \<and> finalized_height st = Some h \<and>
     (uint h < 2 ^ 63 \<longrightarrow> (\<forall>n \<in> set [40]. n \<notin> set (eth_tags sample_cache_env) \<and> n \<le> uint h)) \<and>
     (\<forall>from to. rvParam (sample_view 40) = Some (BlockRangeParam from to) \<longrightarrow> to \<noteq> None)"
proof (rule finalized_policy_stays_finalized [where p = sample_policy and n = 40])
  show "cpFinalization sample_policy = Finalized" by code_simp
  show "fst (policy_Store sample_cache_env (memory_connector plain_lru) 5 sample_policy 1 (sample_view 40) ''abc'' sample_caches) \<or>
      fst (policy_Receive sample_cache_env (memory_connector plain_lru) 5 sample_policy 1 (sample_view 40) sample_caches) \<noteq> None"
    using sample_stored_ok by (simp add: sample_stored_def)
qed (simp_all add: sample_view_def in_i64_def)


definition sample_cache_config :: CacheConfig where
  "sample_cache_config = CacheConfig_setDefaults \<lparr>ReceiveTimeout = 0,
     CacheConnectors = [\<lparr>conId = ''mem'', Driver = ''memory'', conRedis = None, conMemory = None, conPostgres = None\<rparr>],
     CachePolicies = [sample_policy_cfg]\<rparr>"

theorem accepted_cache_config_starts_witness:
  "\<exists>ps. processor_policies sample_cache_env sample_cache_config = Some ps \<and> length ps = length (CachePolicies sample_cache_config) \<and>
     (\<forall>p \<in> set ps. cpChains p \<noteq> None \<and> cpTypes p \<noteq> None)"
proof (rule accepted_cache_config_starts [where storages = "[]"])
  show "CacheConfig_validate sample_cache_env [] sample_cache_config = None" by code_simp
qed

theorem open_range_is_cached_without_finalization_witness:
  "isMethodCacheable sample_cache_env (sample_policy\<lparr>cpFinalization := NoFinalization\<rparr>) 1
     (sample_view 0\<lparr>rvParam := Some (BlockRangeParam (Some 7) None)\<rparr>)"
  using open_range_is_cached_without_finalization [of sample_cache_env 1 sample_state
      "sample_view 0\<lparr>rvParam := Some (BlockRangeParam (Some 7) None)\<rparr>" sample_tag_method 7 "sample_policy\<lparr>cpFinalization := NoFinalization\<rparr>"]
  by (simp add: sample_cache_env_def sample_view_def sample_tag_method_def)

end
