(* ===== verification/ResultStream.thy ===== *)
theory ResultStream
  imports GoStrings
begin

text \<open>
  Streaming the result of a JSON-RPC response: the byte counter of \<open>internal/protocol/json_rpc_stream.go\<close>, the
  unwrapping of \<open>internal/server/emerald/json_rpc_result_stream.go\<close> and the chunk emitter of
  \<open>internal/server/emerald/grpc_blockchain.go\<close> that \<open>streamNativeCallBody\<close> sends through.

  A response body is a reader: the pieces its \<open>Read\<close> calls return and the error, if any, after them. The
  read-ahead goroutine is a producer of read results; the cancellation of its context may cut the sequence
  anywhere. A gRPC stream is the list of items sent, and \<open>send\<close> says which sends fail. The counter's depth grows by
  at most one per byte, so Go's \<open>int\<close> does not overflow and it is a \<open>nat\<close>.
\<close>

section \<open>The result counter\<close>

datatype counterKind = counterUnset | counterObject | counterArray | counterString | counterScalar

record ResultCounter =
  ckind :: counterKind
  depth :: nat
  inStr :: bool
  escape :: bool

definition new_counter :: "counterKind \<Rightarrow> ResultCounter" where
  "new_counter k = \<lparr>ckind = k, depth = 0, inStr = False, escape = False\<rparr>"

datatype StepResult = StepContinue | StepFinishHere | StepStopBefore

definition stepBracket :: "char \<Rightarrow> char \<Rightarrow> char \<Rightarrow> ResultCounter \<Rightarrow> StepResult \<times> ResultCounter" where
  "stepBracket b opn cls c =
     (if inStr c then
        (if escape c then (StepContinue, c\<lparr>escape := False\<rparr>)
         else if b = CHR 0x5C then (StepContinue, c\<lparr>escape := True\<rparr>)
         else if b = CHR 0x22 then (StepContinue, c\<lparr>inStr := False\<rparr>)
         else (StepContinue, c))
      else if b = CHR 0x22 then (StepContinue, c\<lparr>inStr := True\<rparr>)
      else if b = opn then (StepContinue, c\<lparr>depth := Suc (depth c)\<rparr>)
      else if b = cls then
        (if depth c > 0 then
           (if depth c - 1 = 0 then (StepFinishHere, c\<lparr>depth := depth c - 1\<rparr>)
            else (StepContinue, c\<lparr>depth := depth c - 1\<rparr>))
         else (StepContinue, c))
      else (StepContinue, c))"

definition stepString :: "char \<Rightarrow> ResultCounter \<Rightarrow> StepResult \<times> ResultCounter" where
  "stepString b c =
     (if escape c then (StepContinue, c\<lparr>escape := False\<rparr>)
      else if b = CHR 0x5C then (StepContinue, c\<lparr>escape := True\<rparr>)
      else if b = CHR 0x22 then
        (if \<not> inStr c then (StepContinue, c\<lparr>inStr := True\<rparr>) else (StepFinishHere, c))
      else (StepContinue, c))"

definition isJSONWhitespace :: "char \<Rightarrow> bool" where
  "isJSONWhitespace b \<longleftrightarrow> b = CHR '' '' \<or> b = CHR 0x09 \<or> b = CHR 0x0A \<or> b = CHR 0x0D"

definition stepScalar :: "char \<Rightarrow> ResultCounter \<Rightarrow> StepResult \<times> ResultCounter" where
  "stepScalar b c =
     (if b = CHR '','' \<or> b = CHR ''}'' \<or> b = CHR '']'' \<or> b = CHR '' '' \<or> b = CHR 0x09 \<or> b = CHR 0x0A \<or> b = CHR 0x0D
      then (StepStopBefore, c) else (StepContinue, c))"

definition Step :: "char \<Rightarrow> ResultCounter \<Rightarrow> StepResult \<times> ResultCounter" where
  "Step b c =
     (case ckind c of
        counterObject \<Rightarrow> stepBracket b CHR ''{'' CHR ''}'' c
      | counterArray \<Rightarrow> stepBracket b CHR ''['' CHR '']'' c
      | counterString \<Rightarrow> stepString b c
      | counterScalar \<Rightarrow> stepScalar b c
      | counterUnset \<Rightarrow> (StepFinishHere, c))"

section \<open>Locating the result\<close>

definition prime_counter :: "char \<Rightarrow> ResultCounter" where
  "prime_counter b =
     (if b = CHR ''{'' then new_counter counterObject
      else if b = CHR ''['' then new_counter counterArray
      else if b = CHR 0x22 then new_counter counterString
      else new_counter counterScalar)"

definition resultValueStart :: "string \<Rightarrow> nat \<Rightarrow> (nat \<times> ResultCounter) option" where
  "resultValueStart buf offsetAfterKey =
     (let p = offsetAfterKey + length (takeWhile isJSONWhitespace (drop offsetAfterKey buf))
      in if p \<ge> length buf \<or> buf ! p \<noteq> CHR '':'' then None
         else
           (let p = Suc p; p = p + length (takeWhile isJSONWhitespace (drop p buf))
            in if p \<ge> length buf then None else Some (p, prime_counter (buf ! p))))"

text \<open>The loop of \<open>skipResultValueBytes\<close> and of \<open>emitFromBuffer\<close>: the index of the byte that ends the value, or the
  end of the buffer with \<open>StepContinue\<close>.\<close>

fun scan_bytes :: "string \<Rightarrow> ResultCounter \<Rightarrow> nat \<times> StepResult \<times> ResultCounter" where
  "scan_bytes [] c = (0, StepContinue, c)"
| "scan_bytes (b # bs) c =
     (case Step b c of
        (StepContinue, c') \<Rightarrow> (let (i, r, c'') = scan_bytes bs c' in (Suc i, r, c''))
      | (r, c') \<Rightarrow> (0, r, c'))"

definition skipResultValueBytes :: "string \<Rightarrow> nat \<Rightarrow> ResultCounter \<Rightarrow> nat \<times> bool" where
  "skipResultValueBytes buf start c =
     (case scan_bytes (drop start buf) c of
        (i, StepContinue, _) \<Rightarrow> (length buf, False)
      | (i, StepFinishHere, _) \<Rightarrow> (start + i + 1, True)
      | (i, StepStopBefore, _) \<Rightarrow> (start + i, True))"

section \<open>Reading a body\<close>

definition MaxChunkSize :: nat where "MaxChunkSize = 8192"

definition streamReadChunkSize :: nat where "streamReadChunkSize = 32 * 1024"

record reader =
  rdPieces :: "string list"
  rdEnd :: "string option"

definition body :: "reader \<Rightarrow> string" where
  "body r = concat (rdPieces r)"

fun drop_bytes :: "nat \<Rightarrow> string list \<Rightarrow> string list" where
  "drop_bytes n [] = []"
| "drop_bytes n (p # ps) = (if length p \<le> n then drop_bytes (n - length p) ps else drop n p # ps)"

text \<open>\<open>io.ReadFull\<close>: the bytes read, whether it stopped short, and the rest of the reader; \<open>Inl\<close> is an error
  other than the end of the body.\<close>

definition ReadFull :: "nat \<Rightarrow> reader \<Rightarrow> string + (string \<times> bool \<times> reader)" where
  "ReadFull n r =
     (if length (body r) \<ge> n then Inr (take n (body r), False, r\<lparr>rdPieces := drop_bytes n (rdPieces r)\<rparr>)
      else case rdEnd r of
             Some e \<Rightarrow> Inl e
           | None \<Rightarrow> Inr (body r, True, r\<lparr>rdPieces := []\<rparr>))"

function read_sizes :: "nat \<Rightarrow> string \<Rightarrow> string list" where
  "read_sizes n p = (if p = [] then [] else if n = 0 \<or> length p \<le> n then [p] else take n p # read_sizes n (drop n p))"
  by pat_completeness auto

termination
  by (relation "measure (\<lambda>(n, p). length p)") auto

declare read_sizes.simps [simp del]

datatype readChunk = ReadBuf string | ReadErr string

text \<open>What the producer goroutine sends. \<open>stop\<close> is \<open>Some k\<close> when the context is cancelled and the producer notices
  it after \<open>k\<close> sends.\<close>

definition produced :: "nat option \<Rightarrow> reader \<Rightarrow> readChunk list" where
  "produced stop r =
     (let all = map ReadBuf (concat (map (read_sizes streamReadChunkSize) (rdPieces r)))
            @ (case rdEnd r of Some e \<Rightarrow> [ReadErr e] | None \<Rightarrow> [])
      in case stop of None \<Rightarrow> all | Some k \<Rightarrow> take k all)"

fun consume_chunks :: "(string \<Rightarrow> 's \<Rightarrow> (string + bool) \<times> 's) \<Rightarrow> bool \<Rightarrow> readChunk list \<Rightarrow> 's \<Rightarrow> string option \<times> 's" where
  "consume_chunks process fin [] s = (None, s)"
| "consume_chunks process fin (rc # rcs) s =
     (if fin then consume_chunks process fin rcs s
      else case rc of
             ReadErr e \<Rightarrow> (Some e, s)
           | ReadBuf buf \<Rightarrow>
               (case process buf s of
                  (Inl e, s) \<Rightarrow> (Some e, s)
                | (Inr d, s) \<Rightarrow> consume_chunks process d rcs s))"

definition streamReadAhead ::
  "nat option \<Rightarrow> reader \<Rightarrow> (string \<Rightarrow> 's \<Rightarrow> (string + bool) \<times> 's) \<Rightarrow> 's \<Rightarrow> string option \<times> 's" where
  "streamReadAhead stop r process s = consume_chunks process False (produced stop r) s"

section \<open>Unwrapping the result\<close>

definition emitFromBuffer ::
  "(string \<Rightarrow> bool \<Rightarrow> 's \<Rightarrow> string option \<times> 's) \<Rightarrow> string \<Rightarrow> ResultCounter \<times> 's \<Rightarrow> (string + bool) \<times> ResultCounter \<times> 's" where
  "emitFromBuffer put buf = (\<lambda>(c, s).
     case scan_bytes buf c of
       (i, StepFinishHere, c) \<Rightarrow>
         (case put (take (Suc i) buf) True s of (Some e, s) \<Rightarrow> (Inl e, c, s) | (None, s) \<Rightarrow> (Inr True, c, s))
     | (i, StepStopBefore, c) \<Rightarrow>
         if i > 0 then
           (case put (take i buf) True s of (Some e, s) \<Rightarrow> (Inl e, c, s) | (None, s) \<Rightarrow> (Inr True, c, s))
         else (Inr True, c, s)
     | (i, StepContinue, c) \<Rightarrow>
         if buf \<noteq> [] then
           (case put buf False s of (Some e, s) \<Rightarrow> (Inl e, c, s) | (None, s) \<Rightarrow> (Inr False, c, s))
         else (Inr False, c, s))"

definition truncated_error :: string where
  "truncated_error = ''unable to parse stream response: result value truncated''"

text \<open>The closure of \<open>streamJsonRPCResult\<close> sets \<open>completed\<close> with the counter and the sink.\<close>

definition continue_emit ::
  "(string \<Rightarrow> bool \<Rightarrow> 's \<Rightarrow> string option \<times> 's) \<Rightarrow> string \<Rightarrow> bool \<times> ResultCounter \<times> 's
     \<Rightarrow> (string + bool) \<times> bool \<times> ResultCounter \<times> 's" where
  "continue_emit put buf = (\<lambda>(completed, cs).
     case emitFromBuffer put buf cs of
       (Inr True, cs) \<Rightarrow> (Inr True, True, cs)
     | (r, cs) \<Rightarrow> (r, completed, cs))"

definition streamJsonRPCResult ::
  "(string \<Rightarrow> bool \<Rightarrow> 's \<Rightarrow> string option \<times> 's) \<Rightarrow> nat option \<Rightarrow> reader \<Rightarrow> int \<Rightarrow> ResultCounter \<Rightarrow> 's \<Rightarrow> string option \<times> 's" where
  "streamJsonRPCResult put stop r start c s =
     (case ReadFull MaxChunkSize r of
        Inl e \<Rightarrow> (Some (''unable to parse stream response: '' @ e), s)
      | Inr (prefix, exhausted, r) \<Rightarrow>
          if start < 0 \<or> start > int (length prefix) then
            (Some ''unable to parse stream response: result field is missing'', s)
          else
            (case emitFromBuffer put (drop (nat start) prefix) (c, s) of
               (Inl e, c, s) \<Rightarrow> (Some e, s)
             | (Inr True, c, s) \<Rightarrow> (None, s)
             | (Inr False, c, s) \<Rightarrow>
                 if exhausted then (Some truncated_error, s)
                 else
                   (case streamReadAhead stop r (continue_emit put) (False, c, s) of
                      (Some e, _, _, s) \<Rightarrow> (Some (''unable to parse stream response: '' @ e), s)
                    | (None, completed, _, s) \<Rightarrow> if \<not> completed then (Some truncated_error, s) else (None, s))))"

section \<open>Sending chunks\<close>

record reply_meta =
  metaUpstream :: string
  metaVersion :: string
  metaFinalization :: "(u64 \<times> nat) option"
  metaHeaders :: "(string \<times> string) list"

record NativeCallReplyItem =
  itemId :: u32
  Succeed :: bool
  Payload :: string
  Chunked :: bool
  FinalChunk :: bool
  itemMeta :: "reply_meta option"

record nativeCallChunkEmitter =
  emitted :: bool
  finalSent :: bool
  sent :: "NativeCallReplyItem list"

definition newNativeCallChunkEmitter :: nativeCallChunkEmitter where
  "newNativeCallChunkEmitter = \<lparr>emitted = False, finalSent = False, sent = []\<rparr>"

definition chunk_item :: "u32 \<Rightarrow> reply_meta \<Rightarrow> string \<Rightarrow> bool \<Rightarrow> bool \<Rightarrow> NativeCallReplyItem" where
  "chunk_item i meta p first fin =
     \<lparr>itemId = i, Succeed = True, Payload = p, Chunked = True, FinalChunk = fin,
      itemMeta = (if first then Some meta else None)\<rparr>"

definition WriteChunk ::
  "(NativeCallReplyItem list \<Rightarrow> NativeCallReplyItem \<Rightarrow> string option) \<Rightarrow> u32 \<Rightarrow> reply_meta \<Rightarrow> string \<Rightarrow> bool
     \<Rightarrow> nativeCallChunkEmitter \<Rightarrow> string option \<times> nativeCallChunkEmitter" where
  "WriteChunk send i meta p fin e =
     (if p = [] \<and> \<not> fin then (None, e)
      else
        (let first = \<not> emitted e;
             e = e\<lparr>emitted := True, finalSent := (if fin then True else finalSent e)\<rparr>;
             item = chunk_item i meta p first fin
         in case send (sent e) item of
              Some err \<Rightarrow> (Some err, e)
            | None \<Rightarrow> (None, e\<lparr>sent := sent e @ [item]\<rparr>)))"

definition Finish ::
  "(NativeCallReplyItem list \<Rightarrow> NativeCallReplyItem \<Rightarrow> string option) \<Rightarrow> u32 \<Rightarrow> reply_meta
     \<Rightarrow> nativeCallChunkEmitter \<Rightarrow> string option \<times> nativeCallChunkEmitter" where
  "Finish send i meta e = (if finalSent e then (None, e) else WriteChunk send i meta [] True e)"

datatype streamMode = unwrapJsonRpcResultStream | passThroughStream

definition pass_chunk ::
  "(string \<Rightarrow> bool \<Rightarrow> 's \<Rightarrow> string option \<times> 's) \<Rightarrow> string \<Rightarrow> 's \<Rightarrow> (string + bool) \<times> 's" where
  "pass_chunk put buf s = (case put buf False s of (Some e, s) \<Rightarrow> (Inl e, s) | (None, s) \<Rightarrow> (Inr False, s))"

definition streamNativeCallBody ::
  "(NativeCallReplyItem list \<Rightarrow> NativeCallReplyItem \<Rightarrow> string option) \<Rightarrow> u32 \<Rightarrow> reply_meta \<Rightarrow> nat option \<Rightarrow> reader
     \<Rightarrow> streamMode \<Rightarrow> int \<Rightarrow> ResultCounter \<Rightarrow> string option \<times> NativeCallReplyItem list" where
  "streamNativeCallBody send i meta stop r mode start c =
     (let put = WriteChunk send i meta;
          (err, e) =
            (case mode of
               unwrapJsonRpcResultStream \<Rightarrow> streamJsonRPCResult put stop r start c newNativeCallChunkEmitter
             | passThroughStream \<Rightarrow> streamReadAhead stop r (pass_chunk put) newNativeCallChunkEmitter)
      in case err of
           Some x \<Rightarrow> (Some x, sent e)
         | None \<Rightarrow> (let (err, e) = Finish send i meta e in (err, sent e)))"

section \<open>JSON values\<close>

text \<open>The texts of JSON values, read leniently: a string ends at its first unescaped quote, a scalar is any run of
  characters with no structure, and the items of an object or array are values, separators and blanks in any order.
  Every JSON text is one of these.\<close>

fun str_tail :: "string \<Rightarrow> bool" where
  "str_tail [] = False"
| "str_tail (c # s) =
     (if c = CHR 0x22 then s = [] else if c = CHR 0x5C then (case s of [] \<Rightarrow> False | _ # t \<Rightarrow> str_tail t) else str_tail s)"

definition scalar_char :: "char \<Rightarrow> bool" where
  "scalar_char c \<longleftrightarrow> c \<notin> {CHR 0x22, CHR ''{'', CHR ''}'', CHR ''['', CHR '']'', CHR '','', CHR '':''} \<and> \<not> isJSONWhitespace c"

inductive json_value :: "string \<Rightarrow> bool" and json_items :: "string \<Rightarrow> bool" where
  json_string: "str_tail s \<Longrightarrow> json_value (CHR 0x22 # s)"
| json_scalar: "s \<noteq> [] \<Longrightarrow> list_all scalar_char s \<Longrightarrow> json_value s"
| json_object: "json_items s \<Longrightarrow> json_value (CHR ''{'' # s @ ''}'')"
| json_array: "json_items s \<Longrightarrow> json_value (CHR ''['' # s @ '']'')"
| items_none: "json_items []"
| items_space: "isJSONWhitespace c \<or> c = CHR '','' \<or> c = CHR '':'' \<Longrightarrow> json_items s \<Longrightarrow> json_items (c # s)"
| items_value: "json_value v \<Longrightarrow> json_items s \<Longrightarrow> json_items (v @ s)"

definition is_scalar :: "string \<Rightarrow> bool" where
  "is_scalar v \<longleftrightarrow> list_all scalar_char v"

text \<open>What must follow a value in a body for its end to show: a scalar needs a delimiter.\<close>

definition ends_value :: "string \<Rightarrow> string \<Rightarrow> bool" where
  "ends_value v rest \<longleftrightarrow> (is_scalar v \<longrightarrow> (\<exists>b t. rest = b # t \<and> (b \<in> {CHR '','', CHR ''}'', CHR '']''} \<or> isJSONWhitespace b)))"

section \<open>The counter on a value\<close>

definition passes :: "ResultCounter \<Rightarrow> string \<Rightarrow> ResultCounter \<Rightarrow> bool" where
  "passes c u c' \<longleftrightarrow> scan_bytes u c = (length u, StepContinue, c')"

lemma passes_Nil [simp]: "passes c [] c' \<longleftrightarrow> c' = c"
  by (auto simp: passes_def)

lemma passes_Cons: "Step b c = (StepContinue, c1) \<Longrightarrow> passes c1 u c' \<Longrightarrow> passes c (b # u) c'"
  by (simp add: passes_def)

lemma scan_passes:
  "passes c u c' \<Longrightarrow> scan_bytes (u @ w) c = (let (i, r, c'') = scan_bytes w c' in (length u + i, r, c''))"
proof (induction u arbitrary: c)
  case (Cons b u)
  obtain r c1 where s: "Step b c = (r, c1)" by (cases "Step b c")
  with Cons.prems have [simp]: "r = StepContinue" by (cases r) (auto simp: passes_def)
  from Cons.prems s have "passes c1 u c'" by (auto simp: passes_def split: prod.splits)
  from Cons.IH [OF this] s show ?case by (simp add: Let_def split: prod.split)
qed (auto simp: passes_def)

lemma passes_append: "passes c u c1 \<Longrightarrow> passes c1 w c' \<Longrightarrow> passes c (u @ w) c'"
  using scan_passes [of c u c1 w] by (simp add: passes_def)

definition bracket_state :: "counterKind \<Rightarrow> nat \<Rightarrow> bool \<Rightarrow> ResultCounter" where
  "bracket_state k d s = \<lparr>ckind = k, depth = d, inStr = s, escape = False\<rparr>"

definition bracket_kind :: "counterKind \<Rightarrow> bool" where
  "bracket_kind k \<longleftrightarrow> k = counterObject \<or> k = counterArray"

lemma bracket_string:
  assumes "bracket_kind k"
  shows "str_tail s \<Longrightarrow> passes (bracket_state k d True) s (bracket_state k d False)"
proof (induction s rule: str_tail.induct)
  case (2 c s)
  consider "c = CHR 0x22" | "c = CHR 0x5C" | "c \<noteq> CHR 0x22" "c \<noteq> CHR 0x5C" by blast
  then show ?case
  proof cases
    case 1
    with 2 assms show ?thesis by (auto simp: passes_def Step_def stepBracket_def bracket_state_def bracket_kind_def)
  next
    case 2
    with \<open>str_tail (c # s)\<close> obtain x t where t: "s = x # t" "str_tail t" by (cases s) auto
    with 2 "2.IH" have "passes (bracket_state k d True) t (bracket_state k d False)" by simp
    with 2 t assms show ?thesis
      by (auto simp: passes_def Step_def stepBracket_def bracket_state_def bracket_kind_def split: prod.splits)
  next
    case 3
    with 2 have "passes (bracket_state k d True) s (bracket_state k d False)" by simp
    with 3 assms show ?thesis
      by (auto simp: passes_def Step_def stepBracket_def bracket_state_def bracket_kind_def split: prod.splits)
  qed
qed simp

lemma bracket_plain:
  assumes "bracket_kind k" "c \<notin> {CHR 0x22, CHR ''{'', CHR ''}'', CHR ''['', CHR '']''}"
  shows "Step c (bracket_state k d False) = (StepContinue, bracket_state k d False)"
  using assms by (auto simp: Step_def stepBracket_def bracket_state_def bracket_kind_def)

lemma bracket_scalar:
  assumes "bracket_kind k"
  shows "list_all scalar_char s \<Longrightarrow> passes (bracket_state k d False) s (bracket_state k d False)"
proof (induction s)
  case (Cons c s)
  then show ?case by (intro passes_Cons [OF bracket_plain [OF assms]]) (auto simp: scalar_char_def)
qed simp

lemma bracket_nested:
  assumes k: "bracket_kind k" and "0 < d"
    and ob: "ob = CHR ''{'' \<and> cb = CHR ''}'' \<or> ob = CHR ''['' \<and> cb = CHR '']''"
    and items: "\<And>d. 0 < d \<Longrightarrow> passes (bracket_state k d False) s (bracket_state k d False)"
  shows "passes (bracket_state k d False) (ob # s @ [cb]) (bracket_state k d False)"
proof -
  define e where "e = (if Step ob (bracket_state k d False) = (StepContinue, bracket_state k (Suc d) False) then Suc d else d)"
  have o1: "Step ob (bracket_state k d False) = (StepContinue, bracket_state k e False)"
    and c1: "Step cb (bracket_state k e False) = (StepContinue, bracket_state k d False)"
    using k \<open>0 < d\<close> ob by (auto simp: e_def Step_def stepBracket_def bracket_state_def bracket_kind_def)
  have "0 < e" using \<open>0 < d\<close> by (auto simp: e_def)
  with items have "passes (bracket_state k e False) (s @ [cb]) (bracket_state k d False)"
    by (intro passes_append [OF _ passes_Cons [OF c1]]) auto
  with o1 show ?thesis by (auto intro: passes_Cons)
qed

lemma bracket_passes:
  assumes k: "bracket_kind k"
  shows "json_value v \<Longrightarrow> (\<And>d. 0 < d \<Longrightarrow> passes (bracket_state k d False) v (bracket_state k d False))"
    and "json_items s \<Longrightarrow> (\<And>d. 0 < d \<Longrightarrow> passes (bracket_state k d False) s (bracket_state k d False))"
proof (induction v and s rule: json_value_json_items.inducts)
  case (json_string s)
  have "Step CHR 0x22 (bracket_state k d False) = (StepContinue, bracket_state k d True)"
    using k by (auto simp: Step_def stepBracket_def bracket_state_def bracket_kind_def)
  then show ?case by (rule passes_Cons) (rule bracket_string [OF k json_string(1)])
next
  case (json_scalar s)
  then show ?case by (intro bracket_scalar [OF k])
next
  case (json_object s)
  then show ?case using bracket_nested [OF k, of d "CHR ''{''" "CHR ''}''" s] by simp
next
  case (json_array s)
  then show ?case using bracket_nested [OF k, of d "CHR ''[''" "CHR '']''" s] by simp
next
  case (items_space c s)
  then have "c \<notin> {CHR 0x22, CHR ''{'', CHR ''}'', CHR ''['', CHR '']''}" by (auto simp: isJSONWhitespace_def)
  from passes_Cons [OF bracket_plain [OF k this]] items_space show ?case by blast
next
  case (items_value v s)
  then show ?case by (blast intro: passes_append)
qed simp

text \<open>The number of bytes a scan takes when it ends.\<close>

definition taken :: "nat \<Rightarrow> StepResult \<Rightarrow> nat" where
  "taken i r = (if r = StepFinishHere then Suc i else i)"

definition primed :: "string \<Rightarrow> ResultCounter" where
  "primed v = prime_counter (hd v)"

lemma passes_open_bracket:
  assumes "json_items s"
  shows "passes (new_counter counterObject) (CHR ''{'' # s) (bracket_state counterObject 1 False)"
    and "passes (new_counter counterArray) (CHR ''['' # s) (bracket_state counterArray 1 False)"
proof -
  have "Step CHR ''{'' (new_counter counterObject) = (StepContinue, bracket_state counterObject 1 False)"
    "Step CHR ''['' (new_counter counterArray) = (StepContinue, bracket_state counterArray 1 False)"
    by (simp_all add: new_counter_def bracket_state_def Step_def stepBracket_def)
  then show "passes (new_counter counterObject) (CHR ''{'' # s) (bracket_state counterObject 1 False)"
    "passes (new_counter counterArray) (CHR ''['' # s) (bracket_state counterArray 1 False)"
    using bracket_passes(2) [OF _ assms] by (auto intro!: passes_Cons simp: bracket_kind_def)
qed

lemma scan_string_tail:
  "str_tail s \<Longrightarrow> \<exists>c'. scan_bytes (s @ w) \<lparr>ckind = counterString, depth = 0, inStr = True, escape = False\<rparr> = (length s - 1, StepFinishHere, c')"
proof (induction s rule: str_tail.induct)
  case (2 c s)
  consider "c = CHR 0x22" | "c = CHR 0x5C" | "c \<noteq> CHR 0x22" "c \<noteq> CHR 0x5C" by blast
  then show ?case
  proof cases
    case 2
    with \<open>str_tail (c # s)\<close> obtain x t where t: "s = x # t" "str_tail t" by (cases s) auto
    then have "length t > 0" by (cases t) auto
    with 2 "2.IH" t show ?thesis by (fastforce simp: Step_def stepString_def split: prod.splits)
  next
    case 3
    with \<open>str_tail (c # s)\<close> have "str_tail s" by simp
    then have "length s > 0" by (cases s) auto
    with 3 "2.IH" \<open>str_tail s\<close> show ?thesis by (fastforce simp: Step_def stepString_def split: prod.splits)
  qed (use "2.prems" in \<open>simp add: Step_def stepString_def\<close>)
qed simp

lemma scalar_passes: "list_all scalar_char s \<Longrightarrow> passes (new_counter counterScalar) s (new_counter counterScalar)"
  by (induction s) (auto intro!: passes_Cons simp: Step_def stepScalar_def new_counter_def scalar_char_def isJSONWhitespace_def)

lemma scan_value:
  assumes "json_value v" "ends_value v rest"
  shows "\<exists>i r c'. scan_bytes (v @ rest) (primed v) = (i, r, c') \<and> r \<noteq> StepContinue \<and> taken i r = length v"
  using assms(1)
proof cases
  case (json_string s)
  have "Step CHR 0x22 (primed v) = (StepContinue, \<lparr>ckind = counterString, depth = 0, inStr = True, escape = False\<rparr>)"
    by (simp add: json_string primed_def prime_counter_def new_counter_def Step_def stepString_def)
  moreover have "length s > 0" using json_string by (cases s) auto
  ultimately show ?thesis using scan_string_tail [OF json_string(2), of rest] json_string(1)
    by (auto simp: taken_def split: prod.splits)
next
  case json_scalar
  then have p: "primed v = new_counter counterScalar"
    by (cases v) (auto simp: primed_def prime_counter_def scalar_char_def)
  from assms(2) json_scalar obtain b t where r: "rest = b # t" "b \<in> {CHR '','', CHR ''}'', CHR '']''} \<or> isJSONWhitespace b"
    by (auto simp: ends_value_def is_scalar_def)
  then have "Step b (new_counter counterScalar) = (StepStopBefore, new_counter counterScalar)"
    by (auto simp: Step_def stepScalar_def new_counter_def isJSONWhitespace_def)
  with scan_passes [OF scalar_passes [OF json_scalar(2)], of rest] p r show ?thesis by (simp add: taken_def)
next
  case (json_object s)
  then have p: "primed v = new_counter counterObject" by (simp add: primed_def prime_counter_def)
  have "Step CHR ''}'' (bracket_state counterObject 1 False) = (StepFinishHere, bracket_state counterObject 0 False)"
    by (simp add: bracket_state_def Step_def stepBracket_def)
  with scan_passes [OF passes_open_bracket(1) [OF json_object(2)], of "''}'' @ rest"] p json_object show ?thesis
    by (simp add: taken_def)
next
  case (json_array s)
  then have p: "primed v = new_counter counterArray" by (simp add: primed_def prime_counter_def)
  have "Step CHR '']'' (bracket_state counterArray 1 False) = (StepFinishHere, bracket_state counterArray 0 False)"
    by (simp add: bracket_state_def Step_def stepBracket_def)
  with scan_passes [OF passes_open_bracket(2) [OF json_array(2)], of "'']'' @ rest"] p json_array show ?thesis
    by (simp add: taken_def)
qed

text \<open>Scans split at any point.\<close>

lemma scan_split:
  "scan_bytes (u @ w) c =
     (case scan_bytes u c of (i, StepContinue, c') \<Rightarrow> (let (j, r, c'') = scan_bytes w c' in (length u + j, r, c''))
      | (i, r, c') \<Rightarrow> (i, r, c'))"
proof (induction u arbitrary: c)
  case (Cons b u)
  obtain r c1 where s: "Step b c = (r, c1)" by (cases "Step b c")
  show ?case
  proof (cases r)
    case StepContinue
    obtain i r' c' where u: "scan_bytes u c1 = (i, r', c')" by (cases "scan_bytes u c1")
    show ?thesis
      using Cons.IH [of c1] s StepContinue u by (cases r') (auto simp: Let_def split: prod.splits)
  qed (use s in simp_all)
qed simp

lemma scan_Continue_length: "scan_bytes u c = (i, StepContinue, c') \<Longrightarrow> i = length u"
proof (induction u arbitrary: c i)
  case (Cons b u)
  obtain r c1 where s: "Step b c = (r, c1)" by (cases "Step b c")
  with Cons.prems have "r = StepContinue" by (cases r) auto
  with Cons s show ?case by (auto split: prod.splits)
qed simp

lemma scan_taken_le: "scan_bytes u c = (i, r, c') \<Longrightarrow> taken i r \<le> length u"
proof (induction u arbitrary: c i r c')
  case (Cons b u)
  obtain r1 c1 where s: "Step b c = (r1, c1)" by (cases "Step b c")
  obtain j r2 c2 where u: "scan_bytes u c1 = (j, r2, c2)" by (cases "scan_bytes u c1")
  from Cons.IH [OF u] Cons.prems s u show ?case by (cases r1) (auto simp: taken_def split: if_splits)
qed (simp add: taken_def)

lemma json_value_nonempty: "json_value v \<Longrightarrow> v \<noteq> []"
  by (erule json_value.cases) simp_all

lemma primed_scalar: "is_scalar v \<Longrightarrow> v \<noteq> [] \<Longrightarrow> primed v = new_counter counterScalar"
  by (cases v) (auto simp: is_scalar_def primed_def prime_counter_def scalar_char_def)

text \<open>A value that has not ended keeps the counter going: no proper prefix of a value, and no scalar without its
  delimiter, ends the scan.\<close>

lemma scan_prefix:
  assumes "json_value v" "v = u @ w" "w \<noteq> [] \<or> is_scalar v"
  shows "\<exists>c'. scan_bytes u (primed v) = (length u, StepContinue, c')"
proof (cases "is_scalar v")
  case True
  with assms(2) have "list_all scalar_char u" by (simp add: is_scalar_def)
  from scalar_passes [OF this] primed_scalar [OF True json_value_nonempty [OF assms(1)]] show ?thesis
    by (simp add: passes_def)
next
  case False
  then have "ends_value v []" by (simp add: ends_value_def)
  from scan_value [OF assms(1) this] obtain i r c' where s: "scan_bytes (u @ w) (primed v) = (i, r, c')"
    and t: "taken i r = length v" by (auto simp: assms(2))
  obtain j r1 c1 where u: "scan_bytes u (primed v) = (j, r1, c1)" by (cases "scan_bytes u (primed v)")
  show ?thesis
  proof (cases "r1 = StepContinue")
    case True
    with u scan_Continue_length show ?thesis by blast
  next
    case r1: False
    with s u have "j = i" "r1 = r" unfolding scan_split [of u] by (cases r1; simp)+
    with scan_taken_le [OF u] t assms(2,3) False show ?thesis by simp
  qed
qed

section \<open>The sink and what reaches it\<close>

lemma concat_drop_bytes [simp]: "concat (drop_bytes n ps) = drop n (concat ps)"
  by (induction n ps rule: drop_bytes.induct) auto

lemma concat_read_sizes [simp]: "concat (read_sizes n p) = p"
proof (induction n p rule: read_sizes.induct)
  case (1 n p)
  show ?case by (subst read_sizes.simps) (use 1 in simp)
qed

definition chunk_bytes :: "readChunk list \<Rightarrow> string" where
  "chunk_bytes rcs = concat (map (\<lambda>rc. case rc of ReadBuf b \<Rightarrow> b | ReadErr _ \<Rightarrow> []) rcs)"

lemma chunk_bytes_simps [simp]:
  "chunk_bytes [] = []" "chunk_bytes (ReadBuf b # rcs) = b @ chunk_bytes rcs" "chunk_bytes (ReadErr e # rcs) = chunk_bytes rcs"
  "chunk_bytes (map ReadBuf bs) = concat bs" "chunk_bytes (xs @ ys) = chunk_bytes xs @ chunk_bytes ys"
  by (simp_all add: chunk_bytes_def comp_def)

lemma concat_read_pieces: "concat (concat (map (read_sizes n) ps)) = concat ps"
  by (induction ps) simp_all

lemma chunk_bytes_produced: "\<exists>t. body r = chunk_bytes (produced stop r) @ t"
proof -
  let ?all = "map ReadBuf (concat (map (read_sizes streamReadChunkSize) (rdPieces r)))
    @ (case rdEnd r of Some e \<Rightarrow> [ReadErr e] | None \<Rightarrow> [])"
  have all: "chunk_bytes ?all = body r" by (simp add: concat_read_pieces body_def split: option.split)
  show ?thesis
  proof (cases stop)
    case (Some k)
    have "chunk_bytes ?all = chunk_bytes (take k ?all) @ chunk_bytes (drop k ?all)"
      by (simp only: chunk_bytes_simps(5) [symmetric] append_take_drop_id)
    with all Some show ?thesis by (auto simp: produced_def Let_def)
  qed (use all in \<open>auto simp: produced_def Let_def\<close>)
qed

lemma continue_emit_eq:
  "emitFromBuffer put buf (c, s) = (Inr d, c1, s1) \<Longrightarrow> continue_emit put buf (False, c, s) = (Inr d, d, c1, s1)"
  by (cases d) (simp_all add: continue_emit_def)

text \<open>The contract of a \<open>chunkSink\<close>: a successful write appends what was written, an empty chunk counting only
  when it is the final one.\<close>

locale chunk_sink =
  fixes put :: "string \<Rightarrow> bool \<Rightarrow> 's \<Rightarrow> string option \<times> 's" and out :: "'s \<Rightarrow> (string \<times> bool) list"
  assumes write_ok: "put p f s = (None, s') \<Longrightarrow> out s' = out s @ (if p = [] \<and> \<not> f then [] else [(p, f)])"
    and write_failed: "put p f s = (Some e, s') \<Longrightarrow> out s' = out s"
begin

lemma emit_writes:
  assumes "emitFromBuffer put buf (c, s) = (Inr d, c', s')"
  shows "\<exists>i r ws. scan_bytes buf c = (i, r, c') \<and> d = (r \<noteq> StepContinue) \<and> out s' = out s @ ws
    \<and> concat (map fst ws) = take (taken i r) buf \<and> length ws \<le> 1 \<and> (\<forall>w \<in> set ws. snd w = d)"
proof -
  obtain i r c1 where s: "scan_bytes buf c = (i, r, c1)" by (cases "scan_bytes buf c")
  show ?thesis
  proof (cases r)
    case StepContinue
    with s scan_Continue_length have "i = length buf" by blast
    with assms s StepContinue write_ok [of buf False] show ?thesis
      by (auto simp: emitFromBuffer_def taken_def split: if_splits prod.splits option.splits)
  next
    case StepFinishHere
    then have "buf \<noteq> []" using s by auto
    with assms s StepFinishHere write_ok [of "take (Suc i) buf" True] show ?thesis
      by (auto simp: emitFromBuffer_def taken_def split: prod.splits option.splits)
  next
    case StepStopBefore
    with assms s write_ok [of "take i buf" True] show ?thesis
      by (auto simp: emitFromBuffer_def taken_def split: if_splits prod.splits option.splits)
  qed
qed

lemma emit_failed:
  assumes "emitFromBuffer put buf (c, s) = (Inl e, c', s')"
  shows "out s' = out s"
  using assms write_failed by (fastforce simp: emitFromBuffer_def split: if_splits prod.splits option.splits StepResult.splits)

lemma consume_done: "consume_chunks process True rcs s = (None, s)"
  by (induction rcs) simp_all

lemma continue_writes:
  assumes "consume_chunks (continue_emit put) False rcs (False, c, s) = (None, completed, c', s')"
  shows "\<exists>i r c1 ws. scan_bytes (chunk_bytes rcs) c = (i, r, c1) \<and> completed = (r \<noteq> StepContinue) \<and> out s' = out s @ ws
    \<and> concat (map fst ws) = take (taken i r) (chunk_bytes rcs) \<and> list_all (\<lambda>w. \<not> snd w) (butlast ws)
    \<and> (\<not> completed \<longrightarrow> list_all (\<lambda>w. \<not> snd w) ws)"
  using assms
proof (induction rcs arbitrary: c s)
  case (Cons rc rcs)
  then obtain buf where rc: "rc = ReadBuf buf" by (cases rc) auto
  obtain res c1 s1 where e: "emitFromBuffer put buf (c, s) = (res, c1, s1)" by (cases "emitFromBuffer put buf (c, s)")
  with Cons.prems rc obtain d where res: "res = Inr d" by (cases res) (auto simp: continue_emit_def)
  from emit_writes [OF e [unfolded res]] obtain i r ws where w: "scan_bytes buf c = (i, r, c1)" "d = (r \<noteq> StepContinue)"
    "out s1 = out s @ ws" "concat (map fst ws) = take (taken i r) buf" "length ws \<le> 1" "\<forall>w \<in> set ws. snd w = d" by blast
  from \<open>length ws \<le> 1\<close> have bl: "butlast ws = []" by (cases ws) auto
  show ?case
  proof (cases d)
    case True
    with Cons.prems rc e res have "completed" "s' = s1" by (auto simp: continue_emit_def consume_done)
    moreover have "scan_bytes (buf @ chunk_bytes rcs) c = (i, r, c1)" using w(1,2) True unfolding scan_split [of buf] by (cases r) auto
    moreover have "take (taken i r) (buf @ chunk_bytes rcs) = take (taken i r) buf" using scan_taken_le [OF w(1)] by simp
    ultimately show ?thesis using w True rc bl by auto
  next
    case False
    then have r: "r = StepContinue" using w(2) by simp
    from False Cons.prems rc e res have "consume_chunks (continue_emit put) False rcs (False, c1, s1) = (None, completed, c', s')"
      by (simp add: continue_emit_eq)
    from Cons.IH [OF this] obtain j r' c2 vs where v: "scan_bytes (chunk_bytes rcs) c1 = (j, r', c2)" "completed = (r' \<noteq> StepContinue)"
      "out s' = out s1 @ vs" "concat (map fst vs) = take (taken j r') (chunk_bytes rcs)" "list_all (\<lambda>w. \<not> snd w) (butlast vs)"
      "\<not> completed \<longrightarrow> list_all (\<lambda>w. \<not> snd w) vs" by blast
    have "scan_bytes (buf @ chunk_bytes rcs) c = (length buf + j, r', c2)" using w(1) v(1) r unfolding scan_split [of buf] by simp
    moreover have "concat (map fst (ws @ vs)) = take (taken (length buf + j) r') (buf @ chunk_bytes rcs)"
      using w(1,4) v(4) r scan_Continue_length [OF w(1) [unfolded r]] by (simp add: taken_def)
    moreover have "list_all (\<lambda>w. \<not> snd w) (butlast (ws @ vs))" "\<not> completed \<longrightarrow> list_all (\<lambda>w. \<not> snd w) (ws @ vs)"
      using w(6) v(5,6) False bl by (auto simp: butlast_append list_all_iff)
    moreover have "out s' = out s @ ws @ vs" using w(3) v(3) by simp
    ultimately show ?thesis using v(2) rc by (auto simp del: append_assoc)
  qed
qed (simp add: taken_def)

lemma continue_failed:
  assumes "consume_chunks (continue_emit put) False rcs (False, c, s) = (Some e, completed, c', s')"
  shows "\<exists>ws. out s' = out s @ ws \<and> list_all (\<lambda>w. \<not> snd w) ws"
  using assms
proof (induction rcs arbitrary: c s)
  case (Cons rc rcs)
  show ?case
  proof (cases rc)
    case (ReadBuf buf)
    obtain res c1 s1 where em: "emitFromBuffer put buf (c, s) = (res, c1, s1)" by (cases "emitFromBuffer put buf (c, s)")
    show ?thesis
    proof (cases res)
      case (Inl x)
      with Cons.prems ReadBuf em emit_failed show ?thesis by (fastforce simp: continue_emit_def)
    next
      case (Inr d)
      with Cons.prems ReadBuf em have d: "\<not> d" by (auto simp: continue_emit_def consume_done)
      with Cons.prems ReadBuf em Inr have "consume_chunks (continue_emit put) False rcs (False, c1, s1) = (Some e, completed, c', s')"
        by (simp add: continue_emit_eq)
      from Cons.IH [OF this] emit_writes [OF em [unfolded Inr]] d show ?thesis by (auto simp: list_all_iff)
    qed
  qed (use Cons.prems in auto)
qed simp

end

lemma ReadFull_body:
  "ReadFull n r = Inr (prefix, exhausted, r') \<Longrightarrow> body r = prefix @ body r' \<and> (exhausted \<longrightarrow> body r' = [])"
  by (auto simp: ReadFull_def body_def split: if_splits option.splits)

context chunk_sink
begin

lemma stream_writes:
  assumes "streamJsonRPCResult put stop r start c s = (None, s')"
  shows "\<exists>u t i q c1 ws. 0 \<le> start \<and> drop (nat start) (body r) = u @ t \<and> scan_bytes u c = (i, q, c1) \<and> q \<noteq> StepContinue
    \<and> out s' = out s @ ws \<and> concat (map fst ws) = take (taken i q) u \<and> list_all (\<lambda>w. \<not> snd w) (butlast ws)"
proof -
  from assms obtain prefix exhausted r' where rf: "ReadFull MaxChunkSize r = Inr (prefix, exhausted, r')"
    by (cases "ReadFull MaxChunkSize r") (auto simp: streamJsonRPCResult_def)
  from assms rf have st: "0 \<le> start" "\<not> int (length prefix) < start" by (auto simp: streamJsonRPCResult_def split: if_splits)
  let ?b = "drop (nat start) prefix"
  have "nat start \<le> length prefix" using st by simp
  then have body: "drop (nat start) (body r) = ?b @ body r'" using ReadFull_body [OF rf] by simp
  obtain res c1 s1 where e: "emitFromBuffer put ?b (c, s) = (res, c1, s1)" by (cases "emitFromBuffer put ?b (c, s)")
  with assms rf st obtain d where res: "res = Inr d" by (cases res) (auto simp: streamJsonRPCResult_def)
  from emit_writes [OF e [unfolded res]] obtain i q ws where w: "scan_bytes ?b c = (i, q, c1)" "d = (q \<noteq> StepContinue)"
    "out s1 = out s @ ws" "concat (map fst ws) = take (taken i q) ?b" "length ws \<le> 1" "\<forall>w \<in> set ws. snd w = d" by blast
  from \<open>length ws \<le> 1\<close> have bl: "butlast ws = []" by (cases ws) auto
  show ?thesis
  proof (cases d)
    case True
    with assms rf st e res have "s' = s1" by (auto simp: streamJsonRPCResult_def)
    with True w bl body st show ?thesis by (intro exI [of _ ?b] exI) auto
  next
    case False
    obtain x completed c2 s2 where sr: "streamReadAhead stop r' (continue_emit put) (False, c1, s1) = (x, completed, c2, s2)"
      by (cases "streamReadAhead stop r' (continue_emit put) (False, c1, s1)")
    with False assms rf st e res have x: "x = None" "completed" "s' = s2"
      by (auto simp: streamJsonRPCResult_def split: if_splits option.splits)
    obtain t where t: "body r' = chunk_bytes (produced stop r') @ t" using chunk_bytes_produced by blast
    let ?u = "chunk_bytes (produced stop r')"
    from continue_writes [OF sr [unfolded streamReadAhead_def x]] obtain j q' c3 vs where v: "scan_bytes ?u c1 = (j, q', c3)"
      "q' \<noteq> StepContinue" "out s2 = out s1 @ vs" "concat (map fst vs) = take (taken j q') ?u"
      "list_all (\<lambda>w. \<not> snd w) (butlast vs)" using x(2) by auto
    have len: "q = StepContinue" "i = length ?b" using scan_Continue_length [of ?b c i c1] w(1,2) False by simp_all
    then have "scan_bytes (?b @ ?u) c = (length ?b + j, q', c3)" using w(1) v(1) unfolding scan_split [of ?b] by simp
    moreover have "concat (map fst (ws @ vs)) = take (taken (length ?b + j) q') (?b @ ?u)"
      using w(4) v(4) len by (simp add: taken_def)
    moreover have "list_all (\<lambda>w. \<not> snd w) (butlast (ws @ vs))" using w(6) v(5) False bl by (auto simp: butlast_append list_all_iff)
    moreover have "out s' = out s @ ws @ vs" using w(3) v(3) x(3) by simp
    ultimately show ?thesis using v(2) body t st(1) by (intro exI [of _ "?b @ ?u"] exI [of _ t]) auto
  qed
qed

lemma stream_failed:
  assumes "streamJsonRPCResult put stop r start c s = (Some e, s')"
  shows "\<exists>ws. out s' = out s @ ws \<and> list_all (\<lambda>w. \<not> snd w) ws"
proof (cases "ReadFull MaxChunkSize r")
  case (Inr x)
  obtain prefix exhausted r' where [simp]: "x = (prefix, exhausted, r')" by (cases x)
  show ?thesis
  proof (cases "start < 0 \<or> start > int (length prefix)")
    case False
    let ?b = "drop (nat start) prefix"
    obtain res c1 s1 where em: "emitFromBuffer put ?b (c, s) = (res, c1, s1)" by (cases "emitFromBuffer put ?b (c, s)")
    show ?thesis
    proof (cases res)
      case (Inl y)
      with assms Inr False em emit_failed [of ?b c s y c1 s1] show ?thesis by (auto simp: streamJsonRPCResult_def)
    next
      case d: (Inr d)
      with assms Inr False em have "\<not> d" by (cases d) (auto simp: streamJsonRPCResult_def)
      from emit_writes [OF em [unfolded d]] \<open>\<not> d\<close> obtain ws where w: "out s1 = out s @ ws" "list_all (\<lambda>w. \<not> snd w) ws"
        by (auto simp: list_all_iff)
      obtain y completed c2 s2 where sr: "streamReadAhead stop r' (continue_emit put) (False, c1, s1) = (y, completed, c2, s2)"
        by (cases "streamReadAhead stop r' (continue_emit put) (False, c1, s1)")
      have "\<exists>vs. out s2 = out s1 @ vs \<and> list_all (\<lambda>w. \<not> snd w) vs" if "y \<noteq> None \<or> \<not> completed"
        using that sr continue_writes continue_failed by (cases y) (fastforce simp: streamReadAhead_def)+
      with assms Inr False em d \<open>\<not> d\<close> sr w show ?thesis
        by (auto simp: streamJsonRPCResult_def split: if_splits option.splits)
    qed
  qed (use assms Inr in \<open>auto simp: streamJsonRPCResult_def\<close>)
qed (use assms in \<open>auto simp: streamJsonRPCResult_def\<close>)

lemma emit_total:
  assumes "\<And>p f s. fst (put p f s) = None" "scan_bytes buf c = (i, q, c1)"
  shows "\<exists>s'. emitFromBuffer put buf (c, s) = (Inr (q \<noteq> StepContinue), c1, s')"
proof -
  have ok: "\<exists>s'. put p f s = (None, s')" for p f using assms(1) [of p f s] by (cases "put p f s") auto
  obtain s1 s2 s3 where "put buf False s = (None, s1)" "put (take (Suc i) buf) True s = (None, s2)"
    "put (take i buf) True s = (None, s3)" using ok by blast
  with assms(2) show ?thesis by (cases q) (simp_all add: emitFromBuffer_def)
qed

lemma consume_total:
  assumes "\<And>p f s. fst (put p f s) = None" "scan_bytes (concat bs) c = (i, q, c1)" "q \<noteq> StepContinue"
  shows "\<exists>c' s'. consume_chunks (continue_emit put) False (map ReadBuf bs @ rest) (False, c, s) = (None, True, c', s')"
  using assms(2)
proof (induction bs arbitrary: c s i)
  case (Cons b bs)
  obtain j q1 c2 where b: "scan_bytes b c = (j, q1, c2)" by (cases "scan_bytes b c")
  from emit_total [OF assms(1) this] obtain s1 where e: "emitFromBuffer put b (c, s) = (Inr (q1 \<noteq> StepContinue), c2, s1)" by blast
  show ?case
  proof (cases "q1 = StepContinue")
    case True
    obtain j' q' c3 where "scan_bytes (concat bs) c2 = (j', q', c3)" by (cases "scan_bytes (concat bs) c2")
    with Cons.prems b True have "scan_bytes (concat bs) c2 = (j', q, c1)" by (auto simp: scan_split [of b])
    then obtain c' s' where "consume_chunks (continue_emit put) False (map ReadBuf bs @ rest) (False, c2, s1) = (None, True, c', s')"
      using Cons.IH by blast
    with continue_emit_eq [OF e] True show ?thesis by simp
  next
    case False
    with continue_emit_eq [OF e] show ?thesis by (simp add: consume_done)
  qed
qed (use assms(3) in simp)

lemma stream_total:
  assumes "\<And>p f s. fst (put p f s) = None" "ReadFull MaxChunkSize r = Inr (prefix, exhausted, r')"
    and "n \<le> length prefix" "scan_bytes (drop n (body r)) c = (i, q, c1)" "q \<noteq> StepContinue"
  shows "\<exists>s'. streamJsonRPCResult put None r (int n) c s = (None, s')"
proof -
  let ?b = "drop n prefix"
  note rf = ReadFull_body [OF assms(2)]
  obtain j q1 c2 where b: "scan_bytes ?b c = (j, q1, c2)" by (cases "scan_bytes ?b c")
  from emit_total [OF assms(1) this, of s] obtain s1 where e: "emitFromBuffer put ?b (c, s) = (Inr (q1 \<noteq> StepContinue), c2, s1)" by blast
  show ?thesis
  proof (cases "q1 = StepContinue")
    case True
    from assms(3,4) rf have *: "scan_bytes (?b @ body r') c = (i, q, c1)" by simp
    obtain j' q' c3 where "scan_bytes (body r') c2 = (j', q', c3)" by (cases "scan_bytes (body r') c2")
    with * b True have r': "scan_bytes (body r') c2 = (j', q, c1)" by (auto simp: scan_split [of ?b])
    with assms(5) have "\<not> exhausted" using rf by auto
    let ?bs = "concat (map (read_sizes streamReadChunkSize) (rdPieces r'))"
    have "concat ?bs = body r'" by (simp add: concat_read_pieces body_def)
    with r' have "scan_bytes (concat ?bs) c2 = (j', q, c1)" by simp
    from consume_total [OF assms(1) this assms(5)]
    obtain c' s' where "streamReadAhead None r' (continue_emit put) (False, c2, s1) = (None, True, c', s')"
      unfolding streamReadAhead_def produced_def Let_def option.case(1) by blast
    with assms(2,3) e True \<open>\<not> exhausted\<close> show ?thesis by (simp add: streamJsonRPCResult_def)
  next
    case False
    with assms(2,3) e show ?thesis by (simp add: streamJsonRPCResult_def)
  qed
qed

end

section \<open>The emitter as a sink\<close>

definition written :: "nativeCallChunkEmitter \<Rightarrow> (string \<times> bool) list" where
  "written e = map (\<lambda>x. (Payload x, FinalChunk x)) (sent e)"

interpretation emitter: chunk_sink "WriteChunk send i meta" written
  by unfold_locales (auto simp: WriteChunk_def Let_def written_def chunk_item_def split: if_splits option.splits)

definition emitter_ok :: "reply_meta \<Rightarrow> nativeCallChunkEmitter \<Rightarrow> bool" where
  "emitter_ok meta e \<longleftrightarrow> emitted e = (sent e \<noteq> []) \<and> finalSent e = list_ex FinalChunk (sent e)
     \<and> (case sent e of [] \<Rightarrow> True | x # xs \<Rightarrow> itemMeta x = Some meta \<and> list_all (\<lambda>y. itemMeta y = None) xs)"

lemma WriteChunk_ok:
  "emitter_ok meta e \<Longrightarrow> WriteChunk send i meta p f e = (None, e') \<Longrightarrow> emitter_ok meta e'"
  by (auto simp: WriteChunk_def Let_def emitter_ok_def chunk_item_def split: if_splits option.splits list.splits)

lemma emit_keeps:
  assumes "\<forall>p f s s'. P s \<longrightarrow> put p f s = (None, s') \<longrightarrow> P s'" "P s" "emitFromBuffer put buf (c, s) = (Inr d, c', s')"
  shows "P s'"
  using assms
  by (fastforce simp: emitFromBuffer_def split: if_splits prod.splits option.splits StepResult.splits)

lemma continue_keeps:
  assumes keep: "\<forall>p f s s'. P s \<longrightarrow> put p f s = (None, s') \<longrightarrow> P s'"
  shows "P s \<Longrightarrow> consume_chunks (continue_emit put) False rcs (False, c, s) = (None, b, c', s') \<Longrightarrow> P s'"
proof (induction rcs arbitrary: c s)
  case (Cons rc rcs)
  then obtain buf where rc: "rc = ReadBuf buf" by (cases rc) auto
  obtain res c1 s1 where e: "emitFromBuffer put buf (c, s) = (res, c1, s1)" by (cases "emitFromBuffer put buf (c, s)")
  with Cons.prems rc obtain d where res: "res = Inr d" by (cases res) (auto simp: continue_emit_def)
  from emit_keeps [OF keep Cons.prems(1) e [unfolded res]] have "P s1" by blast
  with Cons continue_emit_eq [OF e [unfolded res]] rc show ?case by (cases d) (auto simp: emitter.consume_done)
qed simp

lemma stream_keeps:
  assumes keep: "\<forall>p f s s'. P s \<longrightarrow> put p f s = (None, s') \<longrightarrow> P s'" and "P s"
    and "streamJsonRPCResult put stop r start c s = (None, s')"
  shows "P s'"
proof -
  from assms(3) obtain prefix exhausted r' where rf: "ReadFull MaxChunkSize r = Inr (prefix, exhausted, r')"
    by (cases "ReadFull MaxChunkSize r") (auto simp: streamJsonRPCResult_def)
  obtain res c1 s1 where e: "emitFromBuffer put (drop (nat start) prefix) (c, s) = (res, c1, s1)"
    by (cases "emitFromBuffer put (drop (nat start) prefix) (c, s)")
  from assms(3) rf have st: "\<not> (start < 0 \<or> int (length prefix) < start)" by (auto simp: streamJsonRPCResult_def split: if_splits)
  with assms(3) rf e obtain d where res: "res = Inr d" by (cases res) (auto simp: streamJsonRPCResult_def)
  from emit_keeps [OF keep \<open>P s\<close> e [unfolded res]] have "P s1" by blast
  obtain x completed c2 s2 where sr: "streamReadAhead stop r' (continue_emit put) (False, c1, s1) = (x, completed, c2, s2)"
    by (cases "streamReadAhead stop r' (continue_emit put) (False, c1, s1)")
  have "x = None \<Longrightarrow> P s2" using continue_keeps [OF keep \<open>P s1\<close>] sr by (auto simp: streamReadAhead_def)
  with assms(3) rf e res st sr \<open>P s1\<close> show ?thesis
    by (cases d) (auto simp: streamJsonRPCResult_def split: if_splits option.splits)
qed

lemma WriteChunk_total: "(\<And>h x. send h x = None) \<Longrightarrow> fst (WriteChunk send i meta p f e) = None"
  by (simp add: WriteChunk_def Let_def)

lemma Finish_last:
  assumes "emitter_ok meta e" "list_all (\<lambda>w. \<not> snd w) (butlast (written e))" "Finish send i meta e = (None, e')"
  shows "sent e' \<noteq> [] \<and> concat (map Payload (sent e')) = concat (map fst (written e))
     \<and> FinalChunk (last (sent e')) \<and> list_all (\<lambda>x. \<not> FinalChunk x) (butlast (sent e'))
     \<and> itemMeta (hd (sent e')) = Some meta \<and> list_all (\<lambda>x. itemMeta x = None) (tl (sent e'))"
proof -
  have pay: "concat (map fst (written e)) = concat (map Payload (sent e))" by (simp add: written_def comp_def)
  have bl: "list_all (\<lambda>x. \<not> FinalChunk x) (butlast (sent e))"
    using assms(2) by (simp add: written_def list_all_iff map_butlast [symmetric])
  have ok': "emitter_ok meta e'" using assms(1,3) WriteChunk_ok by (auto simp: Finish_def split: if_splits)
  have "sent e' \<noteq> [] \<and> FinalChunk (last (sent e')) \<and> list_all (\<lambda>x. \<not> FinalChunk x) (butlast (sent e'))
      \<and> concat (map Payload (sent e')) = concat (map Payload (sent e))"
  proof (cases "finalSent e")
    case True
    with assms(1) have "list_ex FinalChunk (sent e)" by (simp add: emitter_ok_def)
    then obtain x where x: "x \<in> set (sent e)" "FinalChunk x" by (auto simp: list_ex_iff)
    then have "sent e \<noteq> []" by auto
    with x(1) have "x \<in> set (butlast (sent e) @ [last (sent e)])" by simp
    with x(2) bl have "FinalChunk (last (sent e))" by (auto simp: list_all_iff)
    with True assms(3) bl \<open>sent e \<noteq> []\<close> show ?thesis by (simp add: Finish_def)
  next
    case False
    with assms(1) have "list_all (\<lambda>x. \<not> FinalChunk x) (sent e)" by (auto simp: emitter_ok_def list_all_iff list_ex_iff)
    with False assms(3) show ?thesis
      by (auto simp: Finish_def WriteChunk_def Let_def chunk_item_def split: option.splits)
  qed
  with ok' pay show ?thesis by (auto simp: emitter_ok_def split: list.splits)
qed

lemma emitter_fresh: "emitter_ok meta newNativeCallChunkEmitter" "written newNativeCallChunkEmitter = []"
  by (simp_all add: emitter_ok_def newNativeCallChunkEmitter_def written_def)

section \<open>Properties\<close>

text \<open>\<^bold>\<open>C11\<close>. A streamed result arrives exactly: whatever pieces the body of a JSON-RPC response comes in, when the first
  chunk's analysis found the value \<open>v\<close> after \<open>pre\<close> and every send succeeds, the client receives the bytes of \<open>v\<close> and
  nothing else, in chunks of which the last one and no other is marked final and the first one and no other carries
  the metadata. A read error after the first 8192 bytes that comes after the value's end does not matter.\<close>

theorem streamed_result_is_exact:
  assumes "json_value v" "body r = pre @ v @ post" "ends_value v post" "length pre \<le> MaxChunkSize"
    and "rdEnd r = None \<or> MaxChunkSize \<le> length (body r)" "\<And>h x. send h x = None"
  shows "\<exists>items. streamNativeCallBody send i meta None r unwrapJsonRpcResultStream (int (length pre)) (primed v) = (None, items)
     \<and> concat (map Payload items) = v \<and> items \<noteq> []
     \<and> FinalChunk (last items) \<and> list_all (\<lambda>x. \<not> FinalChunk x) (butlast items)
     \<and> itemMeta (hd items) = Some meta \<and> list_all (\<lambda>x. itemMeta x = None) (tl items)"
proof -
  let ?put = "WriteChunk send i meta" and ?n = "length pre"
  from scan_value [OF assms(1,3)] obtain j q c1 where sv: "scan_bytes (v @ post) (primed v) = (j, q, c1)" "q \<noteq> StepContinue"
    "taken j q = length v" by blast
  have total: "fst (?put p f s) = None" for p f s by (rule WriteChunk_total) (rule assms(6))
  have drop: "drop ?n (body r) = v @ post" by (simp add: assms(2))
  obtain prefix exhausted r' where rf: "ReadFull MaxChunkSize r = Inr (prefix, exhausted, r')" "?n \<le> length prefix"
    using assms(2,4,5) by (cases "MaxChunkSize \<le> length (body r)") (auto simp: ReadFull_def)
  have "scan_bytes (drop ?n (body r)) (primed v) = (j, q, c1)" using sv(1) drop by simp
  from emitter.stream_total [OF total rf this sv(2)]
  obtain e where e: "streamJsonRPCResult ?put None r (int ?n) (primed v) newNativeCallChunkEmitter = (None, e)" by blast
  from emitter.stream_writes [OF this] drop emitter_fresh(2) obtain u t k q' c2 where u: "v @ post = u @ t"
    "scan_bytes u (primed v) = (k, q', c2)" "q' \<noteq> StepContinue" "concat (map fst (written e)) = take (taken k q') u"
    "list_all (\<lambda>w. \<not> snd w) (butlast (written e))" by auto
  then have "scan_bytes (u @ t) (primed v) = (k, q', c2)" unfolding scan_split [of u] by (cases q') simp_all
  with sv u(1) have "taken k q' = length v" by simp
  with u scan_taken_le [OF u(2)] have out: "concat (map fst (written e)) = v"
    by (metis append_eq_append_conv_if append_eq_conv_conj take_all_iff nat_le_linear take_append)
  obtain e' where fin: "Finish send i meta e = (None, e')"
    using total [of "[]" True e] by (cases "Finish send i meta e") (auto simp: Finish_def split: if_splits)
  have "emitter_ok meta e" using stream_keeps [of "emitter_ok meta" ?put, OF _ emitter_fresh(1) e] WriteChunk_ok by blast
  from Finish_last [OF this u(5) fin] out e fin show ?thesis
    by (simp add: streamNativeCallBody_def)
qed

text \<open>\<^bold>\<open>C20\<close>. A truncated result is never passed off as complete: when the body ends, or is cut off, inside the value, or the
  value is a number or literal with nothing after it, the call ends with an error and no chunk was marked final,
  whatever the reader, the sends and the cancellation do.\<close>

theorem truncated_result_is_reported:
  assumes "json_value v" "v = u @ w" "w \<noteq> [] \<or> is_scalar v" "body r = pre @ u"
    and "streamNativeCallBody send i meta stop r unwrapJsonRpcResultStream (int (length pre)) (primed v) = (res, items)"
  shows "res \<noteq> None \<and> list_all (\<lambda>x. \<not> FinalChunk x) items"
proof -
  let ?put = "WriteChunk send i meta"
  obtain x e where s: "streamJsonRPCResult ?put stop r (int (length pre)) (primed v) newNativeCallChunkEmitter = (x, e)"
    by (cases "streamJsonRPCResult ?put stop r (int (length pre)) (primed v) newNativeCallChunkEmitter")
  have "x \<noteq> None"
  proof
    assume "x = None"
    from emitter.stream_writes [OF s [unfolded this]] assms(4) obtain u' t k q c2 where u': "u = u' @ t"
      "scan_bytes u' (primed v) = (k, q, c2)" "q \<noteq> StepContinue" by auto
    from u'(1) assms(2) have "v = u' @ t @ w" by simp
    moreover have "t @ w \<noteq> [] \<or> is_scalar v" using assms(3) by blast
    ultimately show False using scan_prefix [OF assms(1)] u'(2,3) by fastforce
  qed
  then obtain y where "x = Some y" by blast
  with s have "list_all (\<lambda>w. \<not> snd w) (written e)"
    using emitter.stream_failed [of send i meta stop r "int (length pre)" "primed v" newNativeCallChunkEmitter y e]
    by (auto simp: emitter_fresh(2))
  with s \<open>x = Some y\<close> assms(5) show ?thesis by (auto simp: streamNativeCallBody_def written_def list_all_iff)
qed

section \<open>Witnesses\<close>

definition sample_meta :: reply_meta where
  "sample_meta = \<lparr>metaUpstream = ''up'', metaVersion = ''v1'', metaFinalization = None, metaHeaders = []\<rparr>"

definition sample_value :: string where
  "sample_value = [CHR ''{'', CHR 0x22, CHR ''}'', CHR 0x5C, CHR 0x22, CHR 0x22, CHR '':'', CHR ''['', CHR ''1'', CHR '']'', CHR ''}'']"

definition sample_reader :: reader where
  "sample_reader = \<lparr>rdPieces = [''xyz'' @ take 4 sample_value, drop 4 sample_value @ ''}''], rdEnd = None\<rparr>"

lemma sample_value_json: "json_value sample_value"
proof -
  have "json_value [CHR 0x22, CHR ''}'', CHR 0x5C, CHR 0x22, CHR 0x22]"
    using json_string [of "[CHR ''}'', CHR 0x5C, CHR 0x22, CHR 0x22]"] by simp
  moreover have "json_value ''1''" by (rule json_scalar) (simp_all add: scalar_char_def isJSONWhitespace_def)
  then have "json_items ''1''" using items_value [OF _ items_none] by fastforce
  then have "json_value ''[1]''" using json_array by fastforce
  then have "json_items ''[1]''" using items_value [OF _ items_none] by fastforce
  then have "json_items '':[1]''" using items_space by fastforce
  ultimately have "json_items ([CHR 0x22, CHR ''}'', CHR 0x5C, CHR 0x22, CHR 0x22] @ '':[1]'')" by (rule items_value)
  from json_object [OF this] show ?thesis by (simp add: sample_value_def)
qed

theorem streamed_result_is_exact_witness:
  "\<exists>items. streamNativeCallBody (\<lambda>_ _. None) 7 sample_meta None sample_reader unwrapJsonRpcResultStream 3 (primed sample_value)
       = (None, items) \<and> concat (map Payload items) = sample_value"
  using streamed_result_is_exact [OF sample_value_json, of sample_reader "''xyz''" "''}''" "\<lambda>_ _. None" 7 sample_meta]
  by (auto simp: sample_reader_def sample_value_def body_def ends_value_def is_scalar_def scalar_char_def MaxChunkSize_def)

theorem truncated_result_is_reported_witness:
  "fst (streamNativeCallBody (\<lambda>_ _. None) 7 sample_meta None \<lparr>rdPieces = [''xyz'' @ take 4 sample_value], rdEnd = None\<rparr>
     unwrapJsonRpcResultStream 3 (primed sample_value)) \<noteq> None"
  using truncated_result_is_reported [OF sample_value_json append_take_drop_id [of 4, symmetric],
      of "\<lparr>rdPieces = [''xyz'' @ take 4 sample_value], rdEnd = None\<rparr>" "''xyz''" "\<lambda>_ _. None" 7 sample_meta None]
  by (cases "streamNativeCallBody (\<lambda>_ _. None) 7 sample_meta None \<lparr>rdPieces = [''xyz'' @ take 4 sample_value], rdEnd = None\<rparr>
     unwrapJsonRpcResultStream 3 (primed sample_value)") (simp add: sample_value_def body_def)

end
