(* ===== verification/Responses.thy ===== *)
theory Responses
  imports Requests ResultStream
begin

text \<open>
  Responses: \<open>internal/protocol/response.go\<close>, \<open>parse_response.go\<close>, \<open>errors.go\<close>, \<open>request_results.go\<close>, the
  classification of \<open>data.go\<close>, \<open>request_observer.go\<close> and \<open>method_availability.go\<close>, and the retryable errors of
  \<open>pkg/errors_config\<close>.

  The types that implement \<open>ResponseHolder\<close> are the constructors of one datatype, the interface's methods functions
  on it. A reader is a \<open>reader\<close> of the stream theory, so what a client receives is \<open>body\<close> of the encoded response.
  The JSON library (\<open>sonic\<close>) and compiled regular expressions are third party: fields of \<open>sonic_ops\<close> and functions
  on strings.
\<close>

section \<open>Errors\<close>

record ResponseError =
  errCode :: int
  errMessage :: string
  errData :: "json option"

definition BaseErrorCode :: int where "BaseErrorCode = 0"
definition NoAvailableUpstreamsCode :: int where "NoAvailableUpstreamsCode = 1"
definition WrongChainCode :: int where "WrongChainCode = 2"
definition CtxErrorCode :: int where "CtxErrorCode = 3"
definition WsTotalFailureCode :: int where "WsTotalFailureCode = 4"
definition NoApiConnectorsCode :: int where "NoApiConnectorsCode = 5"
definition ClientErrorCode :: int where "ClientErrorCode = 400"
definition AuthErrorCode :: int where "AuthErrorCode = 403"
definition RequestTimeoutCode :: int where "RequestTimeoutCode = 408"
definition InternalServerErrorCode :: int where "InternalServerErrorCode = 500"
definition RateLimitExceededCode :: int where "RateLimitExceededCode = 429"
definition NoSupportedMethodCode :: int where "NoSupportedMethodCode = -32601"
definition IncorrectResponseBodyCode :: int where "IncorrectResponseBodyCode = -32001"
definition QuorumSignatureErrCode :: int where "QuorumSignatureErrCode = -32010"
definition InvalidParamsCode :: int where "InvalidParamsCode = -32602"

definition mkError :: "int \<Rightarrow> string \<Rightarrow> ResponseError" where
  "mkError c m = \<lparr>errCode = c, errMessage = m, errData = None\<rparr>"

definition ResponseError_Error :: "ResponseError \<Rightarrow> string" where
  "ResponseError_Error e = itoa (errCode e) @ '': '' @ errMessage e"

definition ResponseErrorWithMessage :: "string \<Rightarrow> ResponseError" where
  "ResponseErrorWithMessage m = mkError 0 m"

definition ResponseErrorWithData :: "int \<Rightarrow> string \<Rightarrow> json option \<Rightarrow> ResponseError" where
  "ResponseErrorWithData c m d = \<lparr>errCode = c, errMessage = m, errData = d\<rparr>"

definition AuthError :: "string \<Rightarrow> ResponseError" where
  "AuthError cause = mkError AuthErrorCode (''auth error - '' @ cause)"

definition ClientError :: "string \<Rightarrow> ResponseError" where
  "ClientError cause = mkError ClientErrorCode (''client error - '' @ cause)"

definition ParseError :: ResponseError where
  "ParseError = mkError ClientErrorCode ''couldn't parse a request''"

definition RequestTimeoutError :: ResponseError where
  "RequestTimeoutError = mkError RequestTimeoutCode ''request timeout''"

definition ServerErrorWithCause :: "string \<Rightarrow> ResponseError" where
  "ServerErrorWithCause cause = mkError InternalServerErrorCode (''internal server error: '' @ cause)"

definition CtxError :: "string \<Rightarrow> ResponseError" where
  "CtxError cause = mkError CtxErrorCode (''ctx error: '' @ cause)"

definition NoApiConnectorsError :: "string \<Rightarrow> ResponseError" where
  "NoApiConnectorsError m = mkError NoApiConnectorsCode (''no suitable api connectors to process method '' @ m)"

definition ServerError :: ResponseError where
  "ServerError = mkError InternalServerErrorCode ''internal server error''"

definition IncorrectResponseBodyError :: "string \<Rightarrow> ResponseError" where
  "IncorrectResponseBodyError cause = mkError IncorrectResponseBodyCode (''incorrect response body: '' @ cause)"

definition NoAvailableUpstreamsError :: ResponseError where
  "NoAvailableUpstreamsError = mkError NoAvailableUpstreamsCode ''no available upstreams to process a request''"

definition NoAvailableUpstreamsErrorWithCause :: "string \<Rightarrow> ResponseError" where
  "NoAvailableUpstreamsErrorWithCause cause =
     (if cause = [] then NoAvailableUpstreamsError
      else mkError NoAvailableUpstreamsCode (''no available upstreams to process a request. Cause - '' @ cause))"

definition NotSupportedMethodError :: "string \<Rightarrow> ResponseError" where
  "NotSupportedMethodError m = mkError NoSupportedMethodCode (''the method '' @ m @ '' does not exist/is not available'')"

definition RateLimitError :: ResponseError where
  "RateLimitError = mkError RateLimitExceededCode ''rate limit exceeded''"

definition WrongChainError :: "string \<Rightarrow> ResponseError" where
  "WrongChainError c = mkError WrongChainCode (''chain '' @ c @ '' is not supported'')"

definition WsTotalFailureError :: ResponseError where
  "WsTotalFailureError = mkError WsTotalFailureCode ''websocket total failure''"

definition WsSubscriberTooSlowError :: ResponseError where
  "WsSubscriberTooSlowError = mkError WsTotalFailureCode ''subscription dropped: subscriber too slow to keep up''"

definition QuorumMissingSignaturesError :: ResponseError where
  "QuorumMissingSignaturesError =
     mkError QuorumSignatureErrCode ''quorum signature verification failed: no signatures returned by upstream''"

definition QuorumInsufficientSignaturesError :: "int \<Rightarrow> int \<Rightarrow> ResponseError" where
  "QuorumInsufficientSignaturesError got required = mkError QuorumSignatureErrCode
     (''quorum signature verification failed: got '' @ itoa got @ '' signatures, required '' @ itoa required)"

definition QuorumMalformedHeaderError :: "string \<Rightarrow> ResponseError" where
  "QuorumMalformedHeaderError cause =
     mkError QuorumSignatureErrCode (''quorum signature verification failed: malformed QR header - '' @ cause)"

definition QuorumVerificationError :: "string \<Rightarrow> ResponseError" where
  "QuorumVerificationError cause = mkError QuorumSignatureErrCode (''quorum signature verification failed: '' @ cause)"

definition QuorumNotSupportedError :: "string \<Rightarrow> ResponseError" where
  "QuorumNotSupportedError reason =
     (let msg = ''quorum is not supported for this request''
      in mkError QuorumSignatureErrCode (if reason \<noteq> [] then msg @ '': '' @ reason else msg))"

definition InvalidParamsError :: "string \<Rightarrow> ResponseError" where
  "InvalidParamsError m = mkError InvalidParamsCode m"

section \<open>Response types\<close>

datatype ResponseErrorKind = PartialFailure | TotalFailure

record GenericUpstreamResponse =
  genId :: string
  genResult :: string
  genError :: "ResponseError option"
  genType :: RequestType
  genStream :: "reader option"
  genCode :: int
  genHeaders :: "(string, string list) gomap"
  genHint :: "(nat \<times> ResultCounter) option"

record ReplyError =
  replyId :: string
  ErrorKind :: ResponseErrorKind
  responseError :: ResponseError
  responseType :: RequestType

record WsJsonRpcResponse =
  wsrId :: string
  wsrResult :: string
  wsrError :: "ResponseError option"

text \<open>The subscription frames carry an id and a payload; the method result has the method and the subscription id too.\<close>

datatype ResponseHolder =
    GenericResponse GenericUpstreamResponse
  | ReplyErrorResponse ReplyError
  | WsResponseHolder WsJsonRpcResponse
  | SubscriptionEventResponse string string
  | SubscriptionMessageResponse string string
  | SubscriptionResultResponse string string
  | SubscriptionMethodResultResponse string string string string

record ResponseHolderWrapper =
  wrUpstreamId :: string
  wrRequestId :: string
  wrNodeVersion :: string
  wrFinalizationType :: "BlockType option"
  wrFinalizationBlock :: Block
  wrResponse :: ResponseHolder

section \<open>The JSON library\<close>

datatype node_kind = NullNode | StringNode | OtherNode

record json_node =
  nodeKind :: node_kind
  nodeRaw :: "string option"

record jsonRpcError =
  jeMessage :: string
  jeCode :: "int option"
  jeData :: "json option"
  jeError :: string

text \<open>The fields of a websocket message as raw JSON, empty when absent.\<close>

record ws_fields =
  wfId :: string
  wfResult :: string
  wfParams :: "(string \<times> string) option"
  wfError :: string

record sonic_ops =
  sj_get :: "string \<Rightarrow> string \<Rightarrow> json_node option"
  sj_error :: "string \<Rightarrow> jsonRpcError option"
  sj_marshal_error :: "jsonRpcError \<Rightarrow> string + string"
  sj_marshal_sub :: "string \<Rightarrow> string \<Rightarrow> string \<Rightarrow> string + string"
  sj_string :: "string \<Rightarrow> string option"
  sj_ws :: "string \<Rightarrow> ws_fields option"

section \<open>The methods of a response\<close>

definition text_reader :: "string list \<Rightarrow> reader" where
  "text_reader ps = \<lparr>rdPieces = ps, rdEnd = None\<rparr>"

definition err_reader :: "string \<Rightarrow> reader" where
  "err_reader e = \<lparr>rdPieces = [], rdEnd = Some e\<rparr>"

definition jsonRpcResponseReader :: "string \<Rightarrow> string \<Rightarrow> string \<Rightarrow> reader" where
  "jsonRpcResponseReader i bodyName b =
     text_reader [[CHR ''{'', CHR 0x22, CHR ''i'', CHR ''d'', CHR 0x22, CHR '':''], i,
       [CHR '','', CHR 0x22] @ ''jsonrpc'' @ [CHR 0x22, CHR '':'', CHR 0x22] @ ''2.0'' @ [CHR 0x22, CHR '','', CHR 0x22]
         @ bodyName @ [CHR 0x22, CHR '':''], b, ''}'']"

fun HasError :: "ResponseHolder \<Rightarrow> bool" where
  "HasError (GenericResponse r) = (genError r \<noteq> None)"
| "HasError (ReplyErrorResponse r) = True"
| "HasError (WsResponseHolder r) = (wsrError r \<noteq> None)"
| "HasError _ = False"

fun GetError :: "ResponseHolder \<Rightarrow> ResponseError option" where
  "GetError (GenericResponse r) = genError r"
| "GetError (ReplyErrorResponse r) = Some (responseError r)"
| "GetError (WsResponseHolder r) = wsrError r"
| "GetError _ = None"

fun ResponseResult :: "ResponseHolder \<Rightarrow> string" where
  "ResponseResult (GenericResponse r) = genResult r"
| "ResponseResult (ReplyErrorResponse r) = []"
| "ResponseResult (WsResponseHolder r) = wsrResult r"
| "ResponseResult (SubscriptionEventResponse i event) = event"
| "ResponseResult (SubscriptionMessageResponse i message) = message"
| "ResponseResult (SubscriptionResultResponse i result) = result"
| "ResponseResult (SubscriptionMethodResultResponse i m result sub) = result"

fun HasStream :: "ResponseHolder \<Rightarrow> bool" where
  "HasStream (GenericResponse r) = (genStream r \<noteq> None)"
| "HasStream _ = False"

fun ResponseCode :: "ResponseHolder \<Rightarrow> int" where
  "ResponseCode (GenericResponse r) = genCode r"
| "ResponseCode _ = 0"

fun GetStreamHint :: "ResponseHolder \<Rightarrow> (nat \<times> ResultCounter) option" where
  "GetStreamHint (GenericResponse r) = genHint r"
| "GetStreamHint _ = None"

fun ResponseId :: "ResponseHolder \<Rightarrow> string" where
  "ResponseId (GenericResponse r) = genId r"
| "ResponseId (ReplyErrorResponse r) = replyId r"
| "ResponseId (WsResponseHolder r) = wsrId r"
| "ResponseId (SubscriptionEventResponse i event) = i"
| "ResponseId (SubscriptionMessageResponse i message) = i"
| "ResponseId (SubscriptionResultResponse i result) = i"
| "ResponseId (SubscriptionMethodResultResponse i m result sub) = i"

fun IsEventFrame :: "ResponseHolder \<Rightarrow> bool option" where
  "IsEventFrame (SubscriptionEventResponse i event) = Some True"
| "IsEventFrame (SubscriptionMessageResponse i message) = Some False"
| "IsEventFrame (SubscriptionResultResponse i result) = Some True"
| "IsEventFrame (SubscriptionMethodResultResponse i m result sub) = Some True"
| "IsEventFrame _ = None"

text \<open>The slice \<open>r[1:len(r)-1]\<close>; \<open>None\<close> is the panic on a single byte.\<close>

definition inner_bytes :: "string \<Rightarrow> string option" where
  "inner_bytes r = (if length r < 2 then None else Some (take (length r - 2) (tl r)))"

definition string_result :: "string \<Rightarrow> (string + string) option" where
  "string_result r =
     (if length r > 0 \<and> hd r = CHR 0x22 \<and> last r = CHR 0x22 then map_option Inr (inner_bytes r)
      else Some (Inl ''result is not a string''))"

fun ResponseResultString :: "ResponseHolder \<Rightarrow> (string + string) option" where
  "ResponseResultString (GenericResponse r) = string_result (genResult r)"
| "ResponseResultString (WsResponseHolder r) = string_result (wsrResult r)"
| "ResponseResultString _ = Some (Inr [])"

definition generic_EncodeResponse :: "GenericUpstreamResponse \<Rightarrow> string \<Rightarrow> reader" where
  "generic_EncodeResponse r rid =
     (if genType r = JsonRpc then
        (if genError r \<noteq> None then jsonRpcResponseReader rid ''error'' (genResult r)
         else case genStream r of
                Some s \<Rightarrow> s
              | None \<Rightarrow> jsonRpcResponseReader rid ''result'' (genResult r))
      else case genStream r of Some s \<Rightarrow> s | None \<Rightarrow> text_reader [genResult r])"

definition reply_EncodeResponse :: "sonic_ops \<Rightarrow> ReplyError \<Rightarrow> string \<Rightarrow> reader option" where
  "reply_EncodeResponse S r rid =
     (let e = responseError r in
      case responseType r of
        JsonRpc \<Rightarrow>
          Some (case sj_marshal_error S \<lparr>jeMessage = errMessage e, jeCode = Some (errCode e), jeData = errData e, jeError = []\<rparr> of
                  Inl err \<Rightarrow> err_reader err
                | Inr raw \<Rightarrow> jsonRpcResponseReader rid ''error'' raw)
      | Rest \<Rightarrow>
          Some (text_reader [''{'', [CHR 0x22] @ ''message'' @ [CHR 0x22, CHR '':'', CHR 0x22] @ errMessage e @ [CHR 0x22], ''}''])
      | _ \<Rightarrow> None)"

fun EncodeResponse :: "sonic_ops \<Rightarrow> ResponseHolder \<Rightarrow> string \<Rightarrow> reader option" where
  "EncodeResponse S (GenericResponse r) rid = Some (generic_EncodeResponse r rid)"
| "EncodeResponse S (ReplyErrorResponse r) rid = reply_EncodeResponse S r rid"
| "EncodeResponse S (WsResponseHolder r) rid =
     Some (jsonRpcResponseReader rid (if wsrError r \<noteq> None then ''error'' else ''result'') (wsrResult r))"
| "EncodeResponse S (SubscriptionEventResponse i event) rid = Some (text_reader [event])"
| "EncodeResponse S (SubscriptionMessageResponse i message) rid = Some (jsonRpcResponseReader rid ''result'' message)"
| "EncodeResponse S (SubscriptionResultResponse i result) rid = Some (text_reader [result])"
| "EncodeResponse S (SubscriptionMethodResultResponse i m result sub) rid =
     Some (case sj_marshal_sub S m result sub of Inl e \<Rightarrow> err_reader e | Inr raw \<Rightarrow> text_reader [raw])"

section \<open>Parsing an upstream's answer\<close>

definition parseJsonRpcError :: "sonic_ops \<Rightarrow> string \<Rightarrow> ResponseError" where
  "parseJsonRpcError S errorRaw =
     (case sj_error S errorRaw of
        Some e \<Rightarrow>
          ResponseErrorWithData (case jeCode e of Some c \<Rightarrow> c | None \<Rightarrow> -32000)
            (if jeMessage e \<noteq> [] then jeMessage e else if jeError e \<noteq> [] then jeError e else ''internal server error'')
            (jeData e)
      | None \<Rightarrow> ServerError)"

definition incorrectJsonRpcBody :: "sonic_ops \<Rightarrow> ResponseError \<times> string" where
  "incorrectJsonRpcBody S =
     (let err = IncorrectResponseBodyError ''wrong json-rpc response - there is neither result nor error''
      in (err, case sj_marshal_error S \<lparr>jeMessage = errMessage err, jeCode = Some (errCode err), jeData = None, jeError = []\<rparr> of
                 Inr raw \<Rightarrow> raw | Inl _ \<Rightarrow> []))"

definition generic_response :: "string \<Rightarrow> string \<Rightarrow> ResponseError option \<Rightarrow> int \<Rightarrow> GenericUpstreamResponse" where
  "generic_response i result err code =
     \<lparr>genId = i, genResult = result, genError = err, genType = Rest, genStream = None, genCode = code, genHeaders = [],
      genHint = None\<rparr>"

definition parseJsonRpcBody :: "sonic_ops \<Rightarrow> string \<Rightarrow> string \<Rightarrow> int \<Rightarrow> GenericUpstreamResponse" where
  "parseJsonRpcBody S i b responseCode =
     (let result = (case sj_get S b ''result'' of
            Some n \<Rightarrow> (case nodeRaw n of Some raw \<Rightarrow> raw | None \<Rightarrow> [])
          | None \<Rightarrow> []);
          (err, result) = (case sj_get S b ''error'' of
            Some n \<Rightarrow>
              if nodeKind n = NullNode then (None, result)
              else (case nodeRaw n of
                      None \<Rightarrow> (None, result)
                    | Some raw \<Rightarrow>
                        if nodeKind n = StringNode then (Some (ResponseErrorWithMessage (take (length raw - 2) (tl raw))), raw)
                        else (Some (parseJsonRpcError S raw), raw))
          | None \<Rightarrow> (None, result));
          (err, result) = (if err = None \<and> result = []
            then (let (e, raw) = incorrectJsonRpcBody S in (Some e, raw)) else (err, result))
      in generic_response i result err responseCode)"

definition restErrorMessageMaxLen :: nat where "restErrorMessageMaxLen = 512"

definition truncateRestErrorMessage :: "string \<Rightarrow> string" where
  "truncateRestErrorMessage b =
     (let s = trimSpace b
      in if s = [] then ''upstream returned an empty error body''
         else if length s > restErrorMessageMaxLen then take restErrorMessageMaxLen s @ ''... (truncated)''
         else s)"

definition tryParseStructuredError :: "sonic_ops \<Rightarrow> string \<Rightarrow> ResponseError option" where
  "tryParseStructuredError S b =
     (let trimmed = trimSpace b
      in if trimmed = [] \<or> hd trimmed \<noteq> CHR ''{'' then None
         else case sj_error S trimmed of
                None \<Rightarrow> None
              | Some p \<Rightarrow>
                  if jeCode p = None \<and> jeMessage p = [] \<and> jeError p = [] then None
                  else
                    (let msg = (if jeMessage p = [] then jeError p else jeMessage p);
                         msg = (if msg = [] then ''upstream returned an error without a message'' else msg)
                     in Some \<lparr>errCode = (case jeCode p of Some c \<Rightarrow> c | None \<Rightarrow> 0), errMessage = msg, errData = jeData p\<rparr>))"

definition parseRestErrorBody :: "sonic_ops \<Rightarrow> string \<Rightarrow> int \<Rightarrow> ResponseError" where
  "parseRestErrorBody S b responseCode =
     (case tryParseStructuredError S b of
        Some e \<Rightarrow> (if errCode e = 0 then e\<lparr>errCode := responseCode\<rparr> else e)
      | None \<Rightarrow> mkError responseCode (truncateRestErrorMessage b))"

definition parseHttpResponse :: "sonic_ops \<Rightarrow> string \<Rightarrow> string \<Rightarrow> int \<Rightarrow> GenericUpstreamResponse" where
  "parseHttpResponse S i b responseCode =
     generic_response i b
       (if responseCode < 200 \<or> responseCode \<ge> 300 then Some (parseRestErrorBody S b responseCode) else None) responseCode"

text \<open>\<open>None\<close> is the panic on a request type that is not an HTTP one.\<close>

definition NewHttpUpstreamResponse :: "sonic_ops \<Rightarrow> string \<Rightarrow> string \<Rightarrow> int \<Rightarrow> RequestType \<Rightarrow> GenericUpstreamResponse option" where
  "NewHttpUpstreamResponse S i b responseCode t =
     (case t of
        JsonRpc \<Rightarrow> Some ((parseJsonRpcBody S i b responseCode)\<lparr>genType := t\<rparr>)
      | Rest \<Rightarrow> Some ((parseHttpResponse S i b responseCode)\<lparr>genType := t\<rparr>)
      | _ \<Rightarrow> None)"

definition NewHttpUpstreamResponseStream :: "string \<Rightarrow> reader \<Rightarrow> RequestType \<Rightarrow> GenericUpstreamResponse" where
  "NewHttpUpstreamResponseStream i r t = (generic_response i [] None 0)\<lparr>genType := t, genStream := Some r\<rparr>"

definition NewSimpleHttpUpstreamResponse :: "string \<Rightarrow> string \<Rightarrow> RequestType \<Rightarrow> GenericUpstreamResponse" where
  "NewSimpleHttpUpstreamResponse i b t = (generic_response i b None 0)\<lparr>genType := t\<rparr>"

definition NewHttpUpstreamResponseWithError :: "ResponseError \<Rightarrow> GenericUpstreamResponse" where
  "NewHttpUpstreamResponseWithError e = generic_response [] [] (Some e) 0"

definition ResultAsString :: "string \<Rightarrow> string option" where
  "ResultAsString r =
     (if r = [] then Some [] else if hd r = CHR 0x22 \<and> last r = CHR 0x22 then inner_bytes r else Some r)"

definition ResultAsNumber :: "string \<Rightarrow> u64" where
  "ResultAsNumber r = (case atoi r of Some n \<Rightarrow> word_of_int n | None \<Rightarrow> 0)"

section \<open>Websocket messages\<close>

record WsResponse =
  wsId :: string
  SubId :: string
  Message :: string
  wsType :: RequestType
  wsError :: "ResponseError option"
  Event :: string
  wsUpstreamId :: string

text \<open>\<open>flexibleId.UnmarshalJSON\<close>; \<open>None\<close> is its error, which fails the whole message.\<close>

definition flexibleId :: "sonic_ops \<Rightarrow> string \<Rightarrow> string option" where
  "flexibleId S data =
     (if data = [] \<or> data = ''null'' then Some []
      else if hd data = CHR 0x22 then sj_string S data
      else Some data)"

definition unmarshal_ws :: "sonic_ops \<Rightarrow> string \<Rightarrow> (string \<times> ws_fields) option" where
  "unmarshal_ws S b =
     (case sj_ws S b of
        None \<Rightarrow> None
      | Some f \<Rightarrow> map_option (\<lambda>i. (i, f)) (flexibleId S (wfId f)))"

definition ws_response :: "string \<Rightarrow> string \<Rightarrow> RequestType \<Rightarrow> string \<Rightarrow> ResponseError option \<Rightarrow> string \<Rightarrow> WsResponse" where
  "ws_response b i t sub err message =
     (let err = (if i = [] \<and> sub = [] \<and> err = None
            then Some (IncorrectResponseBodyError ''wrong json-rpc ws response'') else err)
      in \<lparr>wsId = i, SubId = sub, Message = message, wsType = t, wsError = err, Event = b, wsUpstreamId = []\<rparr>)"

definition ParseJsonRpcWsMessage :: "sonic_ops \<Rightarrow> string \<Rightarrow> WsResponse option" where
  "ParseJsonRpcWsMessage S b =
     (case unmarshal_ws S b of
        None \<Rightarrow> Some (ws_response b [] UnknownRequest [] None b)
      | Some (i, f) \<Rightarrow>
          (case wfParams f of
             Some (result, subscription) \<Rightarrow>
               map_option (\<lambda>sub. ws_response b i Ws sub None result) (ResultAsString subscription)
           | None \<Rightarrow>
               Some (if wfError f \<noteq> [] then ws_response b i JsonRpc [] (Some (parseJsonRpcError S (wfError f))) (wfError f)
                 else if wfResult f \<noteq> [] then ws_response b i JsonRpc [] None (wfResult f)
                 else ws_response b i UnknownRequest [] None b)))"

section \<open>Classifying a response\<close>

text \<open>A compiled regular expression is the predicate \<open>MatchString\<close>.\<close>

record ErrorConfig =
  ecRe :: "(string \<Rightarrow> bool) option"
  ecStr :: "string option"

record ErrorConfigs =
  RetryableErrors :: "ErrorConfig list"
  NonRetryableErrors :: "ErrorConfig list"

definition isMatched :: "ErrorConfig \<Rightarrow> string \<Rightarrow> bool" where
  "isMatched e s =
     (case ecRe e of
        Some re \<Rightarrow> re s
      | None \<Rightarrow> (case ecStr e of Some t \<Rightarrow> go_contains s t | None \<Rightarrow> False))"

definition message_IsRetryable :: "ErrorConfigs \<Rightarrow> string \<Rightarrow> bool" where
  "message_IsRetryable E s =
     (if list_ex (\<lambda>e. isMatched e s) (NonRetryableErrors E) then False
      else list_ex (\<lambda>e. isMatched e s) (RetryableErrors E))"

fun IsRetryable :: "ErrorConfigs \<Rightarrow> ResponseHolder \<Rightarrow> bool" where
  "IsRetryable E (GenericResponse r) =
     (case genError r of Some e \<Rightarrow> message_IsRetryable E (errMessage e) | None \<Rightarrow> False)"
| "IsRetryable E (ReplyErrorResponse r) = (ErrorKind r = PartialFailure)"
| "IsRetryable E _ = False"

datatype ResultType = ResultOk | ResultOkWithError | ResultPartialFailure | ResultTotalFailure | ResultStop

text \<open>The errors a flow can return besides a response: \<open>StopRetryErr\<close> or any other.\<close>

datatype call_error = StopRetryErr | OtherErr "ResponseError + string"

definition GetResponseType :: "ResponseHolderWrapper option \<Rightarrow> call_error option \<Rightarrow> ResultType" where
  "GetResponseType wrapper err =
     (let from_err = (case err of
            Some StopRetryErr \<Rightarrow> ResultStop
          | Some (OtherErr _) \<Rightarrow> ResultTotalFailure
          | None \<Rightarrow> ResultOk)
      in case map_option wrResponse wrapper of
           Some (ReplyErrorResponse r) \<Rightarrow> (if ErrorKind r = PartialFailure then ResultPartialFailure else ResultTotalFailure)
         | Some (GenericResponse r) \<Rightarrow> (if genError r \<noteq> None then ResultOkWithError else from_err)
         | _ \<Rightarrow> from_err)"

definition IsStream :: "string \<Rightarrow> bool" where
  "IsStream m \<longleftrightarrow> m = ''eth_getLogs'' \<or> m = ''getProgramAccounts''"

datatype ResponseKind = UnknownRespKind | OkKind | CancelledKind | ErrorKindResp | RetryableErrorKind | RoutingErrorKind

fun GetRespKindFromResponse :: "ErrorConfigs \<Rightarrow> ResponseHolder \<Rightarrow> ResponseKind" where
  "GetRespKindFromResponse E (GenericResponse r) =
     (if genError r = None then OkKind
      else if IsRetryable E (GenericResponse r) then RetryableErrorKind else ErrorKindResp)"
| "GetRespKindFromResponse E (ReplyErrorResponse r) =
     (let c = errCode (responseError r) in
      if c = CtxErrorCode then CancelledKind
      else if c = NoAvailableUpstreamsCode \<or> c = NoSupportedMethodCode then RoutingErrorKind
      else if IsRetryable E (ReplyErrorResponse r) then RetryableErrorKind else ErrorKindResp)"
| "GetRespKindFromResponse E _ = UnknownRespKind"

definition NewReplyError :: "string \<Rightarrow> ResponseError \<Rightarrow> RequestType \<Rightarrow> ResponseErrorKind \<Rightarrow> ReplyError" where
  "NewReplyError i e t k = \<lparr>replyId = i, ErrorKind = k, responseError = e, responseType = t\<rparr>"

text \<open>\<open>NewPartialFailure\<close> and \<open>NewTotalFailure\<close> take the id and the type from the request.\<close>

definition NewPartialFailure :: "string \<Rightarrow> RequestType \<Rightarrow> ResponseError \<Rightarrow> ReplyError" where
  "NewPartialFailure reqId reqType e = NewReplyError reqId e reqType PartialFailure"

definition NewTotalFailure :: "string \<Rightarrow> RequestType \<Rightarrow> ResponseError \<Rightarrow> ReplyError" where
  "NewTotalFailure reqId reqType e = NewReplyError reqId e reqType TotalFailure"

text \<open>An error that is (or wraps) a \<open>ResponseError\<close> is \<open>Inl\<close>, any other its text.\<close>

definition NewTotalFailureFromErr :: "string \<Rightarrow> ResponseError + string \<Rightarrow> RequestType \<Rightarrow> ReplyError" where
  "NewTotalFailureFromErr i err t =
     (case err of
        Inl e \<Rightarrow> \<lparr>replyId = i, ErrorKind = TotalFailure, responseError = e, responseType = t\<rparr>
      | Inr cause \<Rightarrow> NewReplyError i (ServerErrorWithCause cause) t TotalFailure)"

datatype MethodAvailability = MethodAvailabilityUnknown | MethodNotAvailable | MethodAvailable

text \<open>The patterns of \<open>method_availability.go\<close> are compiled regular expressions too: the two lists are arguments.\<close>

definition ClassifyMethodAvailability ::
  "(string \<Rightarrow> bool) list \<Rightarrow> (string \<Rightarrow> bool) list \<Rightarrow> ResponseError option \<Rightarrow> MethodAvailability" where
  "ClassifyMethodAvailability notAvailable available respError =
     (case respError of
        None \<Rightarrow> MethodAvailabilityUnknown
      | Some e \<Rightarrow>
          if errCode e = NoSupportedMethodCode then MethodNotAvailable
          else if list_ex (\<lambda>p. p (errMessage e)) notAvailable then MethodNotAvailable
          else if list_ex (\<lambda>p. p (errMessage e)) available then MethodAvailable
          else MethodAvailabilityUnknown)"

section \<open>The results of a request\<close>

record UnaryRequestResult =
  resUpstreamId :: string
  respKind :: ResponseKind
  hasSuccessfulRetry :: bool

record unaryRequestCtx =
  requestResults :: "UnaryRequestResult list"
  inFlight :: nat

definition newUnaryRequestCtx :: unaryRequestCtx where
  "newUnaryRequestCtx = \<lparr>requestResults = [], inFlight = 0\<rparr>"

definition trackUpstreamCall :: "unaryRequestCtx \<Rightarrow> unaryRequestCtx" where
  "trackUpstreamCall c = c\<lparr>inFlight := Suc (inFlight c)\<rparr>"

definition untrackUpstreamCall :: "unaryRequestCtx \<Rightarrow> unaryRequestCtx" where
  "untrackUpstreamCall c = c\<lparr>inFlight := inFlight c - 1\<rparr>"

definition addResult :: "UnaryRequestResult \<Rightarrow> unaryRequestCtx \<Rightarrow> unaryRequestCtx" where
  "addResult r c = c\<lparr>requestResults := requestResults c @ [r]\<rparr>"

definition addFinalResult :: "UnaryRequestResult \<Rightarrow> unaryRequestCtx \<Rightarrow> unaryRequestCtx" where
  "addFinalResult r c = (if requestResults c = [] then c\<lparr>requestResults := requestResults c @ [r]\<rparr> else c)"

text \<open>\<open>None\<close> is a caller still waiting for calls in flight.\<close>

definition getResults :: "unaryRequestCtx \<Rightarrow> UnaryRequestResult list option" where
  "getResults c = (if inFlight c > 0 then None else Some (requestResults c))"

section \<open>What the JSON library promises\<close>

text \<open>The envelope of a response as text.\<close>

definition envelope :: "string \<Rightarrow> string \<Rightarrow> string \<Rightarrow> string" where
  "envelope i name b = body (jsonRpcResponseReader i name b)"

text \<open>\<open>valid\<close> are the JSON texts and \<open>kind\<close> the kind of a text's value. A value found by key is a non-empty JSON text of
  its kind; looking a key up in an envelope of JSON texts finds exactly the member written there. An error object
  \<open>marshals\<close> when its text is a JSON object that unmarshals to itself.\<close>

definition sonic_ok :: "sonic_ops \<Rightarrow> (string \<Rightarrow> bool) \<Rightarrow> (string \<Rightarrow> node_kind) \<Rightarrow> bool" where
  "sonic_ok S valid kind \<longleftrightarrow>
     (\<forall>b k n raw. sj_get S b k = Some n \<longrightarrow> nodeRaw n = Some raw \<longrightarrow> valid raw \<and> raw \<noteq> [] \<and> nodeKind n = kind raw)
   \<and> (\<forall>i name b k. valid i \<longrightarrow> valid b \<longrightarrow> name \<in> {''result'', ''error''} \<longrightarrow> k \<in> {''result'', ''error''} \<longrightarrow>
        sj_get S (envelope i name b) k = (if k = name then Some \<lparr>nodeKind = kind b, nodeRaw = Some b\<rparr> else None))"

definition marshals :: "sonic_ops \<Rightarrow> (string \<Rightarrow> bool) \<Rightarrow> (string \<Rightarrow> node_kind) \<Rightarrow> ResponseError \<Rightarrow> bool" where
  "marshals S valid kind err \<longleftrightarrow>
     (let e = \<lparr>jeMessage = errMessage err, jeCode = Some (errCode err), jeData = errData err, jeError = []\<rparr>
      in \<exists>raw. sj_marshal_error S e = Inr raw \<and> valid raw \<and> raw \<noteq> [] \<and> kind raw = OtherNode \<and> sj_error S raw = Some e)"

definition neither_error :: ResponseError where
  "neither_error = IncorrectResponseBodyError ''wrong json-rpc response - there is neither result nor error''"

lemma sonic_get: "sonic_ok S valid kind \<Longrightarrow> sj_get S b k = Some n \<Longrightarrow> nodeRaw n = Some raw \<Longrightarrow> valid raw \<and> raw \<noteq> [] \<and> nodeKind n = kind raw"
  unfolding sonic_ok_def by blast

lemma sonic_envelope:
  assumes "sonic_ok S valid kind" "valid i" "valid b"
  shows "sj_get S (envelope i ''result'' b) ''result'' = Some \<lparr>nodeKind = kind b, nodeRaw = Some b\<rparr>"
    "sj_get S (envelope i ''result'' b) ''error'' = None"
    "sj_get S (envelope i ''error'' b) ''error'' = Some \<lparr>nodeKind = kind b, nodeRaw = Some b\<rparr>"
    "sj_get S (envelope i ''error'' b) ''result'' = None"
proof -
  have e: "sj_get S (envelope i name b) k = (if k = name then Some \<lparr>nodeKind = kind b, nodeRaw = Some b\<rparr> else None)"
    if "name \<in> {''result'', ''error''}" "k \<in> {''result'', ''error''}" for name k
    using assms that unfolding sonic_ok_def by blast
  show "sj_get S (envelope i ''result'' b) ''result'' = Some \<lparr>nodeKind = kind b, nodeRaw = Some b\<rparr>"
    "sj_get S (envelope i ''result'' b) ''error'' = None"
    "sj_get S (envelope i ''error'' b) ''error'' = Some \<lparr>nodeKind = kind b, nodeRaw = Some b\<rparr>"
    "sj_get S (envelope i ''error'' b) ''result'' = None" by (subst e; simp)+
qed

text \<open>The shape of a parsed answer: a result without an error, or the raw error with the error it stands for.\<close>

definition error_of :: "sonic_ops \<Rightarrow> (string \<Rightarrow> node_kind) \<Rightarrow> string \<Rightarrow> ResponseError" where
  "error_of S kind raw =
     (if kind raw = StringNode then ResponseErrorWithMessage (take (length raw - 2) (tl raw)) else parseJsonRpcError S raw)"

definition answer_shape :: "sonic_ops \<Rightarrow> (string \<Rightarrow> bool) \<Rightarrow> (string \<Rightarrow> node_kind) \<Rightarrow> string \<Rightarrow> ResponseError option \<Rightarrow> bool" where
  "answer_shape S valid kind result err \<longleftrightarrow> valid result \<and> result \<noteq> []
     \<and> (err \<noteq> None \<longrightarrow> kind result \<noteq> NullNode \<and> err = Some (error_of S kind result))"

lemma marshalled_shape:
  assumes "marshals S valid kind err" "errMessage err \<noteq> []"
  obtains raw where "sj_marshal_error S \<lparr>jeMessage = errMessage err, jeCode = Some (errCode err), jeData = errData err, jeError = []\<rparr> = Inr raw"
    "answer_shape S valid kind raw (Some err)"
proof -
  from assms(1) obtain raw where raw: "sj_marshal_error S \<lparr>jeMessage = errMessage err, jeCode = Some (errCode err), jeData = errData err, jeError = []\<rparr> = Inr raw"
    "valid raw" "raw \<noteq> []" "kind raw = OtherNode"
    "sj_error S raw = Some \<lparr>jeMessage = errMessage err, jeCode = Some (errCode err), jeData = errData err, jeError = []\<rparr>"
    by (auto simp: marshals_def Let_def)
  moreover from this assms(2) have "answer_shape S valid kind raw (Some err)"
    by (simp add: answer_shape_def error_of_def parseJsonRpcError_def ResponseErrorWithData_def)
  ultimately show thesis using that by blast
qed

lemma incorrectJsonRpcBody_shape:
  assumes "marshals S valid kind neither_error" "incorrectJsonRpcBody S = (e, raw)"
  shows "answer_shape S valid kind raw (Some e)"
proof -
  have "errMessage neither_error \<noteq> []" "errData neither_error = None"
    by (simp_all add: neither_error_def IncorrectResponseBodyError_def mkError_def)
  with marshalled_shape [OF assms(1)] assms(2) show ?thesis
    by (fastforce simp: incorrectJsonRpcBody_def neither_error_def [symmetric])
qed

lemma parseJsonRpcBody_shape:
  assumes "sonic_ok S valid kind" "marshals S valid kind neither_error"
  shows "answer_shape S valid kind (genResult (parseJsonRpcBody S i b code)) (genError (parseJsonRpcBody S i b code))"
proof -
  obtain e raw where inc: "incorrectJsonRpcBody S = (e, raw)" by (cases "incorrectJsonRpcBody S")
  note incs = incorrectJsonRpcBody_shape [OF assms(2) inc]
  define res where "res = (case sj_get S b ''result'' of Some n \<Rightarrow> (case nodeRaw n of Some raw \<Rightarrow> raw | None \<Rightarrow> []) | None \<Rightarrow> [])"
  have res: "valid res" if "res \<noteq> []"
    using that sonic_get [OF assms(1), of b "''result''"] by (auto simp: res_def split: option.splits)
  let ?out = "\<lambda>p. answer_shape S valid kind (genResult p) (genError p)"
  have plain: "?out (generic_response i (snd q) (fst q) code)"
    if "q = (if res = [] then (Some e, raw) else (None, res))" for q
    using that incs res by (auto simp: generic_response_def answer_shape_def)
  show ?thesis
  proof (cases "\<exists>n r. sj_get S b ''error'' = Some n \<and> nodeKind n \<noteq> NullNode \<and> nodeRaw n = Some r")
    case True
    then obtain n r where n: "sj_get S b ''error'' = Some n" "nodeKind n \<noteq> NullNode" "nodeRaw n = Some r" by blast
    with sonic_get [OF assms(1) n(1,3)] show ?thesis
      by (cases "nodeKind n = StringNode")
        (simp_all add: parseJsonRpcBody_def generic_response_def answer_shape_def error_of_def)
  next
    case False
    then have "parseJsonRpcBody S i b code =
        (let q = (if res = [] then (Some e, raw) else (None, res)) in generic_response i (snd q) (fst q) code)"
      by (auto simp: parseJsonRpcBody_def res_def [symmetric] inc split: option.splits)
    with plain show ?thesis by (simp add: Let_def)
  qed
qed

lemma parse_envelope:
  assumes "sonic_ok S valid kind" "valid i" "answer_shape S valid kind result err"
  shows "genResult (parseJsonRpcBody S j (envelope i (if err \<noteq> None then ''error'' else ''result'') result) code) = result
    \<and> genError (parseJsonRpcBody S j (envelope i (if err \<noteq> None then ''error'' else ''result'') result) code) = err"
  using assms(3) sonic_envelope [OF assms(1,2), of result]
  by (auto simp: parseJsonRpcBody_def generic_response_def answer_shape_def error_of_def)

section \<open>Properties\<close>

text \<open>\<^bold>\<open>C19\<close>. An answer survives being relayed: what nodecore encodes for a client from a parsed JSON-RPC answer, whatever the
  upstream sent, parses back to the same result and the same error. A nodecore behind another nodecore sees what the
  first one saw.\<close>

theorem relayed_answer_is_unchanged:
  assumes "sonic_ok S valid kind" "marshals S valid kind neither_error" "valid rid"
    and "NewHttpUpstreamResponse S i b code JsonRpc = Some r"
    and "EncodeResponse S (GenericResponse r) rid = Some rd"
    and "NewHttpUpstreamResponse S j (body rd) code' JsonRpc = Some r'"
  shows "genResult r' = genResult r \<and> genError r' = genError r"
proof -
  have r: "r = (parseJsonRpcBody S i b code)\<lparr>genType := JsonRpc\<rparr>" using assms(4) by (simp add: NewHttpUpstreamResponse_def)
  then have "genStream r = None" "genType r = JsonRpc" by (simp_all add: parseJsonRpcBody_def generic_response_def Let_def split: prod.splits)
  with assms(5) have "body rd = envelope rid (if genError r \<noteq> None then ''error'' else ''result'') (genResult r)"
    by (auto simp: generic_EncodeResponse_def envelope_def)
  with assms(6) parse_envelope [OF assms(1,3) parseJsonRpcBody_shape [OF assms(1,2), of i b code], of j code'] r show ?thesis
    by (auto simp: NewHttpUpstreamResponse_def)
qed

text \<open>nodecore's own failures are readable by a JSON-RPC client: a failure with a message that is encoded for the
  client parses to an error answer with the same code, message and data.\<close>

theorem own_failure_is_readable:
  assumes "sonic_ok S valid kind" "marshals S valid kind e" "valid rid" "errMessage e \<noteq> []"
    and "EncodeResponse S (ReplyErrorResponse (NewReplyError i e JsonRpc k)) rid = Some rd"
  shows "genError (parseJsonRpcBody S j (body rd) code) = Some e"
proof -
  from marshalled_shape [OF assms(2,4)] obtain raw where
    raw: "sj_marshal_error S \<lparr>jeMessage = errMessage e, jeCode = Some (errCode e), jeData = errData e, jeError = []\<rparr> = Inr raw"
    "answer_shape S valid kind raw (Some e)" .
  with assms(5) have "body rd = envelope rid ''error'' raw"
    by (auto simp: reply_EncodeResponse_def NewReplyError_def envelope_def)
  with parse_envelope [OF assms(1,3) raw(2), of j code] show ?thesis by simp
qed

text \<open>\<^bold>\<open>C22\<close>. Every REST answer outside 2xx is an error the caller can act on: it has a non-empty message and a code that is
  not zero, and a message that comes from an unstructured body is at most 527 bytes long. An answer in 2xx has no error.\<close>

theorem rest_failure_is_described:
  assumes "NewHttpUpstreamResponse S i b code Rest = Some r" "code \<noteq> 0"
  shows "genResult r = b \<and> (genError r = None \<longleftrightarrow> 200 \<le> code \<and> code < 300)
     \<and> (\<forall>e. genError r = Some e \<longrightarrow> errMessage e \<noteq> [] \<and> errCode e \<noteq> 0
          \<and> (tryParseStructuredError S b = None \<longrightarrow> errCode e = code \<and> length (errMessage e) \<le> 527))"
proof -
  have "errMessage (parseRestErrorBody S b code) \<noteq> [] \<and> errCode (parseRestErrorBody S b code) \<noteq> 0
      \<and> (tryParseStructuredError S b = None \<longrightarrow> errCode (parseRestErrorBody S b code) = code
          \<and> length (errMessage (parseRestErrorBody S b code)) \<le> 527)"
    using assms(2)
    by (auto simp: parseRestErrorBody_def mkError_def truncateRestErrorMessage_def restErrorMessageMaxLen_def Let_def
        tryParseStructuredError_def split: option.splits if_splits)
  with assms(1) show ?thesis
    by (auto simp: NewHttpUpstreamResponse_def parseHttpResponse_def generic_response_def split: if_splits)
qed

section \<open>Witnesses\<close>

text \<open>A JSON library for two texts: \<open>1\<close> stands for a number, \<open>2\<close> for the object of one error.\<close>

definition toy_raws :: "string list" where
  "toy_raws = [''1'', ''2'']"

definition toy_error :: ResponseError where
  "toy_error = neither_error"

definition toy_table :: "((string \<times> string) \<times> json_node) list" where
  "toy_table = concat (map (\<lambda>i. concat (map (\<lambda>n. map (\<lambda>b.
     ((envelope i n b, n), \<lparr>nodeKind = OtherNode, nodeRaw = Some b\<rparr>)) toy_raws) [''result'', ''error''])) toy_raws)"

definition toy_sonic :: sonic_ops where
  "toy_sonic = \<lparr>sj_get = (\<lambda>b k. map_of toy_table (b, k)),
     sj_error = (\<lambda>_. Some \<lparr>jeMessage = errMessage toy_error, jeCode = Some (errCode toy_error), jeData = None, jeError = []\<rparr>),
     sj_marshal_error = (\<lambda>_. Inr ''2''), sj_marshal_sub = (\<lambda>_ _ _. Inl []), sj_string = (\<lambda>_. None), sj_ws = (\<lambda>_. None)\<rparr>"

lemma toy_table_range: "((b, k), n) \<in> set toy_table \<Longrightarrow> nodeKind n = OtherNode \<and> (nodeRaw n = Some ''1'' \<or> nodeRaw n = Some ''2'')"
  by (auto simp: toy_table_def toy_raws_def)

lemma toy_sonic_ok: "sonic_ok toy_sonic (\<lambda>t. t \<in> set toy_raws) (\<lambda>_. OtherNode)"
proof -
  have look: "\<forall>i \<in> set toy_raws. \<forall>b \<in> set toy_raws. \<forall>name \<in> {''result'', ''error''}. \<forall>k \<in> {''result'', ''error''}.
      sj_get toy_sonic (envelope i name b) k = (if k = name then Some \<lparr>nodeKind = OtherNode, nodeRaw = Some b\<rparr> else None)"
    by code_simp
  have "n = n' \<longrightarrow> nodeRaw n' = Some raw \<longrightarrow> raw \<in> set toy_raws \<and> raw \<noteq> [] \<and> nodeKind n' = OtherNode"
    if "map_of toy_table (b, k) = Some n" for b k n n' raw
    using toy_table_range [of b k n] map_of_SomeD [OF that] by (auto simp: toy_raws_def)
  with look show ?thesis unfolding sonic_ok_def by (auto simp: toy_sonic_def)
qed

lemma toy_marshals: "marshals toy_sonic (\<lambda>t. t \<in> set toy_raws) (\<lambda>_. OtherNode) neither_error"
  by (simp add: marshals_def toy_sonic_def toy_raws_def toy_error_def neither_error_def IncorrectResponseBodyError_def mkError_def)

theorem relayed_answer_is_unchanged_witness:
  "\<exists>r rd r'. NewHttpUpstreamResponse toy_sonic ''7'' (envelope ''1'' ''result'' ''1'') 200 JsonRpc = Some r
     \<and> EncodeResponse toy_sonic (GenericResponse r) ''2'' = Some rd
     \<and> NewHttpUpstreamResponse toy_sonic ''8'' (body rd) 200 JsonRpc = Some r'
     \<and> genResult r' = genResult r \<and> genError r' = genError r"
proof -
  obtain r rd r' where "NewHttpUpstreamResponse toy_sonic ''7'' (envelope ''1'' ''result'' ''1'') 200 JsonRpc = Some r"
    "EncodeResponse toy_sonic (GenericResponse r) ''2'' = Some rd"
    "NewHttpUpstreamResponse toy_sonic ''8'' (body rd) 200 JsonRpc = Some r'" by (simp add: NewHttpUpstreamResponse_def)
  with relayed_answer_is_unchanged [OF toy_sonic_ok toy_marshals _ this] show ?thesis by (auto simp: toy_raws_def)
qed

theorem own_failure_is_readable_witness:
  "\<exists>rd. EncodeResponse toy_sonic (ReplyErrorResponse (NewReplyError ''7'' neither_error JsonRpc TotalFailure)) ''1'' = Some rd
     \<and> genError (parseJsonRpcBody toy_sonic ''8'' (body rd) 200) = Some neither_error"
proof -
  obtain rd where "EncodeResponse toy_sonic (ReplyErrorResponse (NewReplyError ''7'' neither_error JsonRpc TotalFailure)) ''1'' = Some rd"
    by (simp add: reply_EncodeResponse_def NewReplyError_def)
  with own_failure_is_readable [OF toy_sonic_ok toy_marshals _ _ this] show ?thesis
    by (simp add: toy_raws_def neither_error_def IncorrectResponseBodyError_def mkError_def)
qed

theorem rest_failure_is_described_witness:
  "\<exists>r e. NewHttpUpstreamResponse toy_sonic ''7'' '' busy '' 503 Rest = Some r \<and> genError r = Some e \<and> errCode e = 503"
proof -
  obtain r where r: "NewHttpUpstreamResponse toy_sonic ''7'' '' busy '' 503 Rest = Some r" by (simp add: NewHttpUpstreamResponse_def)
  have "tryParseStructuredError toy_sonic '' busy '' = None" by code_simp
  with r rest_failure_is_described [OF r] show ?thesis by auto
qed

end
