(* ===== verification/Resilience.thy ===== *)
theory Resilience
  imports Responses ConfigUpstreams
begin

text \<open>
  Retries and hedges: \<open>internal/resilience\<close>.

  A retry policy runs a call again while its outcome is a failure; a hedge policy starts parallel copies of a slow
  call and answers with the best outcome. The policies are plugged into \<open>failsafe-go\<close> (third party): what its base
  executor does around \<open>OnFailure\<close>, the cancellation of an execution, its clock, its timers and a computed delay are fields of
  \<open>failsafe\<close>, and \<open>failsafe_ok\<close> states what its documentation says of them. Floating-point delays are fields of
  \<open>delay_ops\<close>. The listeners only log and are left out.

  The retry loop is a partial function, since a policy without a limit may retry for ever. The hedge is a step relation:
  the goroutines of its executions interleave at the granularity of their atomic operations.
\<close>

section \<open>Retry policies\<close>

record ('r, 'e) PolicyResult =
  prResult :: 'r
  prError :: "'e option"
  prDone :: bool
  prSuccess :: bool
  prSuccessAll :: bool

record ('r, 'e) retryCfg =
  returnLastFailure :: bool
  rcDelay :: i64
  delayMin :: i64
  delayMax :: i64
  delayFactor :: real
  maxDelay :: i64
  jitter :: i64
  jitterFactor :: real
  maxDuration :: i64
  maxRetries :: i64
  returnPreviousResultErrors :: "'e list"
  handleIf :: "'r \<Rightarrow> 'e option \<Rightarrow> bool"
  abortIf :: "'r \<Rightarrow> 'e option \<Rightarrow> bool"

definition defaultMaxRetries :: i64 where "defaultMaxRetries = 2"

text \<open>A policy without conditions fails on every error and aborts on nothing.\<close>

definition Builder :: "('r, 'e) retryCfg" where
  "Builder = \<lparr>returnLastFailure = False, rcDelay = 0, delayMin = 0, delayMax = 0, delayFactor = 0, maxDelay = 0, jitter = 0, jitterFactor = 0,
     maxDuration = 0, maxRetries = defaultMaxRetries, returnPreviousResultErrors = [],
     handleIf = (\<lambda>_ e. e \<noteq> None), abortIf = (\<lambda>_ _. False)\<rparr>"

definition WithMaxAttempts :: "i64 \<Rightarrow> ('r, 'e) retryCfg \<Rightarrow> ('r, 'e) retryCfg" where
  "WithMaxAttempts n c = (if n = -1 then c\<lparr>maxRetries := -1\<rparr> else c\<lparr>maxRetries := wrap64 (n - 1)\<rparr>)"

definition WithMaxRetries :: "i64 \<Rightarrow> ('r, 'e) retryCfg \<Rightarrow> ('r, 'e) retryCfg" where
  "WithMaxRetries n c = c\<lparr>maxRetries := n\<rparr>"

definition WithMaxDuration :: "i64 \<Rightarrow> ('r, 'e) retryCfg \<Rightarrow> ('r, 'e) retryCfg" where
  "WithMaxDuration d c = c\<lparr>maxDuration := d\<rparr>"

definition WithDelay :: "i64 \<Rightarrow> ('r, 'e) retryCfg \<Rightarrow> ('r, 'e) retryCfg" where
  "WithDelay d c = c\<lparr>rcDelay := d\<rparr>"

definition WithBackoffFactor :: "i64 \<Rightarrow> i64 \<Rightarrow> real \<Rightarrow> ('r, 'e) retryCfg \<Rightarrow> ('r, 'e) retryCfg" where
  "WithBackoffFactor d m f c = c\<lparr>rcDelay := d, maxDelay := m, delayFactor := f, delayMin := 0, delayMax := 0\<rparr>"

definition WithBackoff :: "i64 \<Rightarrow> i64 \<Rightarrow> ('r, 'e) retryCfg \<Rightarrow> ('r, 'e) retryCfg" where
  "WithBackoff d m c = WithBackoffFactor d m 2 c"

definition WithRandomDelay :: "i64 \<Rightarrow> i64 \<Rightarrow> ('r, 'e) retryCfg \<Rightarrow> ('r, 'e) retryCfg" where
  "WithRandomDelay lo hi c = c\<lparr>delayMin := lo, delayMax := hi, rcDelay := 0, maxDelay := 0\<rparr>"

definition WithJitter :: "i64 \<Rightarrow> ('r, 'e) retryCfg \<Rightarrow> ('r, 'e) retryCfg" where
  "WithJitter j c = c\<lparr>jitter := j\<rparr>"

definition WithJitterFactor :: "real \<Rightarrow> ('r, 'e) retryCfg \<Rightarrow> ('r, 'e) retryCfg" where
  "WithJitterFactor f c = c\<lparr>jitterFactor := f\<rparr>"

definition ReturnPreviousResultOnErrors :: "'e list \<Rightarrow> ('r, 'e) retryCfg \<Rightarrow> ('r, 'e) retryCfg" where
  "ReturnPreviousResultOnErrors es c = c\<lparr>returnPreviousResultErrors := es\<rparr>"

definition HandleIf :: "('r \<Rightarrow> 'e option \<Rightarrow> bool) \<Rightarrow> ('r, 'e) retryCfg \<Rightarrow> ('r, 'e) retryCfg" where
  "HandleIf p c = c\<lparr>handleIf := p\<rparr>"

definition ReturnLastFailure :: "('r, 'e) retryCfg \<Rightarrow> ('r, 'e) retryCfg" where
  "ReturnLastFailure c = c\<lparr>returnLastFailure := True\<rparr>"

definition allowsRetries :: "('r, 'e) retryCfg \<Rightarrow> bool" where
  "allowsRetries c \<longleftrightarrow> maxRetries c = -1 \<or> maxRetries c > 0"

section \<open>The retry executor\<close>

record retryExecutor =
  failedAttempts :: i64
  retriesExceeded :: bool
  lastDelay :: i64

definition new_retryExecutor :: retryExecutor where
  "new_retryExecutor = \<lparr>failedAttempts = 0, retriesExceeded = False, lastDelay = 0\<rparr>"

text \<open>Float arithmetic on durations: the backoff \<open>Duration(float32(d) * factor)\<close>, a draw between two delays and the
  draws of a jitter and of a jitter factor.\<close>

record 'w delay_ops =
  backoff_mul :: "real \<Rightarrow> i64 \<Rightarrow> i64"
  random_between :: "i64 \<Rightarrow> i64 \<Rightarrow> 'w \<Rightarrow> i64"
  random_jitter :: "i64 \<Rightarrow> i64 \<Rightarrow> 'w \<Rightarrow> i64"
  random_factor :: "i64 \<Rightarrow> real \<Rightarrow> 'w \<Rightarrow> i64"

text \<open>\<open>failsafe-go\<close>: the inner function, the cancellation, clock and timer of an execution, its retry counter, and
  \<open>PostExecute\<close> and \<open>WithDone\<close> of its base executor.\<close>

record ('r, 'e, 'w) failsafe =
  fs_inner :: "'w \<Rightarrow> ('r, 'e) PolicyResult \<times> 'w"
  fs_canceled :: "'w \<Rightarrow> ('r, 'e) PolicyResult option"
  fs_elapsed :: "'w \<Rightarrow> i64"
  fs_wait :: "i64 \<Rightarrow> 'w \<Rightarrow> 'w"
  fs_next :: "'w \<Rightarrow> 'w"
  fs_retries :: "'w \<Rightarrow> nat"
  fs_compute_delay :: "'w \<Rightarrow> i64"
  fs_post :: "(('r, 'e) PolicyResult \<Rightarrow> bool) \<Rightarrow> (('r, 'e) PolicyResult \<Rightarrow> retryExecutor \<Rightarrow> ('r, 'e) PolicyResult \<times> retryExecutor)
     \<Rightarrow> ('r, 'e) PolicyResult \<Rightarrow> retryExecutor \<Rightarrow> ('r, 'e) PolicyResult \<times> retryExecutor"
  fs_with_done :: "bool \<Rightarrow> bool \<Rightarrow> ('r, 'e) PolicyResult \<Rightarrow> ('r, 'e) PolicyResult"

text \<open>The zero value of the result type, and \<open>ExceededError\<close> as a value of the error type.\<close>

record ('r, 'e) retry_values =
  zero_result :: 'r
  ExceededError :: "'r \<Rightarrow> 'e option \<Rightarrow> 'e"

definition failureResult :: "('r, 'e) retry_values \<Rightarrow> 'e \<Rightarrow> ('r, 'e) PolicyResult" where
  "failureResult V err =
     \<lparr>prResult = zero_result V, prError = Some err, prDone = True, prSuccess = False, prSuccessAll = False\<rparr>"

definition getFixedOrRandomDelay ::
  "'w delay_ops \<Rightarrow> ('r, 'e) retryCfg \<Rightarrow> nat \<Rightarrow> 'w \<Rightarrow> retryExecutor \<Rightarrow> i64 \<times> retryExecutor" where
  "getFixedOrRandomDelay D c retries w st =
     (if rcDelay c \<noteq> 0 then
        (let d = (if lastDelay st \<noteq> 0 \<and> retries \<ge> 1 \<and> maxDelay c \<noteq> 0 then min (backoff_mul D (delayFactor c) (lastDelay st)) (maxDelay c)
                  else rcDelay c)
         in (d, st\<lparr>lastDelay := d\<rparr>))
      else if delayMin c \<noteq> 0 \<and> delayMax c \<noteq> 0 then (random_between D (delayMin c) (delayMax c) w, st)
      else (0, st))"

definition adjustForJitter :: "'w delay_ops \<Rightarrow> ('r, 'e) retryCfg \<Rightarrow> 'w \<Rightarrow> i64 \<Rightarrow> i64" where
  "adjustForJitter D c w d = (if jitter c \<noteq> 0 then random_jitter D d (jitter c) w
     else if jitterFactor c \<noteq> 0 then random_factor D d (jitterFactor c) w else d)"

definition adjustForMaxDuration :: "('r, 'e) retryCfg \<Rightarrow> i64 \<Rightarrow> i64 \<Rightarrow> i64" where
  "adjustForMaxDuration c d elapsed = max 0 (if maxDuration c \<noteq> 0 then min d (wrap64 (maxDuration c - elapsed)) else d)"

definition getDelay ::
  "'w delay_ops \<Rightarrow> ('r, 'e, 'w) failsafe \<Rightarrow> ('r, 'e) retryCfg \<Rightarrow> 'w \<Rightarrow> retryExecutor \<Rightarrow> i64 \<times> retryExecutor" where
  "getDelay D F c w st =
     (let computed = fs_compute_delay F w;
          (d, st) = (if computed \<noteq> -1 then (computed, st) else getFixedOrRandomDelay D c (fs_retries F w) w st);
          d = (if d \<noteq> 0 then adjustForJitter D c w d else d)
      in (adjustForMaxDuration c d (fs_elapsed F w), st))"

definition OnFailure ::
  "('r, 'e) retry_values \<Rightarrow> ('r, 'e, 'w) failsafe \<Rightarrow> ('r, 'e) retryCfg \<Rightarrow> 'w \<Rightarrow> ('r, 'e) PolicyResult \<Rightarrow> retryExecutor
     \<Rightarrow> ('r, 'e) PolicyResult \<times> retryExecutor" where
  "OnFailure V F c w result st =
     (let st = st\<lparr>failedAttempts := wrap64 (failedAttempts st + 1)\<rparr>;
          maxRetriesExceeded = (maxRetries c \<noteq> -1 \<and> failedAttempts st > maxRetries c);
          maxDurationExceeded = (maxDuration c \<noteq> 0 \<and> fs_elapsed F w > maxDuration c);
          st = st\<lparr>retriesExceeded := maxRetriesExceeded \<or> maxDurationExceeded\<rparr>;
          isAbortable = abortIf c (prResult result) (prError result);
          shouldRetry = (\<not> isAbortable \<and> \<not> retriesExceeded st \<and> allowsRetries c);
          fin = (isAbortable \<or> \<not> shouldRetry)
      in if retriesExceeded st \<and> \<not> returnLastFailure c
         then (failureResult V (ExceededError V (prResult result) (prError result)), st)
         else (fs_with_done F fin False result, st))"

definition PostExecute ::
  "('r, 'e) retry_values \<Rightarrow> ('r, 'e, 'w) failsafe \<Rightarrow> ('r, 'e) retryCfg \<Rightarrow> 'w \<Rightarrow> ('r, 'e) PolicyResult \<Rightarrow> retryExecutor
     \<Rightarrow> ('r, 'e) PolicyResult \<times> retryExecutor" where
  "PostExecute V F c w result st =
     fs_post F (\<lambda>r. handleIf c (prResult r) (prError r)) (OnFailure V F c w) result st"

definition previous_success :: "('r, 'e) PolicyResult \<Rightarrow> ('r, 'e) PolicyResult" where
  "previous_success p =
     \<lparr>prResult = prResult p, prError = prError p, prDone = True, prSuccess = True, prSuccessAll = True\<rparr>"

text \<open>One turn of the loop of \<open>Apply\<close>: \<open>Inl\<close> is what the loop returns, \<open>Inr\<close> the state of its next turn.
  \<open>RecordResult\<close> and \<open>InitializeRetry\<close> return the result of a cancellation, if there was one.\<close>

definition retry_turn ::
  "('r, 'e) retry_values \<Rightarrow> 'w delay_ops \<Rightarrow> ('r, 'e, 'w) failsafe \<Rightarrow> ('r, 'e) retryCfg \<Rightarrow> ('r, 'e) PolicyResult option
     \<Rightarrow> retryExecutor \<Rightarrow> 'w \<Rightarrow> (('r, 'e) PolicyResult \<times> retryExecutor \<times> 'w) + (('r, 'e) PolicyResult \<times> retryExecutor \<times> 'w)" where
  "retry_turn V D F c prevResult st w =
     (let (result, w) = fs_inner F w in
      case fs_canceled F w of
        Some cancelResult \<Rightarrow> Inl (cancelResult, st, w)
      | None \<Rightarrow>
          if retriesExceeded st then Inl (result, st, w)
          else
            (let (result, st) = PostExecute V F c w result st in
             case (if prDone result \<and> list_ex (\<lambda>e. prError result = Some e) (returnPreviousResultErrors c) then prevResult else None) of
               Some p \<Rightarrow> Inl (previous_success p, st, w)
             | None \<Rightarrow>
                 if prDone result then Inl (result, st, w)
                 else case fs_canceled F w of
                        Some cancelResult \<Rightarrow> Inl (cancelResult, st, w)
                      | None \<Rightarrow>
                          (let (delay, st) = getDelay D F c w st;
                               w = fs_wait F delay w
                           in case fs_canceled F w of
                                Some cancelResult \<Rightarrow> Inl (cancelResult, st, w)
                              | None \<Rightarrow> Inr (result, st, fs_next F w))))"

partial_function (option) retry_loop ::
  "('r, 'e) retry_values \<Rightarrow> 'w delay_ops \<Rightarrow> ('r, 'e, 'w) failsafe \<Rightarrow> ('r, 'e) retryCfg \<Rightarrow> ('r, 'e) PolicyResult option
     \<Rightarrow> retryExecutor \<Rightarrow> 'w \<Rightarrow> (('r, 'e) PolicyResult \<times> retryExecutor \<times> 'w) option" where
  "retry_loop V D F c prevResult st w =
     (case retry_turn V D F c prevResult st w of
        Inl final \<Rightarrow> Some final
      | Inr (result, st, w) \<Rightarrow> retry_loop V D F c (Some result) st w)"

declare retry_loop.simps [code]

definition retry_Apply ::
  "('r, 'e) retry_values \<Rightarrow> 'w delay_ops \<Rightarrow> ('r, 'e, 'w) failsafe \<Rightarrow> ('r, 'e) retryCfg \<Rightarrow> 'w \<Rightarrow> (('r, 'e) PolicyResult \<times> 'w) option" where
  "retry_Apply V D F c w = map_option (\<lambda>(r, st, w). (r, w)) (retry_loop V D F c None new_retryExecutor w)"

section \<open>The policies of the flow and of an upstream\<close>

definition with_retry_config :: "RetryConfig \<Rightarrow> ('r, 'e) retryCfg \<Rightarrow> ('r, 'e) retryCfg" where
  "with_retry_config r c =
     (let c = (if Attempts r > 0 then WithMaxAttempts (Attempts r) c else c);
          c = (if retryDelay r > 0 then
                 (case MaxDelay r of
                    Some m \<Rightarrow> if m > 0 then WithBackoff (retryDelay r) m c else WithDelay (retryDelay r) c
                  | None \<Rightarrow> WithDelay (retryDelay r) c)
               else c)
      in case Jitter r of Some j \<Rightarrow> if j > 0 then WithJitter j c else c | None \<Rightarrow> c)"

definition flow_failure :: "ErrorConfigs \<Rightarrow> ResponseHolderWrapper option \<Rightarrow> call_error option \<Rightarrow> bool" where
  "flow_failure E wrapper err \<longleftrightarrow>
     err \<noteq> Some StopRetryErr \<and> (case wrapper of Some x \<Rightarrow> IsRetryable E (wrResponse x) | None \<Rightarrow> False)"

definition CreateFlowRetryPolicy :: "ErrorConfigs \<Rightarrow> RetryConfig \<Rightarrow> (ResponseHolderWrapper option, call_error) retryCfg" where
  "CreateFlowRetryPolicy E r =
     ReturnLastFailure (ReturnPreviousResultOnErrors [StopRetryErr] (HandleIf (flow_failure E) (with_retry_config r Builder)))"

section \<open>What failsafe-go promises\<close>

text \<open>A failed result goes through \<open>OnFailure\<close> and any other is done; marking a result done changes neither its value
  nor its error; without a cancellation the execution just goes on.\<close>

definition failsafe_ok :: "('r, 'e, 'w) failsafe \<Rightarrow> bool" where
  "failsafe_ok F \<longleftrightarrow>
     (\<forall>failed onFailure r st. fs_post F failed onFailure r st =
        (if failed r then onFailure (r\<lparr>prSuccess := False, prSuccessAll := False\<rparr>) st else (fs_with_done F True True r, st)))
   \<and> (\<forall>d s r. fs_with_done F d s r = r\<lparr>prDone := d, prSuccess := s, prSuccessAll := s\<rparr>)"

lemma failsafe_post:
  "failsafe_ok F \<Longrightarrow> PostExecute V F c w r st =
     (if handleIf c (prResult r) (prError r) then OnFailure V F c w (r\<lparr>prSuccess := False, prSuccessAll := False\<rparr>) st
      else (r\<lparr>prDone := True, prSuccess := True, prSuccessAll := True\<rparr>, st))"
  by (simp add: failsafe_ok_def PostExecute_def)

lemma failsafe_done: "failsafe_ok F \<Longrightarrow> fs_with_done F d s r = r\<lparr>prDone := d, prSuccess := s, prSuccessAll := s\<rparr>"
  by (simp add: failsafe_ok_def)

lemma getDelay_state: "getDelay D F c w st = (d, st') \<Longrightarrow> \<exists>l. st' = st\<lparr>lastDelay := l\<rparr> \<and> 0 \<le> d"
proof -
  assume g: "getDelay D F c w st = (d, st')"
  obtain d1 st1 where f: "getFixedOrRandomDelay D c (fs_retries F w) w st = (d1, st1)"
    by (cases "getFixedOrRandomDelay D c (fs_retries F w) w st")
  then have "\<exists>l. st1 = st\<lparr>lastDelay := l\<rparr>"
    by (auto simp: getFixedOrRandomDelay_def Let_def split: if_splits intro: exI [of _ "lastDelay st"])
  moreover from g f have "st' = st1 \<or> st' = st" "0 \<le> d"
    by (auto simp: getDelay_def Let_def adjustForMaxDuration_def split: if_splits)
  moreover have "st = st\<lparr>lastDelay := lastDelay st\<rparr>" by simp
  ultimately show ?thesis by metis
qed

text \<open>Going on to another attempt means that this one failed, that it may be retried and that there is budget left.\<close>

lemma turn_goes_on:
  assumes "failsafe_ok F" "retry_turn V D F c prev st w = Inr (r, st', w')"
  shows "failedAttempts st' = wrap64 (failedAttempts st + 1) \<and> \<not> retriesExceeded st' \<and> allowsRetries c
    \<and> (maxRetries c \<noteq> -1 \<longrightarrow> failedAttempts st' \<le> maxRetries c)
    \<and> (\<exists>d. w' = fs_next F (fs_wait F d (snd (fs_inner F w))) \<and> 0 \<le> d)"
proof -
  obtain r0 w0 where i: "fs_inner F w = (r0, w0)" by (cases "fs_inner F w")
  obtain r1 st1 where p: "PostExecute V F c w0 r0 st = (r1, st1)" by (cases "PostExecute V F c w0 r0 st")
  obtain d st2 where g: "getDelay D F c w0 st1 = (d, st2)" by (cases "getDelay D F c w0 st1")
  from assms(2) i p g have nd: "\<not> prDone r1" and eq: "r = r1" "st' = st2" "w' = fs_next F (fs_wait F d w0)"
    by (auto simp: retry_turn_def Let_def split: option.splits if_splits)
  from nd p have fail: "OnFailure V F c w0 (r0\<lparr>prSuccess := False, prSuccessAll := False\<rparr>) st = (r1, st1)"
    by (auto simp: failsafe_post [OF assms(1)] split: if_splits)
  with nd have "failedAttempts st1 = wrap64 (failedAttempts st + 1) \<and> \<not> retriesExceeded st1 \<and> allowsRetries c
    \<and> (maxRetries c \<noteq> -1 \<longrightarrow> failedAttempts st1 \<le> maxRetries c)"
    by (auto simp: OnFailure_def Let_def failsafe_done [OF assms(1)] failureResult_def split: if_splits)
  with eq i getDelay_state [OF g] show ?thesis by auto
qed

lemma retry_bounded_aux:
  assumes ok: "failsafe_ok F" and n: "maxRetries c = int n" "int n < 2 ^ 63 - 1"
    and calls: "\<And>w. calls (snd (fs_inner F w)) = Suc (calls w)" "\<And>d w. calls (fs_wait F d w) = calls w" "\<And>w. calls (fs_next F w) = calls w"
  shows "failedAttempts st = int k \<Longrightarrow> k \<le> n \<Longrightarrow> \<not> retriesExceeded st \<Longrightarrow>
    \<exists>r st' w'. retry_loop V D F c prev st w = Some (r, st', w') \<and> calls w' \<le> calls w + (n - k) + 1"
proof (induction "n - k" arbitrary: k prev st w rule: less_induct)
  case less
  show ?case
  proof (cases "retry_turn V D F c prev st w")
    case (Inl x)
    obtain r st' w' where [simp]: "x = (r, st', w')" by (cases x)
    obtain r0 w0 where i: "fs_inner F w = (r0, w0)" by (cases "fs_inner F w")
    from Inl i calls(1) [of w] calls(2) have "calls w' = Suc (calls w)"
      by (auto simp: retry_turn_def Let_def split: option.splits if_splits prod.splits)
    with Inl show ?thesis by (subst retry_loop.simps) simp
  next
    case (Inr x)
    obtain r st' w' where [simp]: "x = (r, st', w')" by (cases x)
    note t = turn_goes_on [OF ok Inr [simplified]]
    from less.prems n have "in_i64 (int k + 1)" by (simp add: in_i64_def)
    with t less.prems n have st': "failedAttempts st' = int (Suc k)" "Suc k \<le> n" by (auto simp: wrap64_id)
    from st'(2) have "n - Suc k < n - k" by simp
    from less.hyps [OF this st'] t obtain r' st'' w'' where
      "retry_loop V D F c (Some r) st' w' = Some (r', st'', w'')" "calls w'' \<le> calls w' + (n - Suc k) + 1" by blast
    moreover have "calls w' = Suc (calls w)" using t calls by auto
    ultimately show ?thesis using Inr st'(2) by (subst retry_loop.simps) simp
  qed
qed

section \<open>The answer of a retried request\<close>

text \<open>An execution whose attempt \<open>k\<close> has the outcome \<open>out k\<close>, not cancelled.\<close>

definition attempts_of :: "('r, 'e, nat) failsafe \<Rightarrow> (nat \<Rightarrow> 'r \<times> 'e option) \<Rightarrow> bool" where
  "attempts_of F out \<longleftrightarrow>
     (\<forall>k. snd (fs_inner F k) = k \<and> prResult (fst (fs_inner F k)) = fst (out k) \<and> prError (fst (fs_inner F k)) = snd (out k))
   \<and> (\<forall>k. fs_canceled F k = None) \<and> (\<forall>d k. fs_wait F d k = k) \<and> (\<forall>k. fs_next F k = Suc k)"

text \<open>The first outcome that is no failure, or the last one there is budget for; when that outcome only says that
  there is nothing left to try, the one before it.\<close>

definition flow_answer :: "ErrorConfigs \<Rightarrow> nat \<Rightarrow> (nat \<Rightarrow> ResponseHolderWrapper option \<times> call_error option)
     \<Rightarrow> ResponseHolderWrapper option \<times> call_error option" where
  "flow_answer E n out =
     (let m = (LEAST k. k = n \<or> \<not> flow_failure E (fst (out k)) (snd (out k)))
      in if snd (out m) = Some StopRetryErr \<and> 0 < m then out (m - 1) else out m)"

definition retries_of :: "RetryConfig \<Rightarrow> nat" where
  "retries_of r = (if Attempts r > 0 then nat (Attempts r - 1) else 2)"

lemma flow_policy:
  assumes "in_i64 (Attempts r)"
  shows "handleIf (CreateFlowRetryPolicy E r) = flow_failure E" "abortIf (CreateFlowRetryPolicy E r) = (\<lambda>_ _. False)"
    "maxRetries (CreateFlowRetryPolicy E r) = int (retries_of r)" "returnLastFailure (CreateFlowRetryPolicy E r)"
    "returnPreviousResultErrors (CreateFlowRetryPolicy E r) = [StopRetryErr]" "maxDuration (CreateFlowRetryPolicy E r) = 0"
proof -
  have w: "Attempts r > 0 \<Longrightarrow> wrap64 (Attempts r - 1) = Attempts r - 1"
    using assms by (intro wrap64_id) (simp add: in_i64_def)
  note defs = CreateFlowRetryPolicy_def with_retry_config_def ReturnLastFailure_def ReturnPreviousResultOnErrors_def
    HandleIf_def Let_def WithMaxAttempts_def WithBackoff_def WithBackoffFactor_def WithDelay_def WithJitter_def Builder_def
  show "handleIf (CreateFlowRetryPolicy E r) = flow_failure E" "returnLastFailure (CreateFlowRetryPolicy E r)"
    "returnPreviousResultErrors (CreateFlowRetryPolicy E r) = [StopRetryErr]" by (simp_all add: defs)
  show "abortIf (CreateFlowRetryPolicy E r) = (\<lambda>_ _. False)" "maxDuration (CreateFlowRetryPolicy E r) = 0"
    by (simp_all add: defs split: option.split)
  show "maxRetries (CreateFlowRetryPolicy E r) = int (retries_of r)"
    using w by (auto simp: defs retries_of_def defaultMaxRetries_def split: option.split)
qed

lemma flow_turn_fails:
  assumes ok: "failsafe_ok F" and att: "attempts_of F out" and r: "in_i64 (Attempts r)"
    and fail: "flow_failure E (fst (out k)) (snd (out k))" and st: "failedAttempts st = int k" "\<not> retriesExceeded st" "k \<le> retries_of r"
  shows "if k = retries_of r
    then \<exists>res st'. retry_turn V D F (CreateFlowRetryPolicy E r) prev st k = Inl (res, st', k) \<and> (prResult res, prError res) = out k
    else \<exists>res st'. retry_turn V D F (CreateFlowRetryPolicy E r) prev st k = Inr (res, st', Suc k) \<and> (prResult res, prError res) = out k
      \<and> failedAttempts st' = int (Suc k) \<and> \<not> retriesExceeded st'"
proof -
  let ?c = "CreateFlowRetryPolicy E r"
  note pol = flow_policy [OF r, of E]
  obtain r0 where i: "fs_inner F k = (r0, k)" "prResult r0 = fst (out k)" "prError r0 = snd (out k)"
    using att by (cases "fs_inner F k") (metis attempts_of_def fst_conv snd_conv)
  have att': "fs_canceled F x = None" "fs_wait F d x = x" "fs_next F x = Suc x" for x d using att by (simp_all add: attempts_of_def)
  have "retries_of r < 2 ^ 63 - 1" using r by (auto simp: retries_of_def in_i64_def)
  then have "in_i64 (int k + 1)" using st by (simp add: in_i64_def)
  then have fa: "wrap64 (int k + 1) = int k + 1" by (rule wrap64_id)
  let ?st1 = "st\<lparr>failedAttempts := int k + 1, retriesExceeded := int (retries_of r) < int k + 1\<rparr>"
  let ?r1 = "r0\<lparr>prDone := \<not> (k < retries_of r), prSuccess := False, prSuccessAll := False\<rparr>"
  have "allowsRetries ?c \<longleftrightarrow> 0 < retries_of r" by (simp add: allowsRetries_def pol)
  then have post: "PostExecute V F ?c k r0 st = (?r1, ?st1)"
    using fail i fa st
    by (cases "k = retries_of r") (auto simp: failsafe_post [OF ok] pol OnFailure_def Let_def failsafe_done [OF ok])
  have ns: "snd (out k) \<noteq> Some StopRetryErr" using fail by (auto simp: flow_failure_def)
  obtain d st2 where g: "getDelay D F ?c k ?st1 = (d, st2)" by (cases "getDelay D F ?c k ?st1")
  from getDelay_state [OF g] show ?thesis
    using i post ns g st by (auto simp: retry_turn_def att' pol)
qed

lemma flow_turn_ends:
  assumes ok: "failsafe_ok F" and att: "attempts_of F out" and r: "in_i64 (Attempts r)"
    and fine: "\<not> flow_failure E (fst (out k)) (snd (out k))" and st: "\<not> retriesExceeded st"
    and prev: "if k = 0 then prev = None else \<exists>p. prev = Some p \<and> (prResult p, prError p) = out (k - 1)"
  shows "\<exists>res st'. retry_turn V D F (CreateFlowRetryPolicy E r) prev st k = Inl (res, st', k)
     \<and> (prResult res, prError res) = (if snd (out k) = Some StopRetryErr \<and> 0 < k then out (k - 1) else out k)"
proof -
  note pol = flow_policy [OF r, of E]
  obtain r0 where i: "fs_inner F k = (r0, k)" "prResult r0 = fst (out k)" "prError r0 = snd (out k)"
    using att by (cases "fs_inner F k") (metis attempts_of_def fst_conv snd_conv)
  have att': "fs_canceled F x = None" for x using att by (simp add: attempts_of_def)
  have post: "PostExecute V F (CreateFlowRetryPolicy E r) k r0 st = (r0\<lparr>prDone := True, prSuccess := True, prSuccessAll := True\<rparr>, st)"
    using fine i by (simp add: failsafe_post [OF ok] pol)
  show ?thesis
  proof (cases "snd (out k) = Some StopRetryErr \<and> 0 < k")
    case True
    with prev obtain p where "prev = Some p" "(prResult p, prError p) = out (k - 1)" by auto
    with True i post st show ?thesis by (simp add: retry_turn_def att' pol previous_success_def)
  next
    case False
    with prev i post st show ?thesis by (cases "k = 0") (auto simp: retry_turn_def att' pol)
  qed
qed

lemma flow_retry_aux:
  assumes ok: "failsafe_ok F" and att: "attempts_of F out" and r: "in_i64 (Attempts r)"
    and m: "m = (LEAST k. k = retries_of r \<or> \<not> flow_failure E (fst (out k)) (snd (out k)))"
  shows "k \<le> m \<Longrightarrow> failedAttempts st = int k \<Longrightarrow> \<not> retriesExceeded st \<Longrightarrow>
    (if k = 0 then prev = None else \<exists>p. prev = Some p \<and> (prResult p, prError p) = out (k - 1)) \<Longrightarrow>
    \<exists>res st' w'. retry_loop V D F (CreateFlowRetryPolicy E r) prev st k = Some (res, st', w')
      \<and> (prResult res, prError res) = flow_answer E (retries_of r) out"
proof (induction "m - k" arbitrary: k st prev rule: less_induct)
  case less
  have mP: "m = retries_of r \<or> \<not> flow_failure E (fst (out m)) (snd (out m))" unfolding m by (rule LeastI [of _ "retries_of r"]) simp
  have mle: "m \<le> retries_of r" unfolding m by (rule Least_le) simp
  show ?case
  proof (cases "flow_failure E (fst (out k)) (snd (out k))")
    case True
    note turn = flow_turn_fails [OF ok att r True less.prems(2,3), of V D prev]
    show ?thesis
    proof (cases "k = m")
      case km: True
      with mP True have "k = retries_of r" by simp
      with turn obtain res st' where "retry_turn V D F (CreateFlowRetryPolicy E r) prev st k = Inl (res, st', k)"
        "(prResult res, prError res) = out k" by auto
      moreover have "flow_answer E (retries_of r) out = out k"
        using True unfolding flow_answer_def m [symmetric] km [symmetric] by (auto simp: flow_failure_def)
      ultimately show ?thesis by (subst retry_loop.simps) auto
    next
      case False
      with less.prems(1) mle have "k < retries_of r" "k < m" by simp_all
      with turn obtain res st' where t: "retry_turn V D F (CreateFlowRetryPolicy E r) prev st k = Inr (res, st', Suc k)"
        "(prResult res, prError res) = out k" "failedAttempts st' = int (Suc k)" "\<not> retriesExceeded st'" by auto
      from less.hyps [of "Suc k" st' "Some res"] t \<open>k < m\<close> show ?thesis by (subst retry_loop.simps) auto
    qed
  next
    case False
    then have "m \<le> k" unfolding m by (intro Least_le) simp
    with less.prems(1) have km: "k = m" by simp
    from flow_turn_ends [OF ok att r False less.prems(3,4), of V D] obtain res st' where
      "retry_turn V D F (CreateFlowRetryPolicy E r) prev st k = Inl (res, st', k)"
      "(prResult res, prError res) = (if snd (out k) = Some StopRetryErr \<and> 0 < k then out (k - 1) else out k)" by blast
    then show ?thesis unfolding flow_answer_def m [symmetric] km [symmetric] by (subst retry_loop.simps) (auto simp: Let_def)
  qed
qed

section \<open>Parallel hedges\<close>

fun ResultType_code :: "ResultType \<Rightarrow> nat" where
  "ResultType_code ResultOk = 0"
| "ResultType_code ResultOkWithError = 1"
| "ResultType_code ResultPartialFailure = 2"
| "ResultType_code ResultTotalFailure = 3"
| "ResultType_code ResultStop = 4"

lemma ResultType_code_inject [simp]: "ResultType_code a = ResultType_code b \<longleftrightarrow> a = b"
  by (cases a; cases b) simp_all

instantiation ResultType :: linorder
begin

definition less_eq_ResultType :: "ResultType \<Rightarrow> ResultType \<Rightarrow> bool" where
  "less_eq_ResultType a b \<longleftrightarrow> ResultType_code a \<le> ResultType_code b"

definition less_ResultType :: "ResultType \<Rightarrow> ResultType \<Rightarrow> bool" where
  "less_ResultType a b \<longleftrightarrow> ResultType_code a < ResultType_code b"

instance
  by standard (auto simp: less_eq_ResultType_def less_ResultType_def)

end

text \<open>Where an execution stands: not started, in its inner function, counted, its result stored as the last one, or
  through. Its outcome comes with \<open>noNeedToHedge\<close>: whether it is the first execution and was faster than the delay.\<close>

datatype 'r hedge_pc =
    Idle
  | Running
  | Counted (pcResult: 'r) (pcEarly: bool) (pcFinal: bool)
  | Stored (pcResult: 'r) (pcEarly: bool)
  | Ended (pcResult: 'r) (pcEarly: bool)

record 'r hedge_state =
  resultCount :: nat
  resultSent :: bool
  resultChan :: "(nat \<times> 'r) option"
  possibleResults :: "(nat, 'r) gomap"
  executions :: "nat \<Rightarrow> 'r hedge_pc"
  hedgesStarted :: bool
  hedgeReturned :: "(nat \<times> 'r) option"

definition hedge_start :: "'r hedge_state" where
  "hedge_start = \<lparr>resultCount = 0, resultSent = False, resultChan = None, possibleResults = [],
     executions = (\<lambda>i. if i = 0 then Running else Idle), hedgesStarted = False, hedgeReturned = None\<rparr>"

text \<open>\<open>lo.MinBy\<close>: the first element no other is less than.\<close>

fun min_by :: "('a \<Rightarrow> 'a \<Rightarrow> bool) \<Rightarrow> 'a \<Rightarrow> 'a list \<Rightarrow> 'a" where
  "min_by lt m [] = m"
| "min_by lt m (x # xs) = min_by lt (if lt x m then x else m) xs"

text \<open>The steps of \<open>Apply\<close> for \<open>n\<close> hedges: \<open>abortable\<close> is the policy's \<open>IsAbortable\<close> and \<open>rtype\<close> its \<open>resultTypeFunc\<close>. The
  exchange of \<open>resultSent\<close> and the send on the buffered channel, which never blocks, are one step. A \<open>Range\<close> over the
  concurrent map sees the entry its goroutine stored and any of the others.\<close>

inductive hedge_step :: "nat \<Rightarrow> ('r \<Rightarrow> bool) \<Rightarrow> ('r \<Rightarrow> ResultType) \<Rightarrow> 'r hedge_state \<Rightarrow> 'r hedge_state \<Rightarrow> bool"
  for n abortable rtype where
  finish: "executions s i = Running \<Longrightarrow> (early \<longrightarrow> i = 0) \<Longrightarrow>
    hedge_step n abortable rtype s (s\<lparr>resultCount := Suc (resultCount s),
      executions := (executions s)(i := Counted r early (Suc (resultCount s) = n + 1))\<rparr>)"
| send: "executions s i = Counted r early fin \<Longrightarrow> abortable r \<or> early \<Longrightarrow> \<not> resultSent s \<Longrightarrow>
    hedge_step n abortable rtype s (s\<lparr>resultSent := True, resultChan := Some (i, r),
      executions := (executions s)(i := Ended r early)\<rparr>)"
| store: "executions s i = Counted r early fin \<Longrightarrow> \<not> ((abortable r \<or> early) \<and> \<not> resultSent s) \<Longrightarrow>
    hedge_step n abortable rtype s (s\<lparr>possibleResults := AList.update i r (possibleResults s),
      executions := (executions s)(i := (if fin then Stored r early else Ended r early))\<rparr>)"
| pick: "executions s i = Stored r early \<Longrightarrow> set (p # ps) \<subseteq> set (possibleResults s) \<Longrightarrow> (i, r) \<in> set (p # ps) \<Longrightarrow>
    best = min_by (\<lambda>a b. rtype (snd a) < rtype (snd b)) p ps \<Longrightarrow>
    hedge_step n abortable rtype s
      ((if resultSent s then s else s\<lparr>resultSent := True, resultChan := Some best\<rparr>)
        \<lparr>executions := (executions s)(i := Ended r early)\<rparr>)"
| timer: "\<not> hedgesStarted s \<Longrightarrow> hedgeReturned s = None \<Longrightarrow>
    hedge_step n abortable rtype s (s\<lparr>hedgesStarted := True,
      executions := (\<lambda>i. if 1 \<le> i \<and> i \<le> n then Running else executions s i)\<rparr>)"
| receive: "resultChan s = Some x \<Longrightarrow> hedgeReturned s = None \<Longrightarrow>
    hedge_step n abortable rtype s (s\<lparr>hedgeReturned := Some x\<rparr>)"

inductive hedge_runs :: "nat \<Rightarrow> ('r \<Rightarrow> bool) \<Rightarrow> ('r \<Rightarrow> ResultType) \<Rightarrow> 'r hedge_state \<Rightarrow> bool" for n abortable rtype where
  hedge_first: "hedge_runs n abortable rtype hedge_start"
| hedge_next: "hedge_runs n abortable rtype s \<Longrightarrow> hedge_step n abortable rtype s s' \<Longrightarrow> hedge_runs n abortable rtype s'"

inductive_cases hedge_stepE: "hedge_step n abortable rtype s s'"

definition CreateFlowHedge_abort :: "ResponseHolderWrapper option \<times> call_error option \<Rightarrow> bool" where
  "CreateFlowHedge_abort r = (case fst r of Some x \<Rightarrow> \<not> HasError (wrResponse x) | None \<Rightarrow> False)"

section \<open>The invariant of a hedge\<close>

definition counted :: "'r hedge_pc \<Rightarrow> bool" where
  "counted p \<longleftrightarrow> p \<noteq> Idle \<and> p \<noteq> Running"

definition outcome :: "'r hedge_state \<Rightarrow> nat \<Rightarrow> 'r \<Rightarrow> bool \<Rightarrow> bool" where
  "outcome s i r early \<longleftrightarrow> counted (executions s i) \<and> pcResult (executions s i) = r \<and> pcEarly (executions s i) = early"

definition finishing :: "'r hedge_pc \<Rightarrow> bool" where
  "finishing p \<longleftrightarrow> (case p of Counted _ _ f \<Rightarrow> f | Stored _ _ \<Rightarrow> True | _ \<Rightarrow> False)"

definition hedge_inv :: "nat \<Rightarrow> ('r \<Rightarrow> bool) \<Rightarrow> 'r hedge_state \<Rightarrow> bool" where
  "hedge_inv n abortable s \<longleftrightarrow>
     resultCount s = card {i. counted (executions s i)} \<and> {i. executions s i \<noteq> Idle} \<subseteq> {..n} \<and> executions s 0 \<noteq> Idle
   \<and> (\<forall>i. 1 \<le> i \<longrightarrow> i \<le> n \<longrightarrow> executions s i = Idle \<longleftrightarrow> \<not> hedgesStarted s)
   \<and> (resultSent s \<longleftrightarrow> resultChan s \<noteq> None) \<and> (\<forall>x. hedgeReturned s = Some x \<longrightarrow> resultChan s = Some x)
   \<and> (\<forall>(i, r) \<in> set (possibleResults s). \<exists>e. outcome s i r e)
   \<and> (\<forall>i r e. executions s i = Stored r e \<longrightarrow> (i, r) \<in> set (possibleResults s))
   \<and> (resultCount s = n + 1 \<longrightarrow> \<not> resultSent s \<longrightarrow> (\<exists>i. finishing (executions s i)))
   \<and> (\<forall>i. finishing (executions s i) \<longrightarrow> resultCount s = n + 1)
   \<and> (\<forall>i r. resultChan s = Some (i, r) \<longrightarrow> (\<exists>e. outcome s i r e \<and> (abortable r \<or> e \<or> resultCount s = n + 1)))"

lemma min_by_in: "min_by lt m xs \<in> set (m # xs)"
proof (induction xs arbitrary: m)
  case (Cons x xs)
  from Cons.IH [of "if lt x m then x else m"] show ?case by (auto split: if_splits)
qed simp

lemma finite_started: "{i. executions s i \<noteq> Idle} \<subseteq> {..n} \<Longrightarrow> finite {i. counted (executions s i)}"
  by (rule finite_subset [of _ "{..n}"]) (auto simp: counted_def)

lemma finish_card:
  assumes "finite {i. counted (f i)}" "\<not> counted (f j)" "counted p"
  shows "card {i. counted ((f(j := p)) i)} = Suc (card {i. counted (f i)})"
proof -
  have "{i. counted ((f(j := p)) i)} = insert j {i. counted (f i)}" using assms(3) by auto
  with assms show ?thesis by simp
qed

lemma same_counted:
  assumes "counted (f j)" "counted p"
  shows "{i. counted ((f(j := p)) i)} = {i. counted (f i)}"
  using assms by auto

lemma running_count:
  assumes "hedge_inv n abortable s" "executions s i = Running"
  shows "resultCount s \<le> n"
proof -
  from assms have sub: "{j. counted (executions s j)} \<subseteq> {..n} - {i}" "i \<le> n"
    by (auto simp: hedge_inv_def counted_def)
  have "card {j. counted (executions s j)} \<le> card ({..n} - {i})" by (rule card_mono) (use sub in auto)
  with sub(2) assms(1) show ?thesis by (simp add: hedge_inv_def)
qed

lemma hedge_invD:
  assumes "hedge_inv n abortable s"
  shows "resultCount s = card {i. counted (executions s i)}" "{i. executions s i \<noteq> Idle} \<subseteq> {..n}" "executions s 0 \<noteq> Idle"
    "\<And>i. 1 \<le> i \<Longrightarrow> i \<le> n \<Longrightarrow> executions s i = Idle \<longleftrightarrow> \<not> hedgesStarted s"
    "resultSent s \<longleftrightarrow> resultChan s \<noteq> None" "\<And>x. hedgeReturned s = Some x \<Longrightarrow> resultChan s = Some x"
    "\<And>i r. (i, r) \<in> set (possibleResults s) \<Longrightarrow> \<exists>e. outcome s i r e"
    "\<And>i r e. executions s i = Stored r e \<Longrightarrow> (i, r) \<in> set (possibleResults s)"
    "resultCount s = n + 1 \<Longrightarrow> \<not> resultSent s \<Longrightarrow> \<exists>i. finishing (executions s i)"
    "\<And>i. finishing (executions s i) \<Longrightarrow> resultCount s = n + 1"
    "\<And>i r. resultChan s = Some (i, r) \<Longrightarrow> \<exists>e. outcome s i r e \<and> (abortable r \<or> e \<or> resultCount s = n + 1)"
  using assms unfolding hedge_inv_def by blast+

lemma hedge_invI:
  assumes "resultCount s = card {i. counted (executions s i)}" "{i. executions s i \<noteq> Idle} \<subseteq> {..n}" "executions s 0 \<noteq> Idle"
    "\<And>i. 1 \<le> i \<Longrightarrow> i \<le> n \<Longrightarrow> executions s i = Idle \<longleftrightarrow> \<not> hedgesStarted s"
    "resultSent s \<longleftrightarrow> resultChan s \<noteq> None" "\<And>x. hedgeReturned s = Some x \<Longrightarrow> resultChan s = Some x"
    "\<And>i r. (i, r) \<in> set (possibleResults s) \<Longrightarrow> \<exists>e. outcome s i r e"
    "\<And>i r e. executions s i = Stored r e \<Longrightarrow> (i, r) \<in> set (possibleResults s)"
    "resultCount s = n + 1 \<Longrightarrow> \<not> resultSent s \<Longrightarrow> \<exists>i. finishing (executions s i)"
    "\<And>i. finishing (executions s i) \<Longrightarrow> resultCount s = n + 1"
    "\<And>i r. resultChan s = Some (i, r) \<Longrightarrow> \<exists>e. outcome s i r e \<and> (abortable r \<or> e \<or> resultCount s = n + 1)"
  shows "hedge_inv n abortable s"
  unfolding hedge_inv_def using assms by blast

lemma inv_finish:
  assumes inv: "hedge_inv n abortable s" and run: "executions s i = Running"
  shows "hedge_inv n abortable (s\<lparr>resultCount := Suc (resultCount s),
      executions := (executions s)(i := Counted r early (Suc (resultCount s) = n + 1))\<rparr>)" (is "hedge_inv _ _ ?s")
proof -
  note D = hedge_invD [OF inv]
  have le: "resultCount s \<le> n" by (rule running_count [OF inv run])
  have nf: "\<not> finishing (executions s j)" for j using D(10) [of j] le by auto
  have keep: "outcome s j x e \<Longrightarrow> outcome ?s j x e" for j x e using run by (auto simp: outcome_def counted_def)
  have il: "i \<le> n" using D(2) run by force
  show ?thesis
  proof (rule hedge_invI)
    show "resultCount ?s = card {i. counted (executions ?s i)}"
      using D(1) finish_card [OF finite_started [OF D(2)], of i "Counted r early (Suc (resultCount s) = n + 1)"] run
      by (simp add: counted_def)
    show "{i. executions ?s i \<noteq> Idle} \<subseteq> {..n}" using D(2) il by auto
    show "executions ?s j = Idle \<longleftrightarrow> \<not> hedgesStarted ?s" if "1 \<le> j" "j \<le> n" for j
      using D(4) [OF that] run by (cases "j = i") auto
    show "\<exists>e. outcome ?s j x e" if "(j, x) \<in> set (possibleResults ?s)" for j x
    proof -
      from that have "(j, x) \<in> set (possibleResults s)" by (simp split: if_splits)
      from D(7) [OF this] keep show ?thesis by blast
    qed
    show "\<exists>e. outcome ?s j x e \<and> (abortable x \<or> e \<or> resultCount ?s = n + 1)" if "resultChan ?s = Some (j, x)" for j x
    proof -
      from D(11) [of j x] that le obtain e where "outcome s j x e" "abortable x \<or> e" by auto
      with keep show ?thesis by blast
    qed
    show "\<exists>j. finishing (executions ?s j)" if "resultCount ?s = n + 1" "\<not> resultSent ?s"
      using that by (intro exI [of _ i]) (simp add: finishing_def)
    show "resultCount ?s = n + 1" if "finishing (executions ?s j)" for j
      using that nf by (auto simp: finishing_def split: if_splits)
  qed (use D(3,5,6,8) run in \<open>auto split: if_splits\<close>)
qed

lemma inv_send:
  assumes inv: "hedge_inv n abortable s" and pc: "executions s i = Counted r early fin" "abortable r \<or> early" "\<not> resultSent s"
  shows "hedge_inv n abortable (s\<lparr>resultSent := True, resultChan := Some (i, r), executions := (executions s)(i := Ended r early)\<rparr>)"
    (is "hedge_inv _ _ ?s")
proof -
  note D = hedge_invD [OF inv]
  have keep: "outcome s j x e \<Longrightarrow> outcome ?s j x e" for j x e using pc by (auto simp: outcome_def counted_def)
  have ret: "hedgeReturned s = None" using D(5,6) pc by fastforce
  have il: "i \<le> n" using D(2) pc(1) by force
  show ?thesis
  proof (rule hedge_invI)
    show "resultCount ?s = card {i. counted (executions ?s i)}"
      using D(1) same_counted [of "executions s" i "Ended r early"] pc by (simp add: counted_def)
    show "{i. executions ?s i \<noteq> Idle} \<subseteq> {..n}" using D(2) il by (auto split: if_splits)
    show "executions ?s j = Idle \<longleftrightarrow> \<not> hedgesStarted ?s" if "1 \<le> j" "j \<le> n" for j
      using D(4) [OF that] pc by (cases "j = i") auto
    show "\<exists>e. outcome ?s j x e" if "(j, x) \<in> set (possibleResults ?s)" for j x
    proof -
      from that have "(j, x) \<in> set (possibleResults s)" by (simp split: if_splits)
      from D(7) [OF this] keep show ?thesis by blast
    qed
    show "resultCount ?s = n + 1" if "finishing (executions ?s j)" for j
      using that D(10) [of j] by (auto simp: finishing_def split: if_splits)
    show "\<exists>e. outcome ?s j x e \<and> (abortable x \<or> e \<or> resultCount ?s = n + 1)" if "resultChan ?s = Some (j, x)" for j x
      using that pc by (auto simp: outcome_def counted_def)
  qed (use D(3,8) pc ret in \<open>auto split: if_splits\<close>)
qed

lemma inv_store:
  assumes inv: "hedge_inv n abortable s" and pc: "executions s i = Counted r early fin" "\<not> ((abortable r \<or> early) \<and> \<not> resultSent s)"
  shows "hedge_inv n abortable (s\<lparr>possibleResults := AList.update i r (possibleResults s),
      executions := (executions s)(i := (if fin then Stored r early else Ended r early))\<rparr>)" (is "hedge_inv _ _ ?s")
proof -
  note D = hedge_invD [OF inv]
  have keep: "outcome s j x e \<Longrightarrow> outcome ?s j x e" for j x e using pc by (auto simp: outcome_def counted_def)
  have il: "i \<le> n" using D(2) pc(1) by force
  have upd: "(j, x) \<in> set (AList.update i r m) \<Longrightarrow> (j, x) = (i, r) \<or> (j, x) \<in> set m" for j x m
    by (induction m) (auto split: if_splits)
  have new: "(i, r) \<in> set (AList.update i r m)" for m by (induction m) auto
  have old: "(j, x) \<in> set m \<Longrightarrow> j \<noteq> i \<Longrightarrow> (j, x) \<in> set (AList.update i r m)" for j x m by (induction m) auto
  show ?thesis
  proof (rule hedge_invI)
    show "resultCount ?s = card {i. counted (executions ?s i)}"
      using D(1) same_counted [of "executions s" i "if fin then Stored r early else Ended r early"] pc by (simp add: counted_def)
    show "{i. executions ?s i \<noteq> Idle} \<subseteq> {..n}" using D(2) il by (auto split: if_splits)
    show "executions ?s j = Idle \<longleftrightarrow> \<not> hedgesStarted ?s" if "1 \<le> j" "j \<le> n" for j
      using D(4) [OF that] pc by (cases "j = i") auto
    show "\<exists>e. outcome ?s j x e" if "(j, x) \<in> set (possibleResults ?s)" for j x
    proof (cases "(j, x) = (i, r)")
      case True
      then show ?thesis by (auto simp: outcome_def counted_def)
    next
      case False
      from that have "(j, x) \<in> set (AList.update i r (possibleResults s))" by simp
      from upd [OF this] False have "(j, x) \<in> set (possibleResults s)" by blast
      from D(7) [OF this] keep show ?thesis by blast
    qed
    show "(j, x) \<in> set (possibleResults ?s)" if "executions ?s j = Stored x e" for j x e
      using that D(8) [of j x e] new old by (auto split: if_splits)
    show "\<exists>j. finishing (executions ?s j)" if "resultCount ?s = n + 1" "\<not> resultSent ?s"
    proof -
      from D(9) that obtain j where "finishing (executions s j)" by auto
      with pc show ?thesis by (intro exI [of _ j]) (auto simp: finishing_def)
    qed
    show "resultCount ?s = n + 1" if "finishing (executions ?s j)" for j
      using that D(10) [of j] pc by (auto simp: finishing_def split: if_splits)
    show "\<exists>e. outcome ?s j x e \<and> (abortable x \<or> e \<or> resultCount ?s = n + 1)" if "resultChan ?s = Some (j, x)" for j x
    proof -
      from that have "resultChan s = Some (j, x)" by simp
      from D(11) [OF this] obtain e where "outcome s j x e" "abortable x \<or> e \<or> resultCount s = n + 1" by blast
      with keep [of j x e] show ?thesis by auto
    qed
  qed (use D(3,5,6) pc in \<open>auto split: if_splits\<close>)
qed

lemma inv_pick:
  assumes inv: "hedge_inv n abortable s" and pc: "executions s i = Stored r early" "set (p # ps) \<subseteq> set (possibleResults s)"
    and best: "best = min_by lt p ps"
  shows "hedge_inv n abortable ((if resultSent s then s else s\<lparr>resultSent := True, resultChan := Some best\<rparr>)
        \<lparr>executions := (executions s)(i := Ended r early)\<rparr>)" (is "hedge_inv _ _ ?s")
proof -
  note D = hedge_invD [OF inv]
  have keep: "outcome s j x e \<Longrightarrow> outcome ?s j x e" for j x e using pc by (auto simp: outcome_def counted_def)
  have ret: "\<not> resultSent s \<Longrightarrow> hedgeReturned s = None" using D(5,6) by fastforce
  have cnt: "resultCount s = n + 1" using D(10) [of i] pc by (simp add: finishing_def)
  obtain bi br where b: "best = (bi, br)" by (cases best)
  have "best \<in> set (possibleResults s)" using min_by_in [of lt p ps] pc(2) best by blast
  with D(7) b obtain be where be: "outcome s bi br be" by blast
  have il: "i \<le> n" using D(2) pc by force
  show ?thesis
  proof (rule hedge_invI)
    show "resultCount ?s = card {i. counted (executions ?s i)}"
      using D(1) same_counted [of "executions s" i "Ended r early"] pc by (simp add: counted_def)
    show "{i. executions ?s i \<noteq> Idle} \<subseteq> {..n}" using D(2) il by (auto split: if_splits)
    show "executions ?s j = Idle \<longleftrightarrow> \<not> hedgesStarted ?s" if "1 \<le> j" "j \<le> n" for j
      using D(4) [OF that] pc by (cases "j = i") auto
    show "\<exists>e. outcome ?s j x e" if "(j, x) \<in> set (possibleResults ?s)" for j x
    proof -
      from that have "(j, x) \<in> set (possibleResults s)" by (simp split: if_splits)
      from D(7) [OF this] keep show ?thesis by blast
    qed
    show "resultCount ?s = n + 1" if "finishing (executions ?s j)" for j using cnt by simp
    show "\<exists>e. outcome ?s j x e \<and> (abortable x \<or> e \<or> resultCount ?s = n + 1)" if "resultChan ?s = Some (j, x)" for j x
    proof (cases "resultSent s")
      case True
      with that have "resultChan s = Some (j, x)" by simp
      from D(11) [OF this] obtain e where "outcome s j x e" "abortable x \<or> e \<or> resultCount s = n + 1" by blast
      with keep [of j x e] cnt show ?thesis by auto
    next
      case False
      with that b have "j = bi" "x = br" by simp_all
      with keep [OF be] cnt show ?thesis by auto
    qed
    show "executions ?s 0 \<noteq> Idle" using D(3) by (cases "i = 0") simp_all
    show "resultSent ?s \<longleftrightarrow> resultChan ?s \<noteq> None" using D(5) by simp
    show "resultChan ?s = Some x" if "hedgeReturned ?s = Some x" for x
      using that ret D(6) [of x] by (cases "resultSent s") simp_all
    show "(j, x) \<in> set (possibleResults ?s)" if "executions ?s j = Stored x e" for j x e
      using that D(8) [of j x e] by (cases "j = i") simp_all
    show "\<exists>j. finishing (executions ?s j)" if "resultCount ?s = n + 1" "\<not> resultSent ?s" using that(2) by (simp split: if_splits)
  qed
qed

lemma inv_timer:
  assumes inv: "hedge_inv n abortable s" and t: "\<not> hedgesStarted s"
  shows "hedge_inv n abortable (s\<lparr>hedgesStarted := True, executions := (\<lambda>i. if 1 \<le> i \<and> i \<le> n then Running else executions s i)\<rparr>)"
    (is "hedge_inv _ _ ?s")
proof -
  note D = hedge_invD [OF inv]
  have idle: "executions s j = Idle" if "1 \<le> j" "j \<le> n" for j using D(4) [OF that] t by blast
  have same: "counted (executions ?s j) = counted (executions s j)" for j using idle [of j] by (simp add: counted_def)
  have keep: "outcome s j x e \<Longrightarrow> outcome ?s j x e" for j x e using idle [of j] by (auto simp: outcome_def counted_def)
  have fin: "finishing (executions ?s j) = finishing (executions s j)" for j using idle [of j] by (simp add: finishing_def)
  show ?thesis
  proof (rule hedge_invI)
    show "resultCount ?s = card {i. counted (executions ?s i)}" unfolding same using D(1) by simp
    show "{i. executions ?s i \<noteq> Idle} \<subseteq> {..n}" using D(2) by auto
    show "\<exists>e. outcome ?s j x e" if "(j, x) \<in> set (possibleResults ?s)" for j x
    proof -
      from that have "(j, x) \<in> set (possibleResults s)" by (simp split: if_splits)
      from D(7) [OF this] keep show ?thesis by blast
    qed
    show "\<exists>j. finishing (executions ?s j)" if "resultCount ?s = n + 1" "\<not> resultSent ?s" unfolding fin using that D(9) by simp
    show "resultCount ?s = n + 1" if "finishing (executions ?s j)" for j using that D(10) [of j] unfolding fin by simp
    show "\<exists>e. outcome ?s j x e \<and> (abortable x \<or> e \<or> resultCount ?s = n + 1)" if "resultChan ?s = Some (j, x)" for j x
    proof -
      from that have "resultChan s = Some (j, x)" by simp
      from D(11) [OF this] obtain e where "outcome s j x e" "abortable x \<or> e \<or> resultCount s = n + 1" by blast
      with keep [of j x e] show ?thesis by auto
    qed
  qed (use D(3,5,6,8) in \<open>auto split: if_splits\<close>)
qed

lemma inv_receive:
  assumes "hedge_inv n abortable s" "resultChan s = Some x"
  shows "hedge_inv n abortable (s\<lparr>hedgeReturned := Some x\<rparr>)" (is "hedge_inv _ _ ?s")
proof -
  note D = hedge_invD [OF assms(1)]
  have same: "outcome ?s = outcome s" by (simp add: outcome_def fun_eq_iff)
  show ?thesis
  proof (rule hedge_invI)
    show "\<exists>e. outcome ?s j y e" if "(j, y) \<in> set (possibleResults ?s)" for j y using D(7) [of j y] that unfolding same by simp
    show "\<exists>e. outcome ?s j y e \<and> (abortable y \<or> e \<or> resultCount ?s = n + 1)" if "resultChan ?s = Some (j, y)" for j y
      using D(11) [of j y] that unfolding same by simp
    show "resultCount ?s = n + 1" if "finishing (executions ?s j)" for j using D(10) [of j] that by simp
    show "\<exists>j. finishing (executions ?s j)" if "resultCount ?s = n + 1" "\<not> resultSent ?s" using D(9) that by simp
    show "executions ?s j = Idle \<longleftrightarrow> \<not> hedgesStarted ?s" if "1 \<le> j" "j \<le> n" for j using D(4) [OF that] by simp
  qed (use D(1,2,3,5,6,8) assms(2) in auto)
qed

lemma inv_step: "hedge_step n abortable rtype s s' \<Longrightarrow> hedge_inv n abortable s \<Longrightarrow> hedge_inv n abortable s'"
proof (induction rule: hedge_step.induct)
  case (finish s i early r)
  then show ?case by (rule_tac inv_finish)
next
  case (send s i r early fin)
  then show ?case by (rule_tac inv_send)
next
  case (store s i r early fin)
  then show ?case by (rule_tac inv_store)
next
  case (pick s i r early p ps best)
  then show ?case by (rule_tac inv_pick)
next
  case (timer s)
  then show ?case by (rule_tac inv_timer)
next
  case (receive s x)
  then show ?case by (rule_tac inv_receive)
qed

lemma hedge_runs_inv: "hedge_runs n abortable rtype s \<Longrightarrow> hedge_inv n abortable s"
proof (induction rule: hedge_runs.induct)
  case hedge_first
  show ?case by (auto simp: hedge_inv_def hedge_start_def counted_def finishing_def outcome_def)
qed (rule inv_step)

lemma hedge_quiet:
  assumes inv: "hedge_inv n abortable s" and quiet: "\<And>s'. \<not> hedge_step n abortable rtype s s'"
  shows "hedgeReturned s \<noteq> None"
proof
  assume none: "hedgeReturned s = None"
  note D = hedge_invD [OF inv]
  have chan: "resultChan s = None" using quiet receive none by (metis not_Some_eq)
  then have unsent: "\<not> resultSent s" using D(5) by simp
  have started: "hedgesStarted s" using quiet timer none by blast
  have "executions s i \<noteq> Running" for i using quiet finish [of s i False] by blast
  moreover have "executions s i \<noteq> Counted r e f" for i r e f
    using quiet send [of s i r e f abortable] store [of s i r e f abortable] by blast
  moreover have "executions s i \<noteq> Stored r e" for i r e
  proof
    assume st: "executions s i = Stored r e"
    from pick [OF st, where p = "(i, r)" and ps = "[]" and n = n and abortable = abortable and rtype = rtype] D(8) [OF st] quiet
    show False by simp
  qed
  ultimately have ended: "counted (executions s i) \<and> \<not> finishing (executions s i)" if "executions s i \<noteq> Idle" for i
    using that by (cases "executions s i") (auto simp: counted_def finishing_def)
  have "executions s i \<noteq> Idle" if "i \<le> n" for i using that D(3) D(4) [of i] started by (cases "i = 0") auto
  with ended D(2) have "{i. counted (executions s i)} = {..n}" by (auto simp: counted_def)
  with D(1) have "resultCount s = n + 1" by simp
  with D(9) unsent ended show False by (metis (no_types, lifting) counted_def finishing_def hedge_pc.case(1))
qed

section \<open>Properties\<close>

text \<open>\<^bold>\<open>C21\<close>. Retries end: a policy with a limit of \<open>n\<close> retries returns, whatever the call does and however its results, its
  errors, the clock and the cancellation go, after at most \<open>n + 1\<close> calls.\<close>

theorem retries_are_bounded:
  assumes "failsafe_ok F" "maxRetries c = int n" "int n < 2 ^ 63 - 1"
    and "\<And>w. calls (snd (fs_inner F w)) = Suc (calls w)" "\<And>d w. calls (fs_wait F d w) = calls w" "\<And>w. calls (fs_next F w) = calls w"
  shows "\<exists>r w'. retry_Apply V D F c w = Some (r, w') \<and> calls w' \<le> calls w + n + 1"
  using retry_bounded_aux [of F c n calls new_retryExecutor 0 V D None w] assms
  by (auto simp: new_retryExecutor_def retry_Apply_def)

text \<open>\<^bold>\<open>C12\<close>. A retried request gets the first outcome that is not retryable, or the last one the configured attempts allow; when
  a later attempt only finds that no upstream is left, the client gets the response of the attempt before.\<close>

theorem retried_request_gets_first_acceptable:
  assumes "failsafe_ok F" "attempts_of F out" "in_i64 (Attempts r)"
  shows "\<exists>res w. retry_Apply V D F (CreateFlowRetryPolicy E r) 0 = Some (res, w)
     \<and> (prResult res, prError res) = flow_answer E (retries_of r) out"
  using flow_retry_aux [OF assms HOL.refl, where k = 0 and st = new_retryExecutor and prev = None and V = V and D = D and E = E]
  by (auto simp: new_retryExecutor_def retry_Apply_def)


text \<open>\<^bold>\<open>C39\<close>. A success can be lost: the count of finished executions and the sending of a result are separate operations, so an
  execution that succeeded may be overtaken by the last one to finish, which then returns its own failure.\<close>

theorem hedge_can_drop_success:
  "\<exists>s. hedge_runs 1 (\<lambda>r. r = ''ok'') (\<lambda>r. if r = ''ok'' then ResultOk else ResultTotalFailure) s
     \<and> hedgeReturned s = Some (1, ''failed'') \<and> outcome s 0 ''ok'' False"
proof -
  let ?R = "hedge_runs 1 (\<lambda>r. r = ''ok'') (\<lambda>r. if r = ''ok'' then ResultOk else ResultTotalFailure)"
  have s1: "?R (hedge_start\<lparr>hedgesStarted := True, executions := (\<lambda>i. if 1 \<le> i \<and> i \<le> 1 then Running else executions hedge_start i)\<rparr>)"
    by (rule hedge_next [OF hedge_first timer]) (simp_all add: hedge_start_def)
  note s2 = hedge_next [OF s1 finish [where i = 0 and early = False and r = "''ok''"]]
  note s3 = hedge_next [OF s2 finish [where i = 1 and early = False and r = "''failed''"]]
  note s4 = hedge_next [OF s3 store [where i = 1 and r = "''failed''" and early = False and fin = True]]
  note s5 = hedge_next [OF s4 pick [where i = 1 and r = "''failed''" and early = False and p = "(1, ''failed'')" and ps = "[]"]]
  note s6 = hedge_next [OF s5 receive [where x = "(1, ''failed'')"]]
  show ?thesis
    by (intro exI conjI, rule s6) (simp_all add: hedge_start_def outcome_def counted_def)
qed

section \<open>Witnesses\<close>

definition sample_out :: "nat \<Rightarrow> ResponseHolderWrapper option \<times> call_error option" where
  "sample_out k = (if k < 2
     then (Some \<lparr>wrUpstreamId = ''up'', wrRequestId = ''1'', wrNodeVersion = [], wrFinalizationType = None, wrFinalizationBlock = ZeroBlock,
        wrResponse = ReplyErrorResponse (NewReplyError ''1'' ServerError JsonRpc PartialFailure)\<rparr>, None)
     else (None, Some StopRetryErr))"

definition sample_failsafe :: "(ResponseHolderWrapper option, call_error, nat) failsafe" where
  "sample_failsafe = \<lparr>fs_inner = (\<lambda>k. (\<lparr>prResult = fst (sample_out k), prError = snd (sample_out k), prDone = False, prSuccess = False,
       prSuccessAll = False\<rparr>, k)),
     fs_canceled = (\<lambda>_. None), fs_elapsed = (\<lambda>_. 0), fs_wait = (\<lambda>_ k. k), fs_next = Suc, fs_retries = (\<lambda>k. k), fs_compute_delay = (\<lambda>_. -1),
     fs_post = (\<lambda>failed onFailure r st. if failed r then onFailure (r\<lparr>prSuccess := False, prSuccessAll := False\<rparr>) st
       else (r\<lparr>prDone := True, prSuccess := True, prSuccessAll := True\<rparr>, st)),
     fs_with_done = (\<lambda>d s r. r\<lparr>prDone := d, prSuccess := s, prSuccessAll := s\<rparr>)\<rparr>"

definition sample_values :: "(ResponseHolderWrapper option, call_error) retry_values" where
  "sample_values = \<lparr>zero_result = None, ExceededError = (\<lambda>_ _. OtherErr (Inr ''exceeded''))\<rparr>"

definition sample_delays :: "'w delay_ops" where
  "sample_delays = \<lparr>backoff_mul = (\<lambda>_ d. 2 * d), random_between = (\<lambda>lo _ _. lo), random_jitter = (\<lambda>d _ _. d), random_factor = (\<lambda>d _ _. d)\<rparr>"

definition sample_retry :: RetryConfig where
  "sample_retry = \<lparr>Attempts = 5, retryDelay = 10, MaxDelay = Some 100, Jitter = None\<rparr>"

lemma sample_failsafe_ok: "failsafe_ok sample_failsafe" "attempts_of sample_failsafe sample_out"
  by (simp_all add: failsafe_ok_def attempts_of_def sample_failsafe_def)

text \<open>Counting calls: each world is the number of calls so far.\<close>

definition counting_failsafe :: "(ResponseHolderWrapper option, call_error, nat) failsafe" where
  "counting_failsafe = sample_failsafe\<lparr>fs_inner := (\<lambda>k. (\<lparr>prResult = fst (sample_out 0), prError = None, prDone = False, prSuccess = False,
     prSuccessAll = False\<rparr>, Suc k)), fs_next := (\<lambda>k. k)\<rparr>"

theorem retries_are_bounded_witness:
  "\<exists>r w'. retry_Apply sample_values sample_delays counting_failsafe (CreateFlowRetryPolicy \<lparr>RetryableErrors = [], NonRetryableErrors = []\<rparr> sample_retry) 0
     = Some (r, w') \<and> w' \<le> 5"
proof -
  have ok: "failsafe_ok counting_failsafe" by (simp add: failsafe_ok_def counting_failsafe_def sample_failsafe_def)
  have m: "maxRetries (CreateFlowRetryPolicy \<lparr>RetryableErrors = [], NonRetryableErrors = []\<rparr> sample_retry) = int 4"
    by (subst flow_policy) (simp_all add: sample_retry_def in_i64_def retries_of_def)
  show ?thesis using retries_are_bounded [OF ok m, of "\<lambda>w. w" sample_values sample_delays 0]
    by (simp add: counting_failsafe_def sample_failsafe_def)
qed

theorem retried_request_gets_first_acceptable_witness:
  "\<exists>res w. retry_Apply sample_values sample_delays sample_failsafe (CreateFlowRetryPolicy \<lparr>RetryableErrors = [], NonRetryableErrors = []\<rparr> sample_retry) 0
     = Some (res, w) \<and> (prResult res, prError res) = sample_out 1"
proof -
  let ?E = "\<lparr>RetryableErrors = [], NonRetryableErrors = []\<rparr>"
  have "(LEAST k. k = 4 \<or> \<not> flow_failure ?E (fst (sample_out k)) (snd (sample_out k))) = 2"
    by (rule Least_equality) (auto simp: sample_out_def flow_failure_def NewReplyError_def split: if_splits)
  then have "flow_answer ?E (retries_of sample_retry) sample_out = sample_out 1"
    by (simp add: flow_answer_def retries_of_def sample_retry_def) (simp add: sample_out_def)
  with retried_request_gets_first_acceptable [OF sample_failsafe_ok, of sample_retry sample_values sample_delays ?E]
  show ?thesis by (simp add: sample_retry_def in_i64_def)
qed


end
