(* ===== verification/FlowProcessors.thy ===== *)
theory FlowProcessors
  imports Resilience Strategy Caches
begin

text \<open>
  The request processors of the flow: \<open>internal/upstreams/flow/request_processor.go\<close>, \<open>method_translation.go\<close>, \<open>method_hook.go\<close>
  and the \<open>cache\<close>, \<open>sticky\<close>, \<open>local\<close>, \<open>not_null\<close>, \<open>fanout\<close> and \<open>integrity\<close> processors.

  A processor asks a strategy for upstreams and sends the request through one of their connectors. The strategy is the
  interface \<open>UpstreamStrategy\<close>, a function on its own state \<open>'s\<close> and the world \<open>'v\<close>. Connectors are the interface
  \<open>ApiConnector\<close>: the field \<open>nd_send\<close> of \<open>nodes\<close> answers a request and may change the world in any way, since time passes;
  \<open>nd_ctx_err\<close> is \<open>Err\<close> of the request's context.
  What a processor does to an upstream (\<open>UpdateLowerBound\<close>, \<open>IncErrors\<close>, \<open>UpdateHead\<close>, \<open>UpdateBlock\<close>, \<open>BanMethod\<close>) is a
  list of calls, newest first. A panic is \<open>None\<close>. Metrics and logs are left out.
\<close>

section \<open>Requests\<close>

datatype RequestHolder = JsonRpcHolder UpstreamJsonRpcRequest | RestHolder UpstreamRestRequest

fun req_Id :: "RequestHolder \<Rightarrow> string" where
  "req_Id (JsonRpcHolder r) = jId r"
| "req_Id (RestHolder r) = restId r"

fun req_Method :: "RequestHolder \<Rightarrow> string" where
  "req_Method (JsonRpcHolder r) = jMethod r"
| "req_Method (RestHolder r) = restMethod r"

fun req_SpecMethod :: "RequestHolder \<Rightarrow> Method option" where
  "req_SpecMethod (JsonRpcHolder r) = jSpecMethod r"
| "req_SpecMethod (RestHolder r) = restSpecMethod r"

fun req_RequestType :: "RequestHolder \<Rightarrow> RequestType" where
  "req_RequestType (JsonRpcHolder r) = JsonRpc"
| "req_RequestType (RestHolder r) = Rest"

fun req_Selectors :: "RequestHolder \<Rightarrow> RequestSelector list" where
  "req_Selectors (JsonRpcHolder r) = jSelectors r"
| "req_Selectors (RestHolder r) = restSelectors r"

fun req_IsSubscribe :: "RequestHolder \<Rightarrow> bool" where
  "req_IsSubscribe (JsonRpcHolder r) = jIsSub r"
| "req_IsSubscribe (RestHolder r) = False"

text \<open>Answers of the libraries: \<open>sonic\<close> on a JSON-RPC request body (id, method and parameters), on the UTXO lists
  of the translation, on a member of a JSON object; the block numbers \<open>go-ethereum\<close> reserves for tags and its
  \<open>hexutil.DecodeUint64\<close>. \<open>fo_range\<close> orders the fields of a block range.\<close>

record esploraUtxo =
  euTxid :: string
  euVout :: u32
  euConfirmed :: bool
  euBlockHeight :: u64
  euValue :: u64

record listUnspentUtxo =
  luTxid :: string
  luVout :: u32
  luAddress :: string
  luAmount :: string
  luConfirmations :: u64

record flow_ops =
  fo_tag :: tag_ops
  fo_range :: "(string \<times> json) list \<Rightarrow> (string \<times> json) list"
  fo_specs :: resolvedSpecs
  fo_marshal :: "string \<Rightarrow> string \<Rightarrow> string \<Rightarrow> string + string"
  fo_unmarshal :: "string \<Rightarrow> string + (string \<times> string \<times> string)"
  fo_utxos :: "string \<Rightarrow> string + esploraUtxo list"
  fo_unspent :: "listUnspentUtxo list \<Rightarrow> string + string"
  fo_member :: "string \<Rightarrow> string \<Rightarrow> json option"
  fo_param0 :: "string \<Rightarrow> string + string"
  fo_DecodeUint64 :: "string \<Rightarrow> u64 option"
  LatestBlockNumber :: i64
  SafeBlockNumber :: i64
  FinalizedBlockNumber :: i64

fun req_Body :: "flow_ops \<Rightarrow> RequestHolder \<Rightarrow> string + string" where
  "req_Body F (JsonRpcHolder r) = fo_marshal F (realId r) (jMethod r) (requestParams r)"
| "req_Body F (RestHolder r) = Inr (restBody r)"

fun req_ParseParams :: "flow_ops \<Rightarrow> RequestHolder \<Rightarrow> (MethodParam option \<times> RequestHolder) option" where
  "req_ParseParams F (JsonRpcHolder r) = map_option (\<lambda>(p, r). (p, JsonRpcHolder r)) (ParseParams (fo_tag F) (fo_range F) r)"
| "req_ParseParams F (RestHolder r) = Some (None, RestHolder r)"

fun req_ModifyParams :: "flow_ops \<Rightarrow> json \<Rightarrow> RequestHolder \<Rightarrow> RequestHolder" where
  "req_ModifyParams F v (JsonRpcHolder r) = JsonRpcHolder (ModifyParams (fo_tag F) v r)"
| "req_ModifyParams F v (RestHolder r) = RestHolder r"

text \<open>What a strategy looks at.\<close>

definition request_of :: "RequestHolder \<Rightarrow> request" where
  "request_of r = \<lparr>reqMethod = req_Method r, reqIsSubscribe = req_IsSubscribe r\<rparr>"

section \<open>Method translation\<close>

type_synonym flow_error = "ResponseError + string"

definition jsonRpcBodyOf :: "flow_ops \<Rightarrow> RequestHolder \<Rightarrow> flow_error + (string \<times> string \<times> string)" where
  "jsonRpcBodyOf F r =
     (case req_Body F r of
        Inl e \<Rightarrow> Inl (Inl (ClientError e))
      | Inr raw \<Rightarrow> (case fo_unmarshal F raw of Inl e \<Rightarrow> Inl (Inl (ClientError e)) | Inr b \<Rightarrow> Inr b))"

text \<open>The loop over the decoded parameters; other values than strings and arrays are skipped.\<close>

fun first_address :: "json list \<Rightarrow> flow_error + string" where
  "first_address [] = Inl (Inl (InvalidParamsError ''listunspent requires an address''))"
| "first_address (JStr v # ps) = Inr v"
| "first_address (JArr vs # ps) =
     (if length vs \<noteq> 1 then Inl (Inl (InvalidParamsError ''listunspent supports exactly one address''))
      else (case hd vs of
              JStr a \<Rightarrow> Inr a
            | _ \<Rightarrow> Inl (Inl (InvalidParamsError ''listunspent address must be a string''))))"
| "first_address (p # ps) = first_address ps"

definition listUnspentAddress :: "flow_ops \<Rightarrow> string \<Rightarrow> flow_error + string" where
  "listUnspentAddress F rawParams =
     (if rawParams = [] then first_address []
      else case json_decode (fo_tag F) rawParams of
             Some (JArr ps) \<Rightarrow> first_address ps
           | Some JNull \<Rightarrow> first_address []
           | _ \<Rightarrow> Inl (Inl (InvalidParamsError ''listunspent params must be an array'')))"

definition satsPerBtc :: u64 where "satsPerBtc = 100000000"

text \<open>The format \<open>%d.%08d\<close>.\<close>

definition pad8 :: "string \<Rightarrow> string" where
  "pad8 s = replicate (8 - length s) (CHR ''0'') @ s"

definition satsToBtc :: "u64 \<Rightarrow> string" where
  "satsToBtc sats = dec (unat (sats div satsPerBtc)) @ ''.'' @ pad8 (dec (unat (sats mod satsPerBtc)))"

definition utxoConfirmations :: "bool \<Rightarrow> u64 \<Rightarrow> u64 \<Rightarrow> u64" where
  "utxoConfirmations confirmed height headHeight =
     (if \<not> confirmed \<or> height = 0 \<or> headHeight < height then 0 else headHeight - height + 1)"

definition esploraAddressUtxoMethod :: string where "esploraAddressUtxoMethod = ''GET#/address/*/utxo''"

datatype methodTranslator = jsonRpcMethodAlias string string | bitcoinListUnspentTranslator string

definition getMethodTranslator :: "string \<Rightarrow> string \<Rightarrow> methodTranslator option" where
  "getMethodTranslator spec method =
     (if spec = ''bitcoin'' then
        (if method = ''getblocknumber'' then Some (jsonRpcMethodAlias ''bitcoin'' ''getblockcount'')
         else if method = ''listunspent'' then Some (bitcoinListUnspentTranslator ''bitcoin'')
         else None)
      else None)"

fun TranslateRequest :: "flow_ops \<Rightarrow> methodTranslator \<Rightarrow> RequestHolder \<Rightarrow> flow_error + RequestHolder" where
  "TranslateRequest F (jsonRpcMethodAlias spec target) r =
     (case jsonRpcBodyOf F r of
        Inl e \<Rightarrow> Inl e
      | Inr (i, _, params) \<Rightarrow>
          Inr (JsonRpcHolder (NewUpstreamJsonRpcRequest (fo_specs F) (req_Id r) i target params False spec (req_Selectors r))))"
| "TranslateRequest F (bitcoinListUnspentTranslator spec) r =
     (case jsonRpcBodyOf F r of
        Inl e \<Rightarrow> Inl e
      | Inr (_, _, params) \<Rightarrow>
          (case listUnspentAddress F params of
             Inl e \<Rightarrow> Inl e
           | Inr address \<Rightarrow>
               Inr (RestHolder (NewUpstreamRestRequest (fo_specs F) (req_Id r) esploraAddressUtxoMethod
                 (Some \<lparr>Headers = [], QueryParams = [], PathParams = [address]\<rparr>) [] spec (req_Selectors r)))))"

definition unspent_of :: "string \<Rightarrow> u64 \<Rightarrow> esploraUtxo \<Rightarrow> listUnspentUtxo" where
  "unspent_of address head u =
     \<lparr>luTxid = euTxid u, luVout = euVout u, luAddress = address, luAmount = satsToBtc (euValue u),
      luConfirmations = utxoConfirmations (euConfirmed u) (euBlockHeight u) head\<rparr>"

definition translated_address :: "RequestHolder \<Rightarrow> string" where
  "translated_address r =
     (case r of
        RestHolder q \<Rightarrow> (case restParams q of Some p \<Rightarrow> (case PathParams p of a # _ \<Rightarrow> a | [] \<Rightarrow> []) | None \<Rightarrow> [])
      | JsonRpcHolder _ \<Rightarrow> [])"

fun TranslateResponse :: "flow_ops \<Rightarrow> methodTranslator \<Rightarrow> RequestHolder \<Rightarrow> RequestHolder \<Rightarrow> u64 \<Rightarrow> ResponseHolder \<Rightarrow> ResponseHolder" where
  "TranslateResponse F (jsonRpcMethodAlias spec target) r up head resp = resp"
| "TranslateResponse F (bitcoinListUnspentTranslator spec) r up head resp =
     (if HasError resp then resp
      else case fo_utxos F (ResponseResult resp) of
             Inl e \<Rightarrow> ReplyErrorResponse (NewTotalFailureFromErr (req_Id r) (Inl (IncorrectResponseBodyError e)) JsonRpc)
           | Inr utxos \<Rightarrow>
               (case fo_unspent F (map (unspent_of (translated_address up) head) utxos) of
                  Inl e \<Rightarrow> ReplyErrorResponse (NewTotalFailureFromErr (req_Id r) (Inl (IncorrectResponseBodyError e)) JsonRpc)
                | Inr result \<Rightarrow> GenericResponse (NewSimpleHttpUpstreamResponse (req_Id r) result JsonRpc)))"

section \<open>Sending a request to an upstream\<close>

datatype UpstreamVendor = UnknownVendor | QuickNode | DRPC | Alchemy | Infura

definition upstreamVendor :: "string \<Rightarrow> UpstreamVendor" where
  "upstreamVendor url =
     (if go_contains url ''infura.io'' then Infura
      else if go_contains url ''quiknode.pro'' then QuickNode
      else if go_contains url ''alchemy.com'' \<or> go_contains url ''alchemyapi.io'' then Alchemy
      else if go_contains url ''drpc.live'' \<or> go_contains url ''drpc.org'' then DRPC
      else UnknownVendor)"

definition DetectUpstreamVendor :: "string list \<Rightarrow> UpstreamVendor" where
  "DetectUpstreamVendor urls =
     (case urls of
        [] \<Rightarrow> UnknownVendor
      | u # us \<Rightarrow>
          (let first = upstreamVendor u
           in if first = UnknownVendor then UnknownVendor
              else if list_ex (\<lambda>x. upstreamVendor x \<noteq> first) us then UnknownVendor
              else first))"

text \<open>What does not change of an upstream; a connector is known by its type.\<close>

record upstream_obj =
  uoId :: string
  uoSpec :: string
  uoVendor :: UpstreamVendor
  uoHashIndex :: string
  uoConnectors :: "ApiConnectorType list"

record 'v nodes =
  nd_upstream :: "'v \<Rightarrow> string \<Rightarrow> upstream_obj option"
  nd_state :: "'v \<Rightarrow> string \<Rightarrow> UpstreamState"
  nd_now :: "'v \<Rightarrow> i64"
  nd_ctx_err :: "'v \<Rightarrow> string option"
  nd_send :: "string \<Rightarrow> ApiConnectorType \<Rightarrow> RequestHolder \<Rightarrow> 'v \<Rightarrow> ResponseHolder \<times> 'v"

datatype upstream_call =
    CallUpdateLowerBound string LowerBoundData
  | CallIncErrors string nat
  | CallUpdateHead string u64
  | CallUpdateBlock string u64 BlockType
  | CallBanMethod string string

record 'v flow_state =
  fsWorld :: 'v
  fsCalls :: "upstream_call list"

definition add_call :: "upstream_call \<Rightarrow> 'v flow_state \<Rightarrow> 'v flow_state" where
  "add_call c st = st\<lparr>fsCalls := c # fsCalls st\<rparr>"

definition getMethodConnector :: "upstream_obj \<Rightarrow> Method \<Rightarrow> ApiConnectorType option" where
  "getMethodConnector u m = List.find (\<lambda>t. t \<in> set (uoConnectors u)) (apiConnectorTypes m)"

datatype RequestBlockTag = BlockTagLatest | BlockTagSafe | BlockTagFinalized

definition requestBlockTagMetadata :: "flow_ops \<Rightarrow> MethodParam option \<Rightarrow> RequestBlockTag option" where
  "requestBlockTagMetadata F param =
     (case param of
        Some (BlockNumberParam n) \<Rightarrow>
          (if n = LatestBlockNumber F then Some BlockTagLatest
           else if n = SafeBlockNumber F then Some BlockTagSafe
           else if n = FinalizedBlockNumber F then Some BlockTagFinalized
           else None)
      | _ \<Rightarrow> None)"

definition responseFinalizationMetadata :: "UpstreamState \<Rightarrow> RequestBlockTag option \<Rightarrow> BlockType option \<times> Block" where
  "responseFinalizationMetadata s tag =
     (case (tag, upBlockInfo s) of
        (Some t, Some info) \<Rightarrow>
          (case (case t of BlockTagSafe \<Rightarrow> Some SafeBlock | BlockTagFinalized \<Rightarrow> Some FinalizedBlock | _ \<Rightarrow> None) of
             None \<Rightarrow> (None, ZeroBlock)
           | Some ty \<Rightarrow> (if IsFullEmpty (GetBlock info ty) then (None, ZeroBlock) else (Some ty, GetBlock info ty)))
      | _ \<Rightarrow> (None, ZeroBlock))"

definition prunedMarkers :: "string list" where
  "prunedMarkers = [''missing trie node'', ''missing trie node'', ''state is not available'', ''required historical state unavailable'',
     ''header not found'', ''history has been pruned'', ''block #'', ''pruned'']"

definition isPrunedHistoryError :: "string \<Rightarrow> bool" where
  "isPrunedHistoryError message \<longleftrightarrow> list_ex (go_contains (toLower message)) prunedMarkers"

definition lowerBoundTypeForMethod :: "string \<Rightarrow> LowerBoundType option" where
  "lowerBoundTypeForMethod method =
     (if method = ''eth_getProof'' then Some ProofBound
      else if method = ''eth_getLogs'' then Some LogsBound
      else if hasPrefix method ''trace_'' \<or> hasPrefix method ''debug_trace'' then Some TraceBound
      else None)"

definition lowerBoundRequestBlock :: "MethodParam option \<Rightarrow> i64 option" where
  "lowerBoundRequestBlock param =
     (case param of
        Some (BlockNumberParam n) \<Rightarrow> (if n \<ge> 0 then Some n else None)
      | Some (BlockRangeParam (Some f) _) \<Rightarrow> (if f \<ge> 0 then Some f else None)
      | _ \<Rightarrow> None)"

definition liveLowerBoundFromPrunedError ::
  "i64 \<Rightarrow> string \<Rightarrow> MethodParam option \<Rightarrow> ResponseHolder \<Rightarrow> u64 \<Rightarrow> LowerBoundData option" where
  "liveLowerBoundFromPrunedError now method param response currentHead =
     (if \<not> HasError response then None
      else case GetError response of
             None \<Rightarrow> None
           | Some err \<Rightarrow>
               if \<not> isPrunedHistoryError (errMessage err) then None
               else case lowerBoundTypeForMethod method of
                      None \<Rightarrow> None
                    | Some ty \<Rightarrow>
                        (case lowerBoundRequestBlock param of
                           None \<Rightarrow> None
                         | Some b \<Rightarrow>
                             if b < 0 \<or> currentHead = 0 \<or> word_of_int b > currentHead then None
                             else Some (NewLowerBoundData (wrap64 (b + 1)) now ty)))"

definition nodeVersion :: "UpstreamState \<Rightarrow> string" where
  "nodeVersion s =
     (case upLabels s of None \<Rightarrow> [] | Some l \<Rightarrow> (case GetLabel l ''client_version'' of Some v \<Rightarrow> v | None \<Rightarrow> []))"

text \<open>\<open>Inl\<close> is an error of \<open>sendUnaryRequest\<close>, \<open>Inr\<close> the wrapped answer. A request without a spec method would
  be dereferenced: \<open>None\<close>. The state of the upstream is read after the answer.\<close>

definition wrap_response :: "string \<Rightarrow> string \<Rightarrow> ResponseHolder \<Rightarrow> ResponseHolderWrapper" where
  "wrap_response upstream rid response =
     \<lparr>wrUpstreamId = upstream, wrRequestId = rid, wrNodeVersion = [], wrFinalizationType = None, wrFinalizationBlock = ZeroBlock,
      wrResponse = response\<rparr>"

definition after_response ::
  "flow_ops \<Rightarrow> 'v nodes \<Rightarrow> upstream_obj \<Rightarrow> RequestHolder \<Rightarrow> MethodParam option \<Rightarrow> ResponseHolder \<Rightarrow> 'v flow_state
     \<Rightarrow> ResponseHolderWrapper \<times> 'v flow_state" where
  "after_response F N u r param response st =
     (let state = nd_state N (fsWorld st) (uoId u);
          st = (case AutoTuneRateLimiter state of
                  Some a \<Rightarrow> (if ResponseCode response = 429 then add_call (CallIncErrors (uoId u) a) st else st)
                | None \<Rightarrow> st);
          (ty, block) = responseFinalizationMetadata state (requestBlockTagMetadata F param);
          st = (case liveLowerBoundFromPrunedError (nd_now N (fsWorld st)) (req_Method r) param response (Height (HeadData state)) of
                  Some b \<Rightarrow> add_call (CallUpdateLowerBound (uoId u) b) st
                | None \<Rightarrow> st)
      in (\<lparr>wrUpstreamId = uoId u, wrRequestId = req_Id r, wrNodeVersion = nodeVersion state, wrFinalizationType = ty,
           wrFinalizationBlock = block, wrResponse = response\<rparr>, st))"

definition sendUnaryRequest ::
  "flow_ops \<Rightarrow> 'v nodes \<Rightarrow> upstream_obj \<Rightarrow> RequestHolder \<Rightarrow> MethodParam option \<Rightarrow> 'v flow_state
     \<Rightarrow> ((flow_error + ResponseHolderWrapper) \<times> 'v flow_state) option" where
  "sendUnaryRequest F N u r param st =
     (let translator = getMethodTranslator (uoSpec u) (req_Method r) in
      case (case translator of None \<Rightarrow> Inr r | Some t \<Rightarrow> TranslateRequest F t r) of
        Inl e \<Rightarrow> Some (Inr (wrap_response (uoId u) (req_Id r)
            (ReplyErrorResponse (NewTotalFailureFromErr (req_Id r) e (req_RequestType r)))), st)
      | Inr up \<Rightarrow>
          (case req_SpecMethod up of
             None \<Rightarrow> None
           | Some m \<Rightarrow>
               (case getMethodConnector u m of
                  None \<Rightarrow> Some (Inl (Inl (NoApiConnectorsError (req_Method r))), st)
                | Some c \<Rightarrow>
                    (let (response, w) = nd_send N (uoId u) c up (fsWorld st);
                         st = st\<lparr>fsWorld := w\<rparr>;
                         response = (case translator of
                             None \<Rightarrow> response
                           | Some t \<Rightarrow> TranslateResponse F t r up (Height (HeadData (nd_state N w (uoId u)))) response);
                         (wrapper, st) = after_response F N u r param response st
                     in Some (Inr wrapper, st)))))"

section \<open>Executing a request\<close>

definition NoUpstream :: string where "NoUpstream = ''NoUpstream''"

definition totalFailureWrapper :: "RequestHolder \<Rightarrow> flow_error \<Rightarrow> ResponseHolderWrapper" where
  "totalFailureWrapper r err =
     wrap_response NoUpstream (req_Id r) (ReplyErrorResponse (NewTotalFailureFromErr (req_Id r) err (req_RequestType r)))"

text \<open>The errors of a strategy; a failing strategy is only built to report that a quorum read is not supported.\<close>

fun selection_response :: "selection_error \<Rightarrow> ResponseError" where
  "selection_response NoAvailableUpstreams = NoAvailableUpstreamsError"
| "selection_response (NoAvailableUpstreamsWithCause c) = NoAvailableUpstreamsErrorWithCause c"
| "selection_response (NotSupportedMethod m) = NotSupportedMethodError m"
| "selection_response Strategy.RateLimitError = Responses.RateLimitError"
| "selection_response (PresetError reason) = QuorumNotSupportedError reason"

fun call_error_value :: "call_error \<Rightarrow> flow_error" where
  "call_error_value StopRetryErr = Inr ''no retry''"
| "call_error_value (OtherErr e) = e"

definition handleErrors :: "nat \<Rightarrow> flow_error \<Rightarrow> call_error" where
  "handleErrors retries err = (if retries > 0 then StopRetryErr else OtherErr err)"

type_synonym ('s, 'v) selector = "request \<Rightarrow> 's \<times> 'v \<Rightarrow> (selection \<times> 's \<times> 'v) option"
type_synonym outcome = "ResponseHolderWrapper option \<times> call_error option"

text \<open>The function \<open>executeUnaryRequest\<close> hands to the executor, in an execution with \<open>retries\<close> retries.\<close>

definition unary_attempt ::
  "flow_ops \<Rightarrow> 'v nodes \<Rightarrow> ('s, 'v) selector \<Rightarrow> RequestHolder \<Rightarrow> MethodParam option \<Rightarrow> nat \<Rightarrow> 's \<times> 'v flow_state
     \<Rightarrow> (outcome \<times> 's \<times> 'v flow_state) option" where
  "unary_attempt F N select r param retries = (\<lambda>(s, st).
     case select (request_of r) (s, fsWorld st) of
       None \<Rightarrow> None
     | Some (Inl e, s, w) \<Rightarrow> Some ((None, Some (handleErrors retries (Inl (selection_response e)))), s, st\<lparr>fsWorld := w\<rparr>)
     | Some (Inr i, s, w) \<Rightarrow>
         (case nd_upstream N w i of
            None \<Rightarrow> None
          | Some u \<Rightarrow>
              (case sendUnaryRequest F N u r param (st\<lparr>fsWorld := w\<rparr>) of
                 None \<Rightarrow> None
               | Some (Inl e, st) \<Rightarrow> Some ((None, Some (handleErrors retries e)), s, st)
               | Some (Inr wrapper, st) \<Rightarrow> Some ((Some wrapper, None), s, st))))"

text \<open>The world of an execution is its retry count and the state of the flow, \<open>None\<close> after a panic.\<close>

type_synonym ('s, 'v) exec_world = "nat \<times> ('s \<times> 'v flow_state) option"
type_synonym policy_outcome = "(ResponseHolderWrapper option, call_error) PolicyResult"

definition policy_result :: "outcome \<Rightarrow> policy_outcome" where
  "policy_result out = \<lparr>prResult = fst out, prError = snd out, prDone = True, prSuccess = True, prSuccessAll = True\<rparr>"

definition flow_call ::
  "flow_ops \<Rightarrow> 'v nodes \<Rightarrow> ('s, 'v) selector \<Rightarrow> RequestHolder \<Rightarrow> MethodParam option \<Rightarrow> ('s, 'v) exec_world
     \<Rightarrow> policy_outcome \<times> ('s, 'v) exec_world" where
  "flow_call F N select r param = (\<lambda>(k, x).
     case Option.bind x (unary_attempt F N select r param k) of
       None \<Rightarrow> (policy_result (None, None), (k, None))
     | Some (out, x) \<Rightarrow> (policy_result out, (k, Some x)))"

text \<open>The executor \<open>createFlowExecutor\<close> builds when no hedge is configured: the retry policy around the call, or the
  bare call. \<open>ex_base\<close> is \<open>failsafe-go\<close>, \<open>ex_wait\<close> what the world does while a retry is delayed.\<close>

record ('s, 'v) executor =
  ex_base :: "(ResponseHolderWrapper option, call_error, ('s, 'v) exec_world) failsafe"
  ex_delays :: "('s, 'v) exec_world delay_ops"
  ex_values :: "(ResponseHolderWrapper option, call_error) retry_values"
  ex_errors :: ErrorConfigs
  ex_retry :: "RetryConfig option"
  ex_wait :: "i64 \<Rightarrow> 'v \<Rightarrow> 'v"

definition run_executor ::
  "('s, 'v) executor \<Rightarrow> (('s, 'v) exec_world \<Rightarrow> policy_outcome \<times> ('s, 'v) exec_world) \<Rightarrow> ('s, 'v) exec_world
     \<Rightarrow> (policy_outcome \<times> ('s, 'v) exec_world) option" where
  "run_executor X call w =
     (case ex_retry X of
        None \<Rightarrow> Some (call w)
      | Some c \<Rightarrow> retry_Apply (ex_values X) (ex_delays X) ((ex_base X)\<lparr>fs_inner := call\<rparr>) (CreateFlowRetryPolicy (ex_errors X) c) w)"

text \<open>\<open>None\<close>: a panic, or no return.\<close>

definition executeUnaryRequest ::
  "('s, 'v) executor \<Rightarrow> flow_ops \<Rightarrow> 'v nodes \<Rightarrow> ('s, 'v) selector \<Rightarrow> RequestHolder \<Rightarrow> 's \<times> 'v flow_state
     \<Rightarrow> (outcome \<times> 's \<times> 'v flow_state) option" where
  "executeUnaryRequest X F N select r sst =
     (case req_ParseParams F r of
        None \<Rightarrow> None
      | Some (param, r) \<Rightarrow>
          (case run_executor X (flow_call F N select r param) (0, Some sst) of
             Some (res, (_, Some sst)) \<Rightarrow> Some ((prResult res, prError res), sst)
           | _ \<Rightarrow> None))"

text \<open>The processors report an error of the executor as a total failure.\<close>

definition unary_response :: "RequestHolder \<Rightarrow> outcome \<Rightarrow> ResponseHolderWrapper option" where
  "unary_response r out =
     (case out of
        (_, Some e) \<Rightarrow> Some (totalFailureWrapper r (call_error_value e))
      | (wrapper, None) \<Rightarrow> wrapper)"

definition run_unary ::
  "('s, 'v) executor \<Rightarrow> flow_ops \<Rightarrow> 'v nodes \<Rightarrow> ('s, 'v) selector \<Rightarrow> RequestHolder \<Rightarrow> 's \<times> 'v flow_state
     \<Rightarrow> (ResponseHolderWrapper \<times> 's \<times> 'v flow_state) option" where
  "run_unary X F N select r sst =
     (case executeUnaryRequest X F N select r sst of
        None \<Rightarrow> None
      | Some (out, sst) \<Rightarrow> map_option (\<lambda>w. (w, sst)) (unary_response r out))"

section \<open>The unary processor and one-shot requests\<close>

definition unary_ProcessRequest ::
  "('s, 'v) executor \<Rightarrow> flow_ops \<Rightarrow> 'v nodes \<Rightarrow> string \<Rightarrow> ('s, 'v) selector \<Rightarrow> RequestHolder \<Rightarrow> 's \<times> 'v flow_state
     \<Rightarrow> (ResponseHolderWrapper \<times> 's \<times> 'v flow_state) option" where
  "unary_ProcessRequest X F N spec select r sst =
     (if IsSubscribeMethod (fo_specs F) spec (req_Method r)
      then Some (totalFailureWrapper r (Inl (ClientError (''unable to process a subscription request '' @ req_Method r))), sst)
      else run_unary X F N select r sst)"

definition selectAndSend ::
  "flow_ops \<Rightarrow> 'v nodes \<Rightarrow> ('s, 'v) selector \<Rightarrow> RequestHolder \<Rightarrow> 's \<times> 'v flow_state
     \<Rightarrow> ((flow_error + ResponseHolderWrapper) \<times> 's \<times> 'v flow_state) option" where
  "selectAndSend F N select r = (\<lambda>(s, st).
     case select (request_of r) (s, fsWorld st) of
       None \<Rightarrow> None
     | Some (Inl e, s, w) \<Rightarrow> Some (Inl (Inl (selection_response e)), s, st\<lparr>fsWorld := w\<rparr>)
     | Some (Inr i, s, w) \<Rightarrow>
         (case nd_upstream N w i of
            None \<Rightarrow> Some (Inl (Inl NoAvailableUpstreamsError), s, st\<lparr>fsWorld := w\<rparr>)
          | Some u \<Rightarrow>
              (case req_ParseParams F r of
                 None \<Rightarrow> None
               | Some (param, r) \<Rightarrow>
                   map_option (\<lambda>(res, st). (res, s, st)) (sendUnaryRequest F N u r param (st\<lparr>fsWorld := w\<rparr>)))))"

section \<open>Sticky methods\<close>

definition maxBytes :: nat where "maxBytes = 5"

definition strip_sticky :: "flow_ops \<Rightarrow> MethodParam option \<Rightarrow> RequestHolder \<Rightarrow> RequestHolder" where
  "strip_sticky F p r =
     (case p of
        Some (StringParam v) \<Rightarrow>
          (if length v > maxBytes then req_ModifyParams F (JStr (take (length v - maxBytes) v)) r else r)
      | _ \<Rightarrow> r)"

definition sticky_body :: "string \<Rightarrow> string \<Rightarrow> string option" where
  "sticky_body result hash = (if result = [] then None else Some (butlast result @ hash @ [CHR 0x22]))"

definition sticky_ProcessRequest ::
  "('s, 'v) executor \<Rightarrow> flow_ops \<Rightarrow> 'v nodes \<Rightarrow> ('s, 'v) selector \<Rightarrow> RequestHolder \<Rightarrow> 's \<times> 'v flow_state
     \<Rightarrow> (ResponseHolderWrapper \<times> 's \<times> 'v flow_state) option" where
  "sticky_ProcessRequest X F N select r sst =
     (case req_SpecMethod r of
        None \<Rightarrow> None
      | Some m \<Rightarrow>
          if IsStickySend m then
            (case req_ParseParams F r of
               None \<Rightarrow> None
             | Some (p, r) \<Rightarrow> run_unary X F N select (strip_sticky F p r) sst)
          else if IsStickyCreate m then
            (case executeUnaryRequest X F N select r sst of
               Some ((Some wr, None), s, st) \<Rightarrow>
                 (if HasError (wrResponse wr) then Some (wr, s, st)
                  else case nd_upstream N (fsWorld st) (wrUpstreamId wr) of
                         None \<Rightarrow> None
                       | Some u \<Rightarrow>
                           map_option (\<lambda>b. (wrap_response (wrUpstreamId wr) (wrRequestId wr)
                               (GenericResponse (NewSimpleHttpUpstreamResponse (ResponseId (wrResponse wr)) b (req_RequestType r))), s, st))
                             (sticky_body (ResponseResult (wrResponse wr)) (uoHashIndex u)))
             | Some (out, sst) \<Rightarrow> map_option (\<lambda>w. (w, sst)) (unary_response r out)
             | None \<Rightarrow> None)
          else Some (totalFailureWrapper r (Inl ServerError), sst))"

section \<open>Local methods\<close>

text \<open>A subscription context holds the ids of the live subscriptions; cancelling one is the second component of
  \<open>Unsubscribe\<close>.\<close>

definition Unsubscribe :: "string \<Rightarrow> string set \<Rightarrow> string set \<times> string option" where
  "Unsubscribe sub subs = (if sub \<in> subs then (subs - {sub}, Some sub) else (subs, None))"

definition processedServerError :: "RequestHolder \<Rightarrow> string \<Rightarrow> ResponseHolderWrapper" where
  "processedServerError r cause = totalFailureWrapper r (Inl (ServerErrorWithCause cause))"

definition simple_wrapper :: "RequestHolder \<Rightarrow> string \<Rightarrow> ResponseHolderWrapper" where
  "simple_wrapper r result =
     wrap_response NoUpstream (req_Id r) (GenericResponse (NewSimpleHttpUpstreamResponse (req_Id r) result (req_RequestType r)))"

definition quoted :: "string \<Rightarrow> string" where
  "quoted s = CHR 0x22 # s @ [CHR 0x22]"

definition local_result :: "string \<Rightarrow> string \<Rightarrow> string \<Rightarrow> string option" where
  "local_result chainId netVersion method =
     (if method = ''eth_chainId'' then Some (quoted chainId)
      else if method = ''net_version'' then Some (quoted netVersion)
      else None)"

definition local_ProcessRequest ::
  "flow_ops \<Rightarrow> string \<Rightarrow> string \<Rightarrow> string set option \<Rightarrow> RequestHolder \<Rightarrow> (ResponseHolderWrapper \<times> string set option) option" where
  "local_ProcessRequest F chainId netVersion subs r =
     (case req_SpecMethod r of
        None \<Rightarrow> None
      | Some m \<Rightarrow>
          if \<not> local m then Some (processedServerError r (''method '' @ [CHR 0x27] @ req_Method r @ [CHR 0x27] @ '' is not local''), subs)
          else case local_result chainId netVersion (req_Method r) of
                 Some result \<Rightarrow> Some (simple_wrapper r result, subs)
               | None \<Rightarrow>
                   (case subs of
                      Some ids \<Rightarrow>
                        (case fo_param0 F (case req_Body F r of Inr b \<Rightarrow> b | Inl _ \<Rightarrow> []) of
                           Inl e \<Rightarrow> Some (processedServerError r e, subs)
                         | Inr value \<Rightarrow>
                             map_option (\<lambda>sub. (simple_wrapper r ''true'', Some (fst (Unsubscribe sub ids)))) (ResultAsString value))
                    | None \<Rightarrow>
                        Some (totalFailureWrapper r (Inr (''there is no local handler for method '' @ [CHR 0x27] @ req_Method r @ [CHR 0x27])), None)))"

section \<open>Caching\<close>

definition req_view :: "(string \<Rightarrow> byte list) \<Rightarrow> flow_ops \<Rightarrow> RequestHolder \<Rightarrow> RequestView option" where
  "req_view sum256 F r =
     (case r of
        JsonRpcHolder q \<Rightarrow> json_view sum256 (fo_tag F) (fo_range F) q
      | RestHolder q \<Rightarrow> Some (rest_view sum256 q))"

text \<open>The cache processor: its environment, connectors and policies, when each policy answers, and the chain.\<close>

record 'c cache_parts =
  ca_env :: cache_env
  ca_ops :: "'c connector_ops"
  ca_policies :: "CachePolicy list"
  ca_arrived :: "CachePolicy list"
  ca_chain :: int
  ca_now :: i64
  ca_hash :: "string \<Rightarrow> byte list"

definition cache_Receive :: "'c cache_parts \<Rightarrow> RequestView \<Rightarrow> 'c connectors \<Rightarrow> string option \<times> 'c connectors" where
  "cache_Receive K v W = processor_Receive (ca_env K) (ca_ops K) (ca_now K) (ca_policies K) (ca_arrived K) (ca_chain K) v W"

definition cache_Store :: "'c cache_parts \<Rightarrow> RequestView \<Rightarrow> string \<Rightarrow> 'c connectors \<Rightarrow> 'c connectors" where
  "cache_Store K v result W = processor_Store (ca_env K) (ca_ops K) (ca_now K) (ca_policies K) (ca_chain K) v result W"

text \<open>The answer is stored in a goroutine of its own; here it has run when the processor returns.\<close>

definition cache_ProcessRequest ::
  "'c cache_parts \<Rightarrow> flow_ops \<Rightarrow> bool \<Rightarrow> (RequestHolder \<Rightarrow> 'x \<Rightarrow> (ResponseHolderWrapper \<times> 'x) option) \<Rightarrow> RequestHolder
     \<Rightarrow> 'c connectors \<times> 'x \<Rightarrow> (ResponseHolderWrapper \<times> 'c connectors \<times> 'x) option" where
  "cache_ProcessRequest K F quorumRequested delegate r = (\<lambda>(W, x).
     if quorumRequested then map_option (\<lambda>(w, x). (w, W, x)) (delegate r x)
     else case req_view (ca_hash K) F r of
            None \<Rightarrow> None
          | Some v \<Rightarrow>
              (case cache_Receive K v W of
                 (Some result, W) \<Rightarrow> Some (simple_wrapper r result, W, x)
               | (None, W) \<Rightarrow>
                   (case delegate r x of
                      None \<Rightarrow> None
                    | Some (w, x) \<Rightarrow>
                        Some (w, (if \<not> HasError (wrResponse w) \<and> \<not> HasStream (wrResponse w)
                                  then cache_Store K v (ResponseResult (wrResponse w)) W else W), x))))"

section \<open>Dispatching to many upstreams\<close>

partial_function (option) collect_loop ::
  "('s, 'v) selector \<Rightarrow> request \<Rightarrow> string list \<Rightarrow> 's \<times> 'v \<Rightarrow> ((ResponseError + string list) \<times> 's \<times> 'v) option" where
  "collect_loop select rq ids sw =
     (case select rq sw of
        None \<Rightarrow> None
      | Some (Inl e, sw) \<Rightarrow> Some (if ids = [] then Inl (selection_response e) else Inr ids, sw)
      | Some (Inr i, sw) \<Rightarrow>
          if i = [] \<or> i \<in> set ids then Some (if ids = [] then Inl NoAvailableUpstreamsError else Inr ids, sw)
          else collect_loop select rq (ids @ [i]) sw)"

declare collect_loop.simps [code]

definition collectDispatchUpstreamIDs ::
  "('s, 'v) selector \<Rightarrow> request \<Rightarrow> 's \<times> 'v \<Rightarrow> ((ResponseError + string list) \<times> 's \<times> 'v) option" where
  "collectDispatchUpstreamIDs select rq sw = collect_loop select rq [] sw"

definition isNullResponse :: "ResponseHolder \<Rightarrow> bool" where
  "isNullResponse response \<longleftrightarrow> trimSpace (ResponseResult response) = ''null''"

text \<open>One upstream of a dispatch: the error or the wrapped answer.\<close>

definition dispatch_one ::
  "flow_ops \<Rightarrow> 'v nodes \<Rightarrow> RequestHolder \<Rightarrow> MethodParam option \<Rightarrow> string \<Rightarrow> 'v flow_state
     \<Rightarrow> ((flow_error + ResponseHolderWrapper) \<times> 'v flow_state) option" where
  "dispatch_one F N r param i st =
     (case nd_upstream N (fsWorld st) i of
        None \<Rightarrow> Some (Inl (Inl NoAvailableUpstreamsError), st)
      | Some u \<Rightarrow> sendUnaryRequest F N u r param st)"

text \<open>The variables of the loop: the first null answer, the first error answer, the last error.\<close>

record notnull_vars =
  nullResult :: "ResponseHolderWrapper option"
  nnFallback :: "ResponseHolderWrapper option"
  nnLastErr :: "flow_error option"

definition first_of :: "'a option \<Rightarrow> 'a \<Rightarrow> 'a option" where
  "first_of old x = (if old = None then Some x else old)"

fun notnull_loop ::
  "flow_ops \<Rightarrow> 'v nodes \<Rightarrow> RequestHolder \<Rightarrow> MethodParam option \<Rightarrow> string list \<Rightarrow> notnull_vars \<Rightarrow> 'v flow_state
     \<Rightarrow> (ResponseHolderWrapper \<times> 'v flow_state) option" where
  "notnull_loop F N r param [] v st =
     Some (case nullResult v of
             Some w \<Rightarrow> w
           | None \<Rightarrow> (case nnFallback v of
               Some w \<Rightarrow> w
             | None \<Rightarrow> totalFailureWrapper r (case nnLastErr v of Some e \<Rightarrow> e | None \<Rightarrow> Inl NoAvailableUpstreamsError)), st)"
| "notnull_loop F N r param (i # ids) v st =
     (case nd_ctx_err N (fsWorld st) of
        Some e \<Rightarrow> Some (totalFailureWrapper r (Inr e), st)
      | None \<Rightarrow>
          (case dispatch_one F N r param i st of
             None \<Rightarrow> None
           | Some (Inl e, st) \<Rightarrow> notnull_loop F N r param ids (v\<lparr>nnLastErr := Some e\<rparr>) st
           | Some (Inr w, st) \<Rightarrow>
               if HasStream (wrResponse w) then Some (w, st)
               else if HasError (wrResponse w) then notnull_loop F N r param ids (v\<lparr>nnFallback := first_of (nnFallback v) w\<rparr>) st
               else if isNullResponse (wrResponse w) then notnull_loop F N r param ids (v\<lparr>nullResult := first_of (nullResult v) w\<rparr>) st
               else Some (w, st)))"

definition notnull_start :: notnull_vars where
  "notnull_start = \<lparr>nullResult = None, nnFallback = None, nnLastErr = None\<rparr>"

definition notnull_ProcessRequest ::
  "flow_ops \<Rightarrow> 'v nodes \<Rightarrow> ('s, 'v) selector \<Rightarrow> RequestHolder \<Rightarrow> 's \<times> 'v flow_state
     \<Rightarrow> (ResponseHolderWrapper \<times> 's \<times> 'v flow_state) option" where
  "notnull_ProcessRequest F N select r = (\<lambda>(s, st).
     case collectDispatchUpstreamIDs select (request_of r) (s, fsWorld st) of
       None \<Rightarrow> None
     | Some (Inl e, s, w) \<Rightarrow> Some (totalFailureWrapper r (Inl e), s, st\<lparr>fsWorld := w\<rparr>)
     | Some (Inr ids, s, w) \<Rightarrow>
         (case req_ParseParams F r of
            None \<Rightarrow> None
          | Some (param, r) \<Rightarrow>
              map_option (\<lambda>(x, st). (x, s, st)) (notnull_loop F N r param ids notnull_start (st\<lparr>fsWorld := w\<rparr>))))"

section \<open>Fan-out\<close>

text \<open>\<open>big.Int.SetString\<close> in base 16: an optional sign and at least one digit.\<close>

fun hex_digits :: "int \<Rightarrow> string \<Rightarrow> int option" where
  "hex_digits acc [] = Some acc"
| "hex_digits acc (c # s) = (case hex_val c of None \<Rightarrow> None | Some d \<Rightarrow> hex_digits (16 * acc + int d) s)"

definition big_SetString16 :: "string \<Rightarrow> int option" where
  "big_SetString16 s =
     (let negative = (s \<noteq> [] \<and> hd s = CHR ''-'');
          digits = (if s \<noteq> [] \<and> (hd s = CHR ''-'' \<or> hd s = CHR ''+'') then tl s else s)
      in if digits = [] then None
         else map_option (\<lambda>n. if negative then - n else n) (hex_digits 0 digits))"

text \<open>The texts of the errors that quote the value are shortened to their prefix.\<close>

definition parse_quantity :: "string \<Rightarrow> string + int" where
  "parse_quantity s =
     (let str = trimSpace s in
      if str = [] then Inl ''empty quantity result''
      else if \<not> hasPrefix str ''0x'' \<and> \<not> hasPrefix str ''0X'' then Inl ''invalid hex quantity result''
      else if drop 2 str = [] then Inl ''empty hex quantity result''
      else case big_SetString16 (drop 2 str) of None \<Rightarrow> Inl ''invalid hex quantity result'' | Some n \<Rightarrow> Inr n)"

definition parseHexQuantityResult :: "ResponseHolder \<Rightarrow> (string + int) option" where
  "parseHexQuantityResult response =
     (case ResponseResultString response of
        None \<Rightarrow> None
      | Some (Inl e) \<Rightarrow> Some (Inl e)
      | Some (Inr s) \<Rightarrow> Some (parse_quantity s))"

type_synonym fanoutResult = "flow_error + ResponseHolderWrapper"

record aggregator =
  agSelected :: "ResponseHolderWrapper option"
  agMax :: "int option"
  agFallback :: "ResponseHolderWrapper option"
  agLastErr :: "flow_error option"

definition new_aggregator :: aggregator where
  "new_aggregator = \<lparr>agSelected = None, agMax = None, agFallback = None, agLastErr = None\<rparr>"

definition broadcast_Record :: "fanoutResult \<Rightarrow> aggregator \<Rightarrow> aggregator option" where
  "broadcast_Record result a =
     (case result of
        Inl e \<Rightarrow> Some (a\<lparr>agLastErr := Some e\<rparr>)
      | Inr w \<Rightarrow>
          if HasStream (wrResponse w) then Some (a\<lparr>agLastErr := Some (Inr ''fan-out broadcast received streaming response'')\<rparr>)
          else if HasError (wrResponse w) then Some (a\<lparr>agFallback := first_of (agFallback a) w\<rparr>)
          else Some (a\<lparr>agSelected := first_of (agSelected a) w\<rparr>))"

definition maximum_Record :: "fanoutResult \<Rightarrow> aggregator \<Rightarrow> aggregator option" where
  "maximum_Record result a =
     (case result of
        Inl e \<Rightarrow> Some (a\<lparr>agLastErr := Some e\<rparr>)
      | Inr w \<Rightarrow>
          if HasStream (wrResponse w) then Some (a\<lparr>agLastErr := Some (Inr ''fan-out maximum-value received streaming response'')\<rparr>)
          else if HasError (wrResponse w) then Some (a\<lparr>agFallback := first_of (agFallback a) w\<rparr>)
          else case parseHexQuantityResult (wrResponse w) of
                 None \<Rightarrow> None
               | Some (Inl e) \<Rightarrow> Some (a\<lparr>agLastErr := Some (Inr e)\<rparr>)
               | Some (Inr n) \<Rightarrow>
                   Some (if (case agMax a of None \<Rightarrow> True | Some m \<Rightarrow> n > m) then a\<lparr>agMax := Some n, agSelected := Some w\<rparr> else a))"

definition aggregator_Record :: "string \<Rightarrow> fanoutResult \<Rightarrow> aggregator \<Rightarrow> aggregator option" where
  "aggregator_Record policy = (if policy = DispatchMaximumValue then maximum_Record else broadcast_Record)"

definition aggregator_Final :: "RequestHolder \<Rightarrow> aggregator \<Rightarrow> ResponseHolderWrapper" where
  "aggregator_Final r a =
     (case agSelected a of
        Some w \<Rightarrow> w
      | None \<Rightarrow> (case agFallback a of
          Some w \<Rightarrow> w
        | None \<Rightarrow> totalFailureWrapper r (case agLastErr a of Some e \<Rightarrow> e | None \<Rightarrow> Inl NoAvailableUpstreamsError)))"

fun record_all :: "string \<Rightarrow> (string, fanoutResult) gomap \<Rightarrow> string list \<Rightarrow> aggregator \<Rightarrow> aggregator option" where
  "record_all policy results [] a = Some a"
| "record_all policy results (i # ids) a =
     (case map_of results i of
        None \<Rightarrow> record_all policy results ids a
      | Some x \<Rightarrow> Option.bind (aggregator_Record policy x a) (record_all policy results ids))"

text \<open>The sends run in goroutines of their own; \<open>arrival\<close> is the order in which their results are received. The loop
  checks the context before it receives and when it waits.\<close>

fun fanout_receive ::
  "flow_ops \<Rightarrow> 'v nodes \<Rightarrow> RequestHolder \<Rightarrow> MethodParam option \<Rightarrow> string list \<Rightarrow> (string, fanoutResult) gomap \<Rightarrow> 'v flow_state
     \<Rightarrow> ((string + (string, fanoutResult) gomap) \<times> 'v flow_state) option" where
  "fanout_receive F N r param [] results st =
     Some ((case nd_ctx_err N (fsWorld st) of Some e \<Rightarrow> Inl e | None \<Rightarrow> Inr results), st)"
| "fanout_receive F N r param (i # arrival) results st =
     (case nd_ctx_err N (fsWorld st) of
        Some e \<Rightarrow> Some (Inl e, st)
      | None \<Rightarrow>
          (case dispatch_one F N r param i st of
             None \<Rightarrow> None
           | Some (res, st) \<Rightarrow> fanout_receive F N r param arrival (AList.update i res results) st))"

definition fanout_ProcessRequest ::
  "flow_ops \<Rightarrow> 'v nodes \<Rightarrow> ('s, 'v) selector \<Rightarrow> string \<Rightarrow> (string list \<Rightarrow> string list) \<Rightarrow> RequestHolder \<Rightarrow> 's \<times> 'v flow_state
     \<Rightarrow> (ResponseHolderWrapper \<times> 's \<times> 'v flow_state) option" where
  "fanout_ProcessRequest F N select policy arrival r = (\<lambda>(s, st).
     case collectDispatchUpstreamIDs select (request_of r) (s, fsWorld st) of
       None \<Rightarrow> None
     | Some (Inl e, s, w) \<Rightarrow> Some (totalFailureWrapper r (Inl e), s, st\<lparr>fsWorld := w\<rparr>)
     | Some (Inr ids, s, w) \<Rightarrow>
         (case req_ParseParams F r of
            None \<Rightarrow> None
          | Some (param, r) \<Rightarrow>
              (case fanout_receive F N r param (arrival ids) [] (st\<lparr>fsWorld := w\<rparr>) of
                 None \<Rightarrow> None
               | Some (Inl e, st) \<Rightarrow> Some (totalFailureWrapper r (Inr e), s, st)
               | Some (Inr results, st) \<Rightarrow>
                   map_option (\<lambda>a. (aggregator_Final r a, s, st)) (record_all policy results ids new_aggregator))))"

section \<open>Integrity\<close>

datatype IntegrityBlock = HeadBlock u64 | FinalizedIntegrityBlock u64

datatype IntegrityHandler = NoopIntegrityHandler | EthBlockNumberIntegrityHandler | EthGetBlockByNumberIntegrityHandler

definition integrity_handler :: "string \<Rightarrow> IntegrityHandler" where
  "integrity_handler method =
     (if method = ''eth_blockNumber'' then EthBlockNumberIntegrityHandler
      else if method = ''eth_getBlockByNumber'' then EthGetBlockByNumberIntegrityHandler
      else NoopIntegrityHandler)"

fun CanBeProcessed :: "IntegrityHandler \<Rightarrow> RequestHolder \<Rightarrow> bool" where
  "CanBeProcessed NoopIntegrityHandler r = False"
| "CanBeProcessed EthBlockNumberIntegrityHandler r = (req_Method r = ''eth_blockNumber'')"
| "CanBeProcessed EthGetBlockByNumberIntegrityHandler r = (req_Method r = ''eth_getBlockByNumber'')"

text \<open>\<open>GetSortedUpstreamIds\<close> with the two orders it is used with, descending by a height. Its sort is not stable; \<open>ro\<close> is
  any order of the entries.\<close>

definition GetSortedUpstreamIds ::
  "(ups_map \<Rightarrow> ups_map) \<Rightarrow> (string \<Rightarrow> UpstreamState \<Rightarrow> bool) \<Rightarrow> (UpstreamState \<Rightarrow> u64) \<Rightarrow> chain_sup \<Rightarrow> string list" where
  "GetSortedUpstreamIds ro keep height chain =
     map fst (sort_key (\<lambda>(i, s). - int (unat (height s))) (filter (\<lambda>(i, s). keep i s) (ro (upstreamStates chain))))"

definition finalized_of :: "UpstreamState \<Rightarrow> u64" where
  "finalized_of s = Height (GetBlock (case upBlockInfo s of Some b \<Rightarrow> b | None \<Rightarrow> []) FinalizedBlock)"

definition filterHeadFunc :: "u64 \<Rightarrow> UpstreamState \<Rightarrow> bool" where
  "filterHeadFunc currentHead s \<longleftrightarrow> \<not> IsEmptyByHeight (HeadData s) \<and> Height (HeadData s) > currentHead"

definition filterFinalizationFunc :: "u64 \<Rightarrow> UpstreamState \<Rightarrow> bool" where
  "filterFinalizationFunc current s \<longleftrightarrow> upBlockInfo s \<noteq> None \<and> finalized_of s > current"

text \<open>\<open>HandleResponse\<close>: whether to ask again, which upstreams, and the block learnt from the answer. The first handler slices
  the result without looking at its length.\<close>

type_synonym integrity_verdict = "bool \<times> string list \<times> IntegrityBlock option"

definition no_verdict :: integrity_verdict where "no_verdict = (False, [], None)"

definition head_verdict :: "(ups_map \<Rightarrow> ups_map) \<Rightarrow> chain_sup \<Rightarrow> string \<Rightarrow> u64 \<Rightarrow> integrity_verdict" where
  "head_verdict ro chain upstream n =
     (if n \<ge> Height (chHead (csHeadData (chState chain))) then (False, [], Some (HeadBlock n))
      else (True, GetSortedUpstreamIds ro (\<lambda>i s. i \<noteq> upstream \<and> filterHeadFunc n s) (\<lambda>s. Height (HeadData s)) chain, None))"

definition finalized_verdict :: "(ups_map \<Rightarrow> ups_map) \<Rightarrow> chain_sup \<Rightarrow> string \<Rightarrow> u64 \<Rightarrow> integrity_verdict" where
  "finalized_verdict ro chain upstream n =
     (case map_of (csBlocks (chState chain)) FinalizedBlock of
        None \<Rightarrow> (False, [], Some (FinalizedIntegrityBlock n))
      | Some f \<Rightarrow>
          if n \<ge> Height f then (False, [], Some (FinalizedIntegrityBlock n))
          else (True, GetSortedUpstreamIds ro (\<lambda>i s. i \<noteq> upstream \<and> filterFinalizationFunc n s) finalized_of chain, None))"

definition blockNumber_HandleResponse ::
  "flow_ops \<Rightarrow> (ups_map \<Rightarrow> ups_map) \<Rightarrow> chain_sup \<Rightarrow> ResponseHolderWrapper \<Rightarrow> integrity_verdict option" where
  "blockNumber_HandleResponse F ro chain w =
     (if HasError (wrResponse w) then Some no_verdict
      else case inner_bytes (ResponseResult (wrResponse w)) of
             None \<Rightarrow> None
           | Some s \<Rightarrow>
               Some (case fo_DecodeUint64 F s of
                       None \<Rightarrow> no_verdict
                     | Some n \<Rightarrow> head_verdict ro chain (wrUpstreamId w) n))"

definition response_number :: "flow_ops \<Rightarrow> string \<Rightarrow> u64 option" where
  "response_number F result = (case fo_member F result ''number'' of Some (JStr s) \<Rightarrow> fo_DecodeUint64 F s | _ \<Rightarrow> None)"

definition blockByNumber_HandleResponse ::
  "flow_ops \<Rightarrow> (ups_map \<Rightarrow> ups_map) \<Rightarrow> chain_sup \<Rightarrow> RequestHolder \<Rightarrow> ResponseHolderWrapper \<Rightarrow> integrity_verdict option" where
  "blockByNumber_HandleResponse F ro chain r w =
     (if HasError (wrResponse w) \<or> ResponseResult (wrResponse w) = ''null'' then Some no_verdict
      else case response_number F (ResponseResult (wrResponse w)) of
             None \<Rightarrow> Some no_verdict
           | Some n \<Rightarrow>
               (case req_ParseParams F r of
                  None \<Rightarrow> None
                | Some (Some (BlockNumberParam b), _) \<Rightarrow>
                    Some (if b = LatestBlockNumber F then head_verdict ro chain (wrUpstreamId w) n
                          else if b = FinalizedBlockNumber F then finalized_verdict ro chain (wrUpstreamId w) n
                          else if n \<ge> Height (chHead (csHeadData (chState chain))) then (False, [], Some (HeadBlock n))
                          else no_verdict)
                | Some _ \<Rightarrow> Some no_verdict))"

fun HandleResponse ::
  "flow_ops \<Rightarrow> (ups_map \<Rightarrow> ups_map) \<Rightarrow> chain_sup \<Rightarrow> IntegrityHandler \<Rightarrow> RequestHolder \<Rightarrow> ResponseHolderWrapper
     \<Rightarrow> integrity_verdict option" where
  "HandleResponse F ro chain NoopIntegrityHandler r w = Some no_verdict"
| "HandleResponse F ro chain EthBlockNumberIntegrityHandler r w = blockNumber_HandleResponse F ro chain w"
| "HandleResponse F ro chain EthGetBlockByNumberIntegrityHandler r w = blockByNumber_HandleResponse F ro chain r w"

definition updateBlocks :: "'v nodes \<Rightarrow> string \<Rightarrow> IntegrityBlock option \<Rightarrow> 'v flow_state \<Rightarrow> 'v flow_state" where
  "updateBlocks N i blk st =
     (case blk of
        None \<Rightarrow> st
      | Some b \<Rightarrow>
          (case nd_upstream N (fsWorld st) i of
             None \<Rightarrow> st
           | Some u \<Rightarrow>
               (case b of
                  HeadBlock n \<Rightarrow> add_call (CallUpdateHead (uoId u) n) st
                | FinalizedIntegrityBlock n \<Rightarrow> add_call (CallUpdateBlock (uoId u) n FinalizedBlock) st)))"

text \<open>The world of the flow has the chain supervisor and the limiters in front; a strategy sees only these.\<close>

type_synonym ('b, 'r, 'n) flow_world = "('b, 'r) sel_world \<times> 'n"

definition lift_select :: "('s, 'w) selector \<Rightarrow> ('s, 'w \<times> 'n) selector" where
  "lift_select select rq = (\<lambda>(s, (w, n)). map_option (\<lambda>(x, s, w). (x, s, (w, n))) (select rq (s, w)))"

definition flow_chain :: "('b, 'r, 'n) flow_world flow_state \<Rightarrow> chain_sup" where
  "flow_chain st = fst (fst (fsWorld st))"

definition NewSpecificOrderUpstreamStrategy :: strategy where
  "NewSpecificOrderUpstreamStrategy = \<lparr>selectedUpstreams = {}, additionalMatchers = [], upOrder = None\<rparr>"

definition integrity_handleResponse ::
  "(strategy, ('b, 'r, 'n) flow_world) executor \<Rightarrow> ('b, 'r) limiter_ops \<Rightarrow> flow_ops \<Rightarrow> ('b, 'r, 'n) flow_world nodes
     \<Rightarrow> predictor option \<Rightarrow> (ups_map \<Rightarrow> ups_map) \<Rightarrow> IntegrityHandler \<Rightarrow> RequestHolder \<Rightarrow> ResponseHolderWrapper
     \<Rightarrow> ('b, 'r, 'n) flow_world flow_state \<Rightarrow> (ResponseHolderWrapper \<times> ('b, 'r, 'n) flow_world flow_state) option" where
  "integrity_handleResponse X ops F N pr ro h r response st =
     (case HandleResponse F ro (flow_chain st) h r response of
        None \<Rightarrow> None
      | Some (again, ids, blk) \<Rightarrow>
          (let st = updateBlocks N (wrUpstreamId response) blk st in
           if \<not> again \<or> ids = [] then Some (response, st)
           else case executeUnaryRequest X F N (lift_select (ordered_SelectUpstream ops pr ids)) r (NewSpecificOrderUpstreamStrategy, st) of
                  None \<Rightarrow> None
                | Some ((_, Some e), _, st) \<Rightarrow> Some (response, st)
                | Some ((None, None), _, st) \<Rightarrow> None
                | Some ((Some response2, None), _, st) \<Rightarrow>
                    (case HandleResponse F ro (flow_chain st) h r response2 of
                       None \<Rightarrow> None
                     | Some (_, _, blk) \<Rightarrow> Some (response2, updateBlocks N (wrUpstreamId response2) blk st))))"

definition integrity_ProcessRequest ::
  "('s, ('b, 'r, 'n) flow_world) executor \<Rightarrow> (strategy, ('b, 'r, 'n) flow_world) executor \<Rightarrow> ('b, 'r) limiter_ops \<Rightarrow> flow_ops
     \<Rightarrow> ('b, 'r, 'n) flow_world nodes \<Rightarrow> predictor option \<Rightarrow> (ups_map \<Rightarrow> ups_map) \<Rightarrow> bool \<Rightarrow> string \<Rightarrow> ('s, ('b, 'r, 'n) flow_world) selector
     \<Rightarrow> RequestHolder \<Rightarrow> 's \<times> ('b, 'r, 'n) flow_world flow_state
     \<Rightarrow> (ResponseHolderWrapper \<times> 's \<times> ('b, 'r, 'n) flow_world flow_state) option" where
  "integrity_ProcessRequest X X2 ops F N pr ro quorumRequested spec select r sst =
     (let h = integrity_handler (req_Method r) in
      if quorumRequested \<or> \<not> CanBeProcessed h r then unary_ProcessRequest X F N spec select r sst
      else case executeUnaryRequest X F N select r sst of
             Some ((Some w, None), s, st) \<Rightarrow>
               (if HasError (wrResponse w) then Some (w, s, st)
                else map_option (\<lambda>(w, st). (w, s, st)) (integrity_handleResponse X2 ops F N pr ro h r w st))
           | Some (out, sst) \<Rightarrow> map_option (\<lambda>w. (w, sst)) (unary_response r out)
           | None \<Rightarrow> None)"

section \<open>Banning methods\<close>

definition OnResponseReceived ::
  "(string \<Rightarrow> bool) list \<Rightarrow> (string \<Rightarrow> bool) list \<Rightarrow> 'v nodes \<Rightarrow> RequestHolder \<Rightarrow> ResponseHolderWrapper \<Rightarrow> 'v flow_state \<Rightarrow> 'v flow_state" where
  "OnResponseReceived notAvailable available N r w st =
     (if \<not> HasError (wrResponse w) then st
      else if ClassifyMethodAvailability notAvailable available (GetError (wrResponse w)) \<noteq> MethodNotAvailable then st
      else case nd_upstream N (fsWorld st) (wrUpstreamId w) of
             None \<Rightarrow> st
           | Some u \<Rightarrow> add_call (CallBanMethod (uoId u) (req_Method r)) st)"

end
