(* ===== verification/FlowAnswers.thy ===== *)
theory FlowAnswers
  imports FlowProcessors
begin

text \<open>
  What the request processors guarantee. A rule for the retry loop around a call carries the facts about \<open>executeUnaryRequest\<close>:
  a request is answered, by upstreams that have not been asked before. The dispatching processors are compared with
  declarative descriptions of the answer they pick.
\<close>

section \<open>The retry loop around a call\<close>

text \<open>One turn of the flow's retry policy, in any world.\<close>

lemma flow_turn:
  assumes ok: "failsafe_ok F" and nc: "\<And>w. fs_canceled F w = None" and c: "in_i64 (Attempts c)"
    and i: "fs_inner F w = (r0, w0)" and st: "failedAttempts st = int k" "\<not> retriesExceeded st" "k \<le> retries_of c"
  shows "if flow_failure E (prResult r0) (prError r0) then
      (if k = retries_of c then \<exists>res st'. retry_turn V D F (CreateFlowRetryPolicy E c) prev st w = Inl (res, st', w0)
           \<and> prResult res = prResult r0 \<and> prError res = prError r0
       else \<exists>res st' d. retry_turn V D F (CreateFlowRetryPolicy E c) prev st w = Inr (res, st', fs_next F (fs_wait F d w0))
           \<and> prResult res = prResult r0 \<and> prError res = prError r0 \<and> failedAttempts st' = int (Suc k) \<and> \<not> retriesExceeded st')
    else \<exists>res st'. retry_turn V D F (CreateFlowRetryPolicy E c) prev st w = Inl (res, st', w0)
        \<and> (prResult res, prError res) = (case prev of
            Some p \<Rightarrow> if prError r0 = Some StopRetryErr then (prResult p, prError p) else (prResult r0, prError r0)
          | None \<Rightarrow> (prResult r0, prError r0))"
proof (cases "flow_failure E (prResult r0) (prError r0)")
  case True
  let ?c = "CreateFlowRetryPolicy E c"
  note pol = flow_policy [OF c, of E]
  have "retries_of c < 2 ^ 63 - 1" using c by (auto simp: retries_of_def in_i64_def)
  then have "in_i64 (int k + 1)" using st by (simp add: in_i64_def)
  then have fa: "wrap64 (int k + 1) = int k + 1" by (rule wrap64_id)
  let ?st1 = "st\<lparr>failedAttempts := int k + 1, retriesExceeded := int (retries_of c) < int k + 1\<rparr>"
  let ?r1 = "r0\<lparr>prDone := \<not> (k < retries_of c), prSuccess := False, prSuccessAll := False\<rparr>"
  have "allowsRetries ?c \<longleftrightarrow> 0 < retries_of c" by (simp add: allowsRetries_def pol)
  then have post: "PostExecute V F ?c w0 r0 st = (?r1, ?st1)"
    using True fa st
    by (cases "k = retries_of c") (auto simp: failsafe_post [OF ok] pol OnFailure_def Let_def failsafe_done [OF ok])
  have ns: "prError r0 \<noteq> Some StopRetryErr" using True by (auto simp: flow_failure_def)
  obtain d st2 where g: "getDelay D F ?c w0 ?st1 = (d, st2)" by (cases "getDelay D F ?c w0 ?st1")
  from getDelay_state [OF g] obtain l where st2: "st2 = ?st1\<lparr>lastDelay := l\<rparr>" by blast
  show ?thesis
  proof (cases "k = retries_of c")
    case True
    with \<open>flow_failure E _ _\<close> i post ns st show ?thesis by (simp add: retry_turn_def nc pol)
  next
    case False
    with st(3) have "k < retries_of c" by simp
    with \<open>flow_failure E _ _\<close> i post ns g st st2 show ?thesis by (simp add: retry_turn_def nc pol) blast
  qed
next
  case False
  note pol = flow_policy [OF c, of E]
  have post: "PostExecute V F (CreateFlowRetryPolicy E c) w0 r0 st = (r0\<lparr>prDone := True, prSuccess := True, prSuccessAll := True\<rparr>, st)"
    using False by (simp add: failsafe_post [OF ok] pol)
  from False i post st show ?thesis
    by (cases prev) (auto simp: retry_turn_def nc pol previous_success_def)
qed

text \<open>A rule for the loop: an invariant \<open>I\<close> of the number of retries, the outcome before and the world, and what holds of
  the answer.\<close>

lemma flow_retry_loop:
  assumes ok: "failsafe_ok F" and nc: "\<And>w. fs_canceled F w = None" and c: "in_i64 (Attempts c)"
    and step: "\<And>k prev w r0 w0. I k prev w \<Longrightarrow> k \<le> retries_of c \<Longrightarrow> fs_inner F w = (r0, w0) \<Longrightarrow>
      (if flow_failure E (prResult r0) (prError r0)
       then (if k = retries_of c then Q (prResult r0, prError r0) w0
             else \<forall>d. I (Suc k) (Some (prResult r0, prError r0)) (fs_next F (fs_wait F d w0)))
       else Q (case prev of Some p \<Rightarrow> if prError r0 = Some StopRetryErr then p else (prResult r0, prError r0)
                 | None \<Rightarrow> (prResult r0, prError r0)) w0)"
  shows "I k prev w \<Longrightarrow> k \<le> retries_of c \<Longrightarrow> failedAttempts st = int k \<Longrightarrow> \<not> retriesExceeded st \<Longrightarrow>
    prev = map_option (\<lambda>p. (prResult p, prError p)) prev' \<Longrightarrow>
    \<exists>res st' w'. retry_loop V D F (CreateFlowRetryPolicy E c) prev' st w = Some (res, st', w') \<and> Q (prResult res, prError res) w'"
proof (induction "retries_of c - k" arbitrary: k prev prev' st w rule: less_induct)
  case less
  obtain r0 w0 where i: "fs_inner F w = (r0, w0)" by (cases "fs_inner F w")
  note s = step [OF less.prems(1,2) i]
  note t = flow_turn [OF ok nc c i less.prems(3,4,2), of E V D prev']
  show ?case
  proof (cases "flow_failure E (prResult r0) (prError r0)")
    case True
    show ?thesis
    proof (cases "k = retries_of c")
      case last: True
      from t True last obtain res st' where "retry_turn V D F (CreateFlowRetryPolicy E c) prev' st w = Inl (res, st', w0)"
        "prResult res = prResult r0" "prError res = prError r0" by auto
      with s True last show ?thesis by (subst retry_loop.simps) simp
    next
      case False
      from t True False obtain res st' d where
        turn: "retry_turn V D F (CreateFlowRetryPolicy E c) prev' st w = Inr (res, st', fs_next F (fs_wait F d w0))"
        and eq: "prResult res = prResult r0" "prError res = prError r0" "failedAttempts st' = int (Suc k)" "\<not> retriesExceeded st'"
        by auto
      from s True False have "I (Suc k) (Some (prResult r0, prError r0)) (fs_next F (fs_wait F d w0))" by simp
      moreover from False less.prems(2) have "retries_of c - Suc k < retries_of c - k" "Suc k \<le> retries_of c" by simp_all
      ultimately have "\<exists>res' st'' w'. retry_loop V D F (CreateFlowRetryPolicy E c) (Some res) st' (fs_next F (fs_wait F d w0)) = Some (res', st'', w')
          \<and> Q (prResult res', prError res') w'"
        using eq by (intro less.hyps) auto
      with turn show ?thesis by (subst retry_loop.simps) simp
    qed
  next
    case False
    from t False obtain res st' where "retry_turn V D F (CreateFlowRetryPolicy E c) prev' st w = Inl (res, st', w0)"
      and eq: "(prResult res, prError res) = (case prev' of
            Some p \<Rightarrow> if prError r0 = Some StopRetryErr then (prResult p, prError p) else (prResult r0, prError r0)
          | None \<Rightarrow> (prResult r0, prError r0))" by auto
    moreover have "Q (prResult res, prError res) w0"
      using s False less.prems(5) eq by (cases prev') auto
    ultimately show ?thesis by (subst retry_loop.simps) simp
  qed
qed

section \<open>A request is answered\<close>

text \<open>What \<open>failsafe-go\<close> does with an execution that nobody cancels: it counts the retries, and a delay lets time pass.\<close>

definition execution_ok :: "('s, 'v) executor \<Rightarrow> bool" where
  "execution_ok X \<longleftrightarrow> failsafe_ok (ex_base X) \<and> (\<forall>w. fs_canceled (ex_base X) w = None)
     \<and> (\<forall>k x. fs_next (ex_base X) (k, x) = (Suc k, x))
     \<and> (\<forall>d k x. fs_wait (ex_base X) d (k, x) = (k, map_option (\<lambda>(s, st). (s, st\<lparr>fsWorld := ex_wait X d (fsWorld st)\<rparr>)) x))
     \<and> (\<forall>c. ex_retry X = Some c \<longrightarrow> in_i64 (Attempts c))"

definition resolved :: "outcome option \<Rightarrow> outcome \<Rightarrow> outcome" where
  "resolved prev out = (case prev of Some p \<Rightarrow> if snd out = Some StopRetryErr then p else out | None \<Rightarrow> out)"

lemma resolved_None [simp]: "resolved None out = out"
  by (simp add: resolved_def)

lemma execute_rule:
  assumes X: "execution_ok X" and parse: "req_ParseParams F r = Some (param, r')"
    and step: "\<And>k prev s st. J k prev s st \<Longrightarrow> k \<le> (case ex_retry X of None \<Rightarrow> 0 | Some c \<Rightarrow> retries_of c) \<Longrightarrow>
      \<exists>out s' st'. unary_attempt F N select r' param k (s, st) = Some (out, s', st') \<and> Q (resolved prev out) s' st'
        \<and> (flow_failure (ex_errors X) (fst out) (snd out) \<longrightarrow> (\<forall>d. J (Suc k) (Some out) s' (st'\<lparr>fsWorld := ex_wait X d (fsWorld st')\<rparr>)))"
    and start: "J 0 None s st"
  shows "\<exists>out s' st'. executeUnaryRequest X F N select r (s, st) = Some (out, s', st') \<and> Q out s' st'"
proof (cases "ex_retry X")
  case None
  from step [OF start] None obtain out s' st' where "unary_attempt F N select r' param 0 (s, st) = Some (out, s', st')" "Q out s' st'"
    by (auto simp: resolved_def)
  with None parse show ?thesis by (simp add: executeUnaryRequest_def run_executor_def flow_call_def policy_result_def)
next
  case (Some c)
  let ?call = "flow_call F N select r' param"
  let ?B = "(ex_base X)\<lparr>fs_inner := ?call\<rparr>"
  let ?I = "\<lambda>k prev w. fst w = k \<and> (\<exists>s st. snd w = Some (s, st) \<and> J k prev s st)"
  let ?Q = "\<lambda>out w. \<exists>s st. snd w = Some (s, st) \<and> Q out s st"
  have ok: "failsafe_ok ?B" and c: "in_i64 (Attempts c)" using X Some by (simp_all add: execution_ok_def failsafe_ok_def)
  have nc: "fs_canceled ?B w = None" for w using X by (cases w) (simp add: execution_ok_def)
  have go: "fs_next ?B (fs_wait ?B d (k, Some (s, st))) = (Suc k, Some (s, st\<lparr>fsWorld := ex_wait X d (fsWorld st)\<rparr>))" for d k s st
    using X by (simp add: execution_ok_def)
  have stepI: "if flow_failure (ex_errors X) (prResult r0) (prError r0)
       then (if k = retries_of c then ?Q (prResult r0, prError r0) w0
             else \<forall>d. ?I (Suc k) (Some (prResult r0, prError r0)) (fs_next ?B (fs_wait ?B d w0)))
       else ?Q (case prev of Some p \<Rightarrow> if prError r0 = Some StopRetryErr then p else (prResult r0, prError r0)
                 | None \<Rightarrow> (prResult r0, prError r0)) w0"
    if I: "?I k prev w" and k: "k \<le> retries_of c" and i: "fs_inner ?B w = (r0, w0)" for k prev w r0 w0
  proof -
    from I obtain s st where w: "w = (k, Some (s, st))" and J: "J k prev s st" by (cases w) auto
    from step [OF J] k Some obtain out s' st' where a: "unary_attempt F N select r' param k (s, st) = Some (out, s', st')"
      and q: "Q (resolved prev out) s' st'"
      and nxt: "flow_failure (ex_errors X) (fst out) (snd out) \<Longrightarrow> J (Suc k) (Some out) s' (st'\<lparr>fsWorld := ex_wait X d (fsWorld st')\<rparr>)" for d
      by auto
    from i w a have r0: "r0 = policy_result out" "w0 = (k, Some (s', st'))" by (auto simp: flow_call_def)
    have "flow_failure (ex_errors X) (fst out) (snd out) \<Longrightarrow> resolved prev out = out"
      by (auto simp: flow_failure_def resolved_def split: option.splits)
    with q nxt show ?thesis unfolding r0 policy_result_def go by (auto simp: resolved_def split: option.splits)
  qed
  have "\<exists>res ex w'. retry_loop (ex_values X) (ex_delays X) ?B (CreateFlowRetryPolicy (ex_errors X) c) None new_retryExecutor (0, Some (s, st)) = Some (res, ex, w')
      \<and> ?Q (prResult res, prError res) w'"
    by (rule flow_retry_loop [where I = ?I and Q = ?Q, OF ok nc c stepI]) (use start in \<open>auto simp: new_retryExecutor_def\<close>)
  then obtain res ex w' s' st' where "retry_loop (ex_values X) (ex_delays X) ?B (CreateFlowRetryPolicy (ex_errors X) c) None new_retryExecutor (0, Some (s, st)) = Some (res, ex, w')"
    "snd w' = Some (s', st')" "Q (prResult res, prError res) s' st'" by blast
  with Some parse show ?thesis
    by (cases w') (simp add: executeUnaryRequest_def run_executor_def retry_Apply_def)
qed

lemma req_ParseParams_keeps:
  "req_ParseParams F r = Some (p, r') \<Longrightarrow> req_SpecMethod r' = req_SpecMethod r \<and> req_Id r' = req_Id r \<and> req_Method r' = req_Method r
     \<and> req_RequestType r' = req_RequestType r \<and> request_of r' = request_of r"
  by (cases r) (auto simp: ParseParams_def request_of_def split: option.splits if_splits)

lemma translated_spec: "TranslateRequest F t r = Inr up \<Longrightarrow> req_SpecMethod up \<noteq> None"
  by (cases t) (auto simp: NewUpstreamJsonRpcRequest_def NewUpstreamRestRequest_def split: sum.splits prod.splits)

lemma after_response_world: "fsWorld (snd (after_response F N u r p resp st)) = fsWorld st"
  by (auto simp: after_response_def add_call_def Let_def split: prod.splits option.splits)

lemma after_response_wrapper:
  "wrUpstreamId (fst (after_response F N u r p resp st)) = uoId u \<and> wrRequestId (fst (after_response F N u r p resp st)) = req_Id r
     \<and> wrResponse (fst (after_response F N u r p resp st)) = resp"
  by (auto simp: after_response_def Let_def split: prod.splits)

text \<open>Sending answers with the id of the request and of the upstream, after at most one call of a connector.\<close>

lemma send_facts:
  assumes "req_SpecMethod r \<noteq> None"
  obtains res st' where "sendUnaryRequest F N u r p st = Some (res, st')"
    and "\<And>w. res = Inr w \<Longrightarrow> wrUpstreamId w = uoId u \<and> wrRequestId w = req_Id r"
    and "fsWorld st' = fsWorld st \<or> (\<exists>c q. fsWorld st' = snd (nd_send N (uoId u) c q (fsWorld st)))"
proof -
  let ?t = "getMethodTranslator (uoSpec u) (req_Method r)"
  let ?q = "case ?t of None \<Rightarrow> Inr r | Some t \<Rightarrow> TranslateRequest F t r"
  show ?thesis
  proof (cases ?q)
    case (Inl e)
    then show ?thesis by (intro that) (auto simp: sendUnaryRequest_def Let_def wrap_response_def)
  next
    case (Inr up)
    then have "req_SpecMethod up \<noteq> None" using assms translated_spec [of F _ r up] by (cases ?t) auto
    then obtain m where m: "req_SpecMethod up = Some m" by blast
    show ?thesis
    proof (cases "getMethodConnector u m")
      case None
      with Inr m show ?thesis by (intro that) (auto simp: sendUnaryRequest_def Let_def)
    next
      case (Some c)
      obtain resp w where s: "nd_send N (uoId u) c up (fsWorld st) = (resp, w)" by (cases "nd_send N (uoId u) c up (fsWorld st)")
      let ?resp = "case ?t of None \<Rightarrow> resp | Some t \<Rightarrow> TranslateResponse F t r up (Height (HeadData (nd_state N w (uoId u)))) resp"
      let ?a = "after_response F N u r p ?resp (st\<lparr>fsWorld := w\<rparr>)"
      have eq: "sendUnaryRequest F N u r p st = Some (Inr (fst ?a), snd ?a)"
        using Inr m Some s by (simp add: sendUnaryRequest_def Let_def split: prod.splits)
      have "fsWorld (snd ?a) = snd (nd_send N (uoId u) c up (fsWorld st))" by (simp add: after_response_world s)
      then show ?thesis by (intro that [OF eq]) (auto simp: after_response_wrapper)
    qed
  qed
qed

text \<open>Nothing panics in the states and worlds \<open>G\<close>: the method is known, its parameters parse, the strategy returns, and what it selects is an
  upstream. \<open>send_log\<close> is any record of the upstreams the connectors were called on.\<close>

definition flow_ready ::
  "('s \<Rightarrow> 'v \<Rightarrow> bool) \<Rightarrow> ('s, 'v) executor \<Rightarrow> flow_ops \<Rightarrow> 'v nodes \<Rightarrow> ('s, 'v) selector \<Rightarrow> RequestHolder \<Rightarrow> bool" where
  "flow_ready G X F N select r \<longleftrightarrow>
     req_SpecMethod r \<noteq> None \<and> req_ParseParams F r \<noteq> None
   \<and> (\<forall>s w. G s w \<longrightarrow> (\<exists>res s' w'. select (request_of r) (s, w) = Some (res, s', w') \<and> G s' w'
        \<and> (\<forall>i. res = Inr i \<longrightarrow> (\<exists>u. nd_upstream N w' i = Some u \<and> uoId u = i))))
   \<and> (\<forall>s i c q w. G s w \<longrightarrow> G s (snd (nd_send N i c q w))) \<and> (\<forall>s d w. G s w \<longrightarrow> G s (ex_wait X d w))"

definition send_log :: "('v \<Rightarrow> string list) \<Rightarrow> ('s, 'v) executor \<Rightarrow> 'v nodes \<Rightarrow> ('s, 'v) selector \<Rightarrow> request \<Rightarrow> bool" where
  "send_log asks X N select rq \<longleftrightarrow>
     (\<forall>i c q w. asks (snd (nd_send N i c q w)) = asks w @ [i])
   \<and> (\<forall>s w res s' w'. select rq (s, w) = Some (res, s', w') \<longrightarrow> asks w' = asks w)
   \<and> (\<forall>d w. asks (ex_wait X d w) = asks w)"

definition retry_limit :: "('s, 'v) executor \<Rightarrow> nat" where
  "retry_limit X = (case ex_retry X of None \<Rightarrow> 0 | Some c \<Rightarrow> retries_of c)"

text \<open>The answer is a wrapper from an upstream picked for this request, or the error of a first selection that asked nobody.\<close>

definition answered :: "RequestHolder \<Rightarrow> string set \<Rightarrow> string list \<Rightarrow> outcome \<Rightarrow> bool" where
  "answered r picked asked out \<longleftrightarrow>
     (\<exists>w. out = (Some w, None) \<and> wrUpstreamId w \<in> picked \<and> wrRequestId w = req_Id r)
   \<or> (\<exists>e. out = (None, Some (OtherErr e)) \<and> asked = [])"

context upstream_strategy
begin

lemma attempt_facts:
  assumes ready: "flow_ready G X F N select_upstream r" and logged: "send_log asks X N select_upstream (request_of r)"
    and parse: "req_ParseParams F r = Some (param, r')" and G: "G s (fsWorld st)"
  shows "\<exists>out s' st' asked. unary_attempt F N select_upstream r' param k (s, st) = Some (out, s', st') \<and> G s' (fsWorld st')
     \<and> tried s \<subseteq> tried s' \<and> asks (fsWorld st') = asks (fsWorld st) @ asked \<and> distinct asked \<and> length asked \<le> 1 \<and> set asked \<subseteq> tried s' - tried s
     \<and> ((\<exists>w. out = (Some w, None) \<and> wrUpstreamId w \<in> tried s' - tried s \<and> wrRequestId w = req_Id r)
        \<or> (\<exists>e. out = (None, Some (handleErrors k e)) \<and> asked = []))"
proof -
  from req_ParseParams_keeps [OF parse] have r': "req_SpecMethod r' = req_SpecMethod r" "req_Id r' = req_Id r" "request_of r' = request_of r" by auto
  from ready G obtain res s' w' where sel: "select_upstream (request_of r) (s, fsWorld st) = Some (res, s', w')" and Gw: "G s' w'"
    and up: "\<And>i. res = Inr i \<Longrightarrow> \<exists>u. nd_upstream N w' i = Some u \<and> uoId u = i"
    unfolding flow_ready_def by blast
  from logged sel have lw: "asks w' = asks (fsWorld st)" by (auto simp: send_log_def)
  note rem = remembers [OF sel]
  show ?thesis
  proof (cases res)
    case (Inl e)
    have "unary_attempt F N select_upstream r' param k (s, st)
        = Some ((None, Some (handleErrors k (Inl (selection_response e)))), s', st\<lparr>fsWorld := w'\<rparr>)"
      using sel Inl r' by (simp add: unary_attempt_def)
    then show ?thesis using Gw lw rem by (intro exI [of _ "[]"] exI conjI) (assumption | simp | blast)+
  next
    case (Inr i)
    from up [OF this] obtain u where u: "nd_upstream N w' i = Some u" "uoId u = i" by blast
    from fresh sel Inr have i: "i \<notin> tried s" "i \<in> tried s'" by auto
    have "req_SpecMethod r' \<noteq> None" using ready r' by (simp add: flow_ready_def)
    from send_facts [OF this, of F N u param "st\<lparr>fsWorld := w'\<rparr>"] obtain x st' where
      s: "sendUnaryRequest F N u r' param (st\<lparr>fsWorld := w'\<rparr>) = Some (x, st')"
      and x: "\<And>w. x = Inr w \<Longrightarrow> wrUpstreamId w = i \<and> wrRequestId w = req_Id r"
      and w: "fsWorld st' = w' \<or> (\<exists>c q. fsWorld st' = snd (nd_send N i c q w'))"
      using u r' by (metis flow_state.select_convs(1) flow_state.surjective flow_state.update_convs(1))
    from w Gw ready have G': "G s' (fsWorld st')" by (auto simp: flow_ready_def)
    from w lw logged have lg: "asks (fsWorld st') = asks (fsWorld st) \<or> asks (fsWorld st') = asks (fsWorld st) @ [i]" by (auto simp: send_log_def)
    show ?thesis
    proof (cases x)
      case Inl': (Inl e)
      have att: "unary_attempt F N select_upstream r' param k (s, st) = Some ((None, Some (handleErrors k e)), s', st')"
        using sel Inr u s Inl' r' by (simp add: unary_attempt_def)
      have "fsWorld st' = w'" using s Inl' by (auto simp: sendUnaryRequest_def Let_def split: sum.splits option.splits prod.splits)
      then show ?thesis using att G' lw rem by (intro exI [of _ "[]"] exI conjI) (assumption | simp | blast)+
    next
      case Inr': (Inr wr)
      have att: "unary_attempt F N select_upstream r' param k (s, st) = Some ((Some wr, None), s', st')"
        using sel Inr u s Inr' r' by (simp add: unary_attempt_def)
      from lg obtain asked where "asks (fsWorld st') = asks (fsWorld st) @ asked" "asked = [] \<or> asked = [i]" by auto
      with i x [OF Inr'] att G' rem show ?thesis
        by (intro exI [of _ "(Some wr, None)"] exI [of _ s'] exI [of _ st'] exI [of _ asked]) auto
    qed
  qed
qed

text \<open>However often it is retried, a request goes to each upstream at most once, and once one has answered it is
  answered.\<close>

lemma execute_facts:
  assumes X: "execution_ok X" and ready: "flow_ready G X F N select_upstream r"
    and logged: "send_log asks X N select_upstream (request_of r)" and G: "G s (fsWorld st)"
  shows "\<exists>out s' st' asked. executeUnaryRequest X F N select_upstream r (s, st) = Some (out, s', st') \<and> G s' (fsWorld st')
     \<and> asks (fsWorld st') = asks (fsWorld st) @ asked \<and> distinct asked \<and> length asked \<le> Suc (retry_limit X)
     \<and> set asked \<subseteq> tried s' - tried s \<and> answered r (tried s' - tried s) asked out"
proof -
  from ready obtain param r' where parse: "req_ParseParams F r = Some (param, r')" by (auto simp: flow_ready_def)
  let ?log = "\<lambda>n s2 (st2 :: 'w flow_state) asked. G s2 (fsWorld st2) \<and> tried s \<subseteq> tried s2 \<and> asks (fsWorld st2) = asks (fsWorld st) @ asked \<and> distinct asked
    \<and> length asked \<le> n \<and> set asked \<subseteq> tried s2 - tried s"
  let ?J = "\<lambda>k (prev :: outcome option) s2 st2. \<exists>asked. ?log k s2 st2 asked
    \<and> (if k = 0 then prev = None \<and> s2 = s else \<exists>w. prev = Some (Some w, None) \<and> wrUpstreamId w \<in> tried s2 - tried s \<and> wrRequestId w = req_Id r)"
  let ?Q = "\<lambda>out s2 st2. \<exists>asked. ?log (Suc (retry_limit X)) s2 st2 asked \<and> answered r (tried s2 - tried s) asked out"
  have "\<exists>out s' st'. executeUnaryRequest X F N select_upstream r (s, st) = Some (out, s', st') \<and> ?Q out s' st'"
  proof (rule execute_rule [where J = ?J and Q = ?Q, OF X parse])
    fix k prev s1 st1
    assume J: "?J k prev s1 st1" and k: "k \<le> (case ex_retry X of None \<Rightarrow> 0 | Some c \<Rightarrow> retries_of c)"
    then obtain asked where l: "?log k s1 st1 asked"
      and p: "if k = 0 then prev = None \<and> s1 = s else \<exists>w. prev = Some (Some w, None) \<and> wrUpstreamId w \<in> tried s1 - tried s \<and> wrRequestId w = req_Id r"
      by blast
    from l have "G s1 (fsWorld st1)" by blast
    from attempt_facts [OF ready logged parse this, of k] obtain out s2 st2 more where
      a: "unary_attempt F N select_upstream r' param k (s1, st1) = Some (out, s2, st2)" "G s2 (fsWorld st2)" "tried s1 \<subseteq> tried s2"
      and m: "asks (fsWorld st2) = asks (fsWorld st1) @ more" "distinct more" "length more \<le> 1" "set more \<subseteq> tried s2 - tried s1"
      and o1: "(\<exists>w. out = (Some w, None) \<and> wrUpstreamId w \<in> tried s2 - tried s1 \<and> wrRequestId w = req_Id r)
        \<or> (\<exists>e. out = (None, Some (handleErrors k e)) \<and> more = [])"
      by blast
    from l a(2,3) m have l2: "?log (Suc k) s2 st2 (asked @ more)" by auto
    have "answered r (tried s2 - tried s) (asked @ more) (resolved prev out)"
    proof (cases "\<exists>w. out = (Some w, None)")
      case True
      with o1 l a(3) show ?thesis by (auto simp: answered_def resolved_def split: option.splits)
    next
      case False
      with o1 obtain e where e: "out = (None, Some (handleErrors k e))" "more = []" by blast
      from e p l a(3) show ?thesis by (cases "k = 0") (auto simp: answered_def resolved_def handleErrors_def)
    qed
    moreover from k have "Suc k \<le> Suc (retry_limit X)" by (simp add: retry_limit_def)
    ultimately have Q: "?Q (resolved prev out) s2 st2" using l2 by (meson le_trans)
    have "?J (Suc k) (Some out) s2 (st2\<lparr>fsWorld := ex_wait X d (fsWorld st2)\<rparr>)"
      if f: "flow_failure (ex_errors X) (fst out) (snd out)" for d
    proof -
      from f have "fst out \<noteq> None" by (auto simp: flow_failure_def split: option.splits)
      with o1 obtain w where w: "out = (Some w, None)" "wrUpstreamId w \<in> tried s2 - tried s1" "wrRequestId w = req_Id r" by auto
      have "G s2 (ex_wait X d (fsWorld st2))" "asks (ex_wait X d (fsWorld st2)) = asks (fsWorld st2)"
        using ready logged a(2) by (auto simp: flow_ready_def send_log_def)
      with l2 w l show ?thesis by (intro exI [of _ "asked @ more"]) auto
    qed
    with a(1) Q show "\<exists>out s' st'. unary_attempt F N select_upstream r' param k (s1, st1) = Some (out, s', st') \<and> ?Q (resolved prev out) s' st'
        \<and> (flow_failure (ex_errors X) (fst out) (snd out) \<longrightarrow> (\<forall>d. ?J (Suc k) (Some out) s' (st'\<lparr>fsWorld := ex_wait X d (fsWorld st')\<rparr>)))"
      by blast
  next
    show "?J 0 None s st" using G by simp
  qed
  then show ?thesis by blast
qed

end

lemma lift_strategy:
  assumes "upstream_strategy (select :: ('s, 'w) selector) tried"
  shows "upstream_strategy (lift_select select :: ('s, 'w \<times> 'n) selector) tried"
proof
  note A = upstream_strategy.fresh [OF assms] upstream_strategy.remembers [OF assms]
  fix rq s i s' res and w w' :: "'w \<times> 'n"
  show "lift_select select rq (s, w) = Some (Inr i, s', w') \<Longrightarrow> i \<notin> tried s \<and> i \<in> tried s'"
    using A(1) by (cases w) (auto simp: lift_select_def)
  show "lift_select select rq (s, w) = Some (res, s', w') \<Longrightarrow> tried s \<subseteq> tried s'"
    using A(2) by (cases w) (fastforce simp: lift_select_def)
qed

interpretation rated: upstream_strategy "lift_select (ordered_SelectUpstream ops pr ids)" selectedUpstreams
  by (rule lift_strategy) (rule ordered.upstream_strategy_axioms)

interpretation robin: upstream_strategy "lift_select (generic_SelectUpstream ops pr ro)" selectedUpstreams
  by (rule lift_strategy) (rule generic.upstream_strategy_axioms)

text \<open>\<^bold>\<open>C13\<close>. A request served in rating order under the flow's retry policy is answered, if the policy allows \<open>n\<close> retries after at most
  \<open>n + 1\<close> calls of connectors, no two of them on the same upstream and none on an upstream the strategy has handed out before.
  The answer carries the request's id and comes from an upstream picked for it; an error instead of an answer means that no
  connector was called at all: a failing answer is kept when nothing is left to try.\<close>

theorem request_goes_to_each_upstream_once:
  assumes "execution_ok X" and "flow_ready G X F N (lift_select (ordered_SelectUpstream ops pr ids)) r"
    and "send_log asks X N (lift_select (ordered_SelectUpstream ops pr ids)) (request_of r)" and "G s (fsWorld st)"
  shows "\<exists>out s' st' asked. executeUnaryRequest X F N (lift_select (ordered_SelectUpstream ops pr ids)) r (s, st) = Some (out, s', st')
     \<and> asks (fsWorld st') = asks (fsWorld st) @ asked \<and> distinct asked \<and> length asked \<le> Suc (retry_limit X)
     \<and> set asked \<subseteq> selectedUpstreams s' - selectedUpstreams s \<and> answered r (selectedUpstreams s' - selectedUpstreams s) asked out"
  using rated.execute_facts [OF assms] by blast

section \<open>The first useful answer\<close>

definition usable :: "fanoutResult \<Rightarrow> bool" where
  "usable x \<longleftrightarrow> (case x of
     Inr w \<Rightarrow> HasStream (wrResponse w) \<or> \<not> HasError (wrResponse w) \<and> \<not> isNullResponse (wrResponse w)
   | Inl _ \<Rightarrow> False)"

definition null_answer :: "fanoutResult \<Rightarrow> bool" where
  "null_answer x \<longleftrightarrow> (case x of
     Inr w \<Rightarrow> \<not> HasStream (wrResponse w) \<and> \<not> HasError (wrResponse w) \<and> isNullResponse (wrResponse w)
   | Inl _ \<Rightarrow> False)"

definition error_answer :: "fanoutResult \<Rightarrow> bool" where
  "error_answer x \<longleftrightarrow> (case x of Inr w \<Rightarrow> \<not> HasStream (wrResponse w) \<and> HasError (wrResponse w) | Inl _ \<Rightarrow> False)"

definition first_with :: "(fanoutResult \<Rightarrow> bool) \<Rightarrow> fanoutResult list \<Rightarrow> ResponseHolderWrapper option" where
  "first_with P outs = map_option projr (List.find P outs)"

definition last_error :: "fanoutResult list \<Rightarrow> flow_error option" where
  "last_error outs = map_option projl (List.find isl (rev outs))"

text \<open>The description: the first useful answer, else the first null one, else the first error answer, else the last error.\<close>

definition notnull_pick :: "RequestHolder \<Rightarrow> fanoutResult list \<Rightarrow> ResponseHolderWrapper" where
  "notnull_pick r outs =
     (case first_with usable outs of
        Some w \<Rightarrow> w
      | None \<Rightarrow> (case first_with null_answer outs of
          Some w \<Rightarrow> w
        | None \<Rightarrow> (case first_with error_answer outs of
            Some w \<Rightarrow> w
          | None \<Rightarrow> totalFailureWrapper r (case last_error outs of Some e \<Rightarrow> e | None \<Rightarrow> Inl NoAvailableUpstreamsError))))"

fun dispatch_seq ::
  "flow_ops \<Rightarrow> 'v nodes \<Rightarrow> RequestHolder \<Rightarrow> MethodParam option \<Rightarrow> string list \<Rightarrow> 'v flow_state \<Rightarrow> (fanoutResult list \<times> 'v flow_state) option" where
  "dispatch_seq F N r param [] st = Some ([], st)"
| "dispatch_seq F N r param (i # ids) st =
     (case dispatch_one F N r param i st of
        None \<Rightarrow> None
      | Some (x, st) \<Rightarrow> map_option (\<lambda>(xs, st). (x # xs, st)) (dispatch_seq F N r param ids st))"

lemma find_append: "List.find P (xs @ ys) = (case List.find P xs of None \<Rightarrow> List.find P ys | Some x \<Rightarrow> Some x)"
  by (induction xs) auto

lemma first_with_snoc: "first_with P (outs @ [x]) = (case first_with P outs of Some w \<Rightarrow> Some w | None \<Rightarrow> if P x then Some (projr x) else None)"
  by (auto simp: first_with_def find_append split: option.split)

lemma last_error_snoc: "last_error (outs @ [x]) = (if isl x then Some (projl x) else last_error outs)"
  by (simp add: last_error_def)

definition vars_of :: "fanoutResult list \<Rightarrow> notnull_vars" where
  "vars_of outs = \<lparr>nullResult = first_with null_answer outs, nnFallback = first_with error_answer outs, nnLastErr = last_error outs\<rparr>"

lemma vars_of_Nil: "vars_of [] = notnull_start"
  by (simp add: vars_of_def notnull_start_def first_with_def last_error_def)

lemma first_with_none: "list_all (\<lambda>x. \<not> P x) outs \<Longrightarrow> first_with P outs = None"
  by (induction outs) (auto simp: first_with_def)

text \<open>What one result does to the variables.\<close>

lemma vars_of_snoc:
  "vars_of (outs @ [Inl e]) = (vars_of outs)\<lparr>nnLastErr := Some e\<rparr>"
  "error_answer (Inr w) \<Longrightarrow> vars_of (outs @ [Inr w]) = (vars_of outs)\<lparr>nnFallback := first_of (nnFallback (vars_of outs)) w\<rparr>"
  "null_answer (Inr w) \<Longrightarrow> vars_of (outs @ [Inr w]) = (vars_of outs)\<lparr>nullResult := first_of (nullResult (vars_of outs)) w\<rparr>"
  by (auto simp: vars_of_def first_with_snoc last_error_snoc null_answer_def error_answer_def first_of_def split: option.split)

lemma pick_usable: "list_all (\<lambda>x. \<not> usable x) outs \<Longrightarrow> usable (Inr w) \<Longrightarrow> notnull_pick r (outs @ [Inr w]) = w"
  by (simp add: notnull_pick_def first_with_snoc first_with_none)

lemma notnull_loop_picks:
  assumes ctx: "\<And>w. nd_ctx_err N w = None"
  shows "notnull_loop F N r param ids (vars_of outs0) st = Some (w, st') \<Longrightarrow> list_all (\<lambda>x. \<not> usable x) outs0 \<Longrightarrow>
    \<exists>asked rest outs. ids = asked @ rest \<and> dispatch_seq F N r param asked st = Some (outs, st') \<and> w = notnull_pick r (outs0 @ outs)
      \<and> list_all (\<lambda>x. \<not> usable x) (butlast outs) \<and> (rest \<noteq> [] \<longrightarrow> outs \<noteq> [] \<and> usable (last outs))"
proof (induction ids arbitrary: outs0 st)
  case Nil
  from Nil.prems(2) first_with_none have "first_with usable outs0 = None" by blast
  with Nil.prems(1) show ?case
    by (intro exI [of _ "[]"]) (auto simp: vars_of_def notnull_pick_def split: option.splits)
next
  case (Cons i ids)
  from Cons.prems(1) ctx obtain x st1 where d: "dispatch_one F N r param i st = Some (x, st1)"
    by (auto split: option.splits)
  have more: ?case if l: "notnull_loop F N r param ids (vars_of (outs0 @ [x])) st1 = Some (w, st')" and n: "\<not> usable x"
  proof -
    from Cons.IH [OF l] n Cons.prems(2) obtain asked rest outs where
      "ids = asked @ rest" "dispatch_seq F N r param asked st1 = Some (outs, st')" "w = notnull_pick r ((outs0 @ [x]) @ outs)"
      "list_all (\<lambda>x. \<not> usable x) (butlast outs)" "rest \<noteq> [] \<longrightarrow> outs \<noteq> [] \<and> usable (last outs)" by auto
    with d n show ?thesis by (intro exI [of _ "i # asked"] exI [of _ rest] exI [of _ "x # outs"]) auto
  qed
  show ?case
  proof (cases x)
    case (Inl e)
    with Cons.prems(1) ctx d show ?thesis by (intro more) (auto simp: vars_of_snoc usable_def)
  next
    case (Inr y)
    show ?thesis
    proof (cases "usable x")
      case True
      with Cons.prems(1) ctx d Inr have "w = y" "st' = st1" by (auto simp: usable_def split: if_splits)
      with True d Inr pick_usable [OF Cons.prems(2), of y r] show ?thesis
        by (intro exI [of _ "[i]"] exI [of _ ids] exI [of _ "[x]"]) auto
    next
      case False
      with Inr have "error_answer (Inr y) \<or> null_answer (Inr y)" by (auto simp: usable_def error_answer_def null_answer_def)
      with False Cons.prems(1) ctx d Inr show ?thesis
        by (intro more) (auto simp: vars_of_snoc error_answer_def null_answer_def usable_def split: if_splits)
    qed
  qed
qed


section \<open>A dispatch reaches every upstream\<close>

lemma filter_loop_only:
  assumes "filter_loop ops pr rq chain (MultiMatcher (request_matchers extra rq)) ids cur trace st = Some ((i, cur', trace'), st')"
    and "eligible pr rq chain extra j" "unlimited chain j" "j \<in> fst st'"
  shows "j \<in> fst st \<or> j = i"
  using assms
proof (induction ids arbitrary: cur trace st)
  case (Cons k ids)
  from Cons.prems(1) show ?case
  proof (cases rule: filter_loop_cases)
    case unknown
    with Cons.IH Cons.prems(2-) show ?thesis by blast
  next
    case (selected state st1 t)
    with Cons.prems show ?thesis by auto
  next
    case (skipped state c t st1)
    have "j \<in> fst st1 \<or> j = i" using Cons.IH [OF skipped(2)] Cons.prems(2-) by blast
    moreover have "j \<noteq> k \<or> j \<in> fst st"
      using skipped(1,5) Cons.prems(2,3) by (auto simp: eligible_def unlimited_def Match_Multi_Success simp del: Match.simps)
    ultimately show ?thesis using skipped(4) by auto
  qed
qed simp

lemma ordered_select_step:
  assumes total: "\<forall>i state. GetUpstreamState chain i = Some state \<longrightarrow> Match pr (MultiMatcher (request_matchers (additionalMatchers s) rq)) i (Some state) \<noteq> None"
    and cand: "set (case upOrder s of None \<Rightarrow> ids | Some f \<Rightarrow> f ids) = set ids" and ne: "[] \<notin> set ids"
  shows "\<exists>r s' w'. ordered_SelectUpstream ops pr ids rq (s, (chain, w)) = Some (r, s', (chain, w'))
    \<and> additionalMatchers s' = additionalMatchers s \<and> upOrder s' = upOrder s \<and> selectedUpstreams s \<subseteq> selectedUpstreams s'
    \<and> (\<forall>i. r = Inr i \<longrightarrow> i \<in> set ids \<and> i \<notin> selectedUpstreams s \<and> i \<in> selectedUpstreams s' \<and> eligible pr rq chain (additionalMatchers s) i)
    \<and> (\<forall>j. eligible pr rq chain (additionalMatchers s) j \<longrightarrow> unlimited chain j \<longrightarrow> j \<in> set ids \<longrightarrow>
         (j \<in> selectedUpstreams s' \<longrightarrow> j \<in> selectedUpstreams s \<or> r = Inr j) \<and> (isl r \<longrightarrow> j \<in> selectedUpstreams s))"
proof (cases "ids = []")
  case True
  then show ?thesis by (simp add: ordered_SelectUpstream_def)
next
  case False
  let ?ids = "case upOrder s of None \<Rightarrow> ids | Some f \<Rightarrow> f ids"
  let ?mm = "MultiMatcher (request_matchers (additionalMatchers s) rq)"
  have "filter_loop ops pr rq chain ?mm ?ids None [] (selectedUpstreams s, w) \<noteq> None"
    using total by (intro filter_loop_total) blast
  then obtain i cur t sel w' where f: "filter_loop ops pr rq chain ?mm ?ids None [] (selectedUpstreams s, w) = Some ((i, cur, t), (sel, w'))" by auto
  have sel: "ordered_SelectUpstream ops pr ids rq (s, (chain, w))
      = Some (if i \<noteq> [] then Inr i else Inl (selectionError cur (Some t)), s\<lparr>selectedUpstreams := sel\<rparr>, (chain, w'))"
    using False f by (simp add: ordered_SelectUpstream_def filterUpstreams_def finish_selection_def)
  from filter_loop_sound [OF f] have sound: "selectedUpstreams s \<subseteq> sel"
    "i \<noteq> [] \<Longrightarrow> i \<in> set ids \<and> i \<notin> selectedUpstreams s \<and> i \<in> sel \<and> eligible pr rq chain (additionalMatchers s) i"
    using cand by (auto simp: eligible_def Match_Multi_Success simp del: Match.simps)
  have "(j \<in> sel \<longrightarrow> j \<in> selectedUpstreams s \<or> j = i) \<and> (i = [] \<longrightarrow> j \<in> selectedUpstreams s)"
    if "eligible pr rq chain (additionalMatchers s) j" "unlimited chain j" "j \<in> set ids" for j
    using filter_loop_only [OF f that(1,2)] filter_loop_complete [OF f] that cand ne by auto
  with sel sound ne show ?thesis by (cases "i = []") auto
qed

text \<open>The collected ids of a dispatch over \<open>ids\<close>.\<close>

lemma collect_ordered:
  assumes total: "\<forall>i state. GetUpstreamState chain i = Some state \<longrightarrow> Match pr (MultiMatcher (request_matchers extra rq)) i (Some state) \<noteq> None"
    and cand: "set (case order of None \<Rightarrow> ids | Some f \<Rightarrow> f ids) = set ids" and ne: "[] \<notin> set ids"
  shows "additionalMatchers s = extra \<Longrightarrow> upOrder s = order \<Longrightarrow> distinct l \<Longrightarrow> set l \<subseteq> selectedUpstreams s \<Longrightarrow>
    (\<forall>i \<in> set l. i \<in> set ids \<and> eligible pr rq chain extra i) \<Longrightarrow>
    (\<forall>j \<in> set ids. eligible pr rq chain extra j \<longrightarrow> unlimited chain j \<longrightarrow> j \<in> selectedUpstreams s \<longrightarrow> j \<in> set l) \<Longrightarrow>
    \<exists>res s' w'. collect_loop (lift_select (ordered_SelectUpstream ops pr ids)) rq l (s, ((chain, w), n)) = Some (res, s', w')
      \<and> (\<forall>k. res = Inr k \<longrightarrow> distinct k \<and> (\<forall>i \<in> set k. i \<in> set ids \<and> eligible pr rq chain extra i))
      \<and> (\<forall>j \<in> set ids. eligible pr rq chain extra j \<longrightarrow> unlimited chain j \<longrightarrow> (\<exists>k. res = Inr k \<and> j \<in> set k))"
proof (induction "card (set ids - selectedUpstreams s)" arbitrary: s l w rule: less_induct)
  case less
  note tot = total [folded less.prems(1)] and cnd = cand [folded less.prems(2)]
  from ordered_select_step [OF tot cnd ne, of ops w] less.prems(1,2) obtain r s' w' where
    sel: "ordered_SelectUpstream ops pr ids rq (s, (chain, w)) = Some (r, s', (chain, w'))"
    and keep: "additionalMatchers s' = extra" "upOrder s' = order" "selectedUpstreams s \<subseteq> selectedUpstreams s'"
    and pick: "\<And>i. r = Inr i \<Longrightarrow> i \<in> set ids \<and> i \<notin> selectedUpstreams s \<and> i \<in> selectedUpstreams s' \<and> eligible pr rq chain extra i"
    and all: "\<And>j. eligible pr rq chain extra j \<Longrightarrow> unlimited chain j \<Longrightarrow> j \<in> set ids \<Longrightarrow>
         (j \<in> selectedUpstreams s' \<longrightarrow> j \<in> selectedUpstreams s \<or> r = Inr j) \<and> (isl r \<longrightarrow> j \<in> selectedUpstreams s)"
    by auto
  have lsel: "lift_select (ordered_SelectUpstream ops pr ids) rq (s, ((chain, w), n)) = Some (r, s', ((chain, w'), n))"
    using sel by (simp add: lift_select_def)
  show ?case
  proof (cases r)
    case (Inl e)
    then have "\<forall>j \<in> set ids. eligible pr rq chain extra j \<longrightarrow> unlimited chain j \<longrightarrow> j \<in> set l" using all less.prems(6) by auto
    with lsel Inl less.prems(3,5) show ?thesis by (subst collect_loop.simps) (cases "l = []"; auto)
  next
    case (Inr i)
    from pick [OF Inr] ne less.prems(4) have i: "i \<in> set ids" "i \<noteq> []" "i \<notin> set l" "i \<notin> selectedUpstreams s" "i \<in> selectedUpstreams s'"
      "eligible pr rq chain extra i" by auto
    have "card (set ids - selectedUpstreams s') < card (set ids - selectedUpstreams s)"
      using i keep(3) by (intro psubset_card_mono) auto
    moreover have "distinct (l @ [i])" "set (l @ [i]) \<subseteq> selectedUpstreams s'"
      "\<forall>k \<in> set (l @ [i]). k \<in> set ids \<and> eligible pr rq chain extra k"
      using i keep(3) less.prems(3-5) by auto
    moreover have "\<forall>j \<in> set ids. eligible pr rq chain extra j \<longrightarrow> unlimited chain j \<longrightarrow> j \<in> selectedUpstreams s' \<longrightarrow> j \<in> set (l @ [i])"
    proof (intro ballI impI)
      fix j assume j: "j \<in> set ids" "eligible pr rq chain extra j" "unlimited chain j" "j \<in> selectedUpstreams s'"
      from all [OF j(2,3,1)] j(4) Inr have "j \<in> selectedUpstreams s \<or> j = i" by auto
      with less.prems(6) j show "j \<in> set (l @ [i])" by auto
    qed
    ultimately have "\<exists>res s'' w''. collect_loop (lift_select (ordered_SelectUpstream ops pr ids)) rq (l @ [i]) (s', ((chain, w'), n)) = Some (res, s'', w'')
      \<and> (\<forall>k. res = Inr k \<longrightarrow> distinct k \<and> (\<forall>i \<in> set k. i \<in> set ids \<and> eligible pr rq chain extra i))
      \<and> (\<forall>j \<in> set ids. eligible pr rq chain extra j \<longrightarrow> unlimited chain j \<longrightarrow> (\<exists>k. res = Inr k \<and> j \<in> set k))"
      by (intro less.hyps [OF _ keep(1,2)])
    with lsel Inr i show ?thesis by (subst collect_loop.simps) simp
  qed
qed

text \<open>\<^bold>\<open>C16\<close>. A dispatch goes to every upstream that can serve the request: collecting ends, names no upstream twice and
  only upstreams that are known, match the request and satisfy its selectors, and misses none of those that are not rate
  limited.\<close>

theorem dispatch_reaches_every_upstream:
  assumes "\<forall>c \<in> set sels. sel_proper c" "states_complete chain"
    and "(additionalMatchers s, upOrder s) = buildSelectorRouting sels supv (Some chain)"
    and "selectedUpstreams s = {}" "[] \<notin> set ids"
  shows "\<exists>res s' w'. collectDispatchUpstreamIDs (lift_select (ordered_SelectUpstream ops (Some (routing_predict supv)) ids)) rq
        (s, ((chain, w), n)) = Some (res, s', w')
     \<and> (\<forall>l. res = Inr l \<longrightarrow> distinct l \<and> (\<forall>i \<in> set l. i \<in> set ids \<and> eligible (Some (routing_predict supv)) rq chain (additionalMatchers s) i))
     \<and> (\<forall>j \<in> set ids. eligible (Some (routing_predict supv)) rq chain (additionalMatchers s) j \<longrightarrow> unlimited chain j \<longrightarrow>
          (\<exists>l. res = Inr l \<and> j \<in> set l))"
proof -
  let ?pr = "Some (routing_predict supv)"
  have extra: "additionalMatchers s = fst (buildSelectorRouting sels supv (Some chain))"
    and order: "upOrder s = snd (buildSelectorRouting sels supv (Some chain))"
    using assms(3) by (metis fst_conv, metis snd_conv)
  have total: "\<forall>i state. GetUpstreamState chain i = Some state \<longrightarrow>
      Match ?pr (MultiMatcher (request_matchers (additionalMatchers s) rq)) i (Some state) \<noteq> None"
    using request_match_total [OF assms(2) _ assms(1)] unfolding extra by blast
  have cand: "set (case upOrder s of None \<Rightarrow> ids | Some f \<Rightarrow> f ids) = set ids"
    using order order_set [of sels supv "Some chain" _ ids] by (auto split: option.split)
  show ?thesis unfolding collectDispatchUpstreamIDs_def
    using collect_ordered [OF total cand assms(5), of s "[]"] assms(4) by simp
qed

section \<open>The answer of a fan-out\<close>

definition quantity :: "fanoutResult \<Rightarrow> int option" where
  "quantity x =
     (case x of
        Inr w \<Rightarrow> (if HasStream (wrResponse w) \<or> HasError (wrResponse w) then None
                  else case parseHexQuantityResult (wrResponse w) of Some (Inr n) \<Rightarrow> Some n | _ \<Rightarrow> None)
      | Inl _ \<Rightarrow> None)"

text \<open>The results in the order of the ids, as they are recorded.\<close>

definition in_order :: "(string, fanoutResult) gomap \<Rightarrow> string list \<Rightarrow> fanoutResult list" where
  "in_order results ids = List.map_filter (map_of results) ids"

lemma record_all_fold:
  "record_all policy results ids a = fold (\<lambda>x m. Option.bind m (aggregator_Record policy x)) (in_order results ids) (Some a)"
proof (induction ids arbitrary: a)
  case (Cons i ids)
  have none: "fold (\<lambda>x m. Option.bind m (aggregator_Record policy x)) xs None = None" for xs by (induction xs) auto
  show ?case
  proof (cases "map_of results i")
    case None
    with Cons.IH show ?thesis by (simp add: in_order_def List.map_filter_simps)
  next
    case (Some x)
    with Cons.IH none show ?thesis by (cases "aggregator_Record policy x a") (simp_all add: in_order_def List.map_filter_simps)
  qed
qed (simp add: in_order_def List.map_filter_simps)

lemma maximum_Record_selected:
  assumes "maximum_Record x a = Some a'"
  shows "agMax a' = (case quantity x of None \<Rightarrow> agMax a | Some n \<Rightarrow> (case agMax a of None \<Rightarrow> Some n | Some m \<Rightarrow> Some (max m n)))"
    "agSelected a' = (case quantity x of None \<Rightarrow> agSelected a
       | Some n \<Rightarrow> if (case agMax a of None \<Rightarrow> True | Some m \<Rightarrow> n > m) then Some (projr x) else agSelected a)"
  using assms by (auto simp: maximum_Record_def quantity_def split: sum.splits if_splits option.splits)

text \<open>\<open>w\<close> has the greatest quantity \<open>n\<close> of the results, and is the first to have it.\<close>

definition first_maximum :: "fanoutResult list \<Rightarrow> ResponseHolderWrapper \<Rightarrow> int \<Rightarrow> bool" where
  "first_maximum xs w n \<longleftrightarrow>
     (\<exists>pre post. xs = pre @ Inr w # post \<and> quantity (Inr w) = Some n
        \<and> (\<forall>x \<in> set pre. \<forall>m. quantity x = Some m \<longrightarrow> m < n) \<and> (\<forall>x \<in> set post. \<forall>m. quantity x = Some m \<longrightarrow> m \<le> n))"

lemma first_maximum_new:
  assumes "\<forall>y \<in> set xs. \<forall>m. quantity y = Some m \<longrightarrow> m < n" "quantity (Inr w) = Some n"
  shows "first_maximum (xs @ [Inr w]) w n"
  unfolding first_maximum_def using assms by (intro exI [of _ xs] exI [of _ "[]"]) simp

lemma first_maximum_keep:
  assumes "first_maximum xs w n" "\<forall>m. quantity x = Some m \<longrightarrow> m \<le> n"
  shows "first_maximum (xs @ [x]) w n"
proof -
  from assms(1) obtain pre post where "xs = pre @ Inr w # post" "quantity (Inr w) = Some n"
    "\<forall>x \<in> set pre. \<forall>m. quantity x = Some m \<longrightarrow> m < n" "\<forall>x \<in> set post. \<forall>m. quantity x = Some m \<longrightarrow> m \<le> n"
    unfolding first_maximum_def by blast
  with assms(2) show ?thesis unfolding first_maximum_def by (intro exI [of _ pre] exI [of _ "post @ [x]"]) auto
qed

lemma first_maximum_le:
  assumes "first_maximum xs w n" "y \<in> set xs" "quantity y = Some k"
  shows "k \<le> n"
proof -
  from assms(1) obtain pre post where "xs = pre @ Inr w # post" "quantity (Inr w) = Some n"
    "\<forall>x \<in> set pre. \<forall>m. quantity x = Some m \<longrightarrow> m < n" "\<forall>x \<in> set post. \<forall>m. quantity x = Some m \<longrightarrow> m \<le> n"
    unfolding first_maximum_def by blast
  with assms(2,3) show ?thesis by force
qed

lemma maximum_fold:
  assumes "fold (\<lambda>x m. Option.bind m (aggregator_Record DispatchMaximumValue x)) xs (Some new_aggregator) = Some a"
  shows "(agMax a = None \<longleftrightarrow> agSelected a = None) \<and> (agMax a = None \<longleftrightarrow> (\<forall>x \<in> set xs. quantity x = None))
    \<and> (\<forall>n. agMax a = Some n \<longrightarrow> (\<exists>w. agSelected a = Some w \<and> first_maximum xs w n))"
  using assms
proof (induction xs arbitrary: a rule: rev_induct)
  case Nil
  then show ?case by (auto simp: new_aggregator_def)
next
  case (snoc x xs)
  from snoc.prems obtain b where b: "fold (\<lambda>x m. Option.bind m (aggregator_Record DispatchMaximumValue x)) xs (Some new_aggregator) = Some b"
    and r: "maximum_Record x b = Some a"
    by (auto simp: aggregator_Record_def bind_eq_Some_conv)
  note IH = snoc.IH [OF b] and new = maximum_Record_selected [OF r]
  show ?case
  proof (cases "quantity x")
    case None
    then have ext: "first_maximum xs w n \<Longrightarrow> first_maximum (xs @ [x]) w n" for w n by (simp add: first_maximum_keep)
    from None new have "agMax a = agMax b" "agSelected a = agSelected b" by simp_all
    with None IH ext show ?thesis by auto
  next
    case (Some n)
    then obtain w where x: "x = Inr w" by (cases x) (auto simp: quantity_def)
    show ?thesis
    proof (cases "agMax b")
      case None
      with IH have "\<forall>y \<in> set xs. quantity y = None" by simp
      then have "first_maximum (xs @ [x]) w n" using Some x by (simp add: first_maximum_new)
      with None Some new x show ?thesis by auto
    next
      case m: (Some m)
      from IH m obtain v where v: "agSelected b = Some v" "first_maximum xs v m" by blast
      show ?thesis
      proof (cases "n > m")
        case True
        have "first_maximum (xs @ [x]) w n"
          unfolding x using Some x True first_maximum_le [OF v(2)] by (intro first_maximum_new) (auto dest: order_le_less_trans)
        with True Some m new x show ?thesis by auto
      next
        case False
        have "first_maximum (xs @ [x]) v m" using v(2) Some False by (simp add: first_maximum_keep)
        with False Some m new x v show ?thesis by (auto simp: max_def)
      qed
    qed
  qed
qed

lemma fanout_receive_results:
  assumes "\<And>w. nd_ctx_err N w = None" and "fanout_receive F N r param arrival results st = Some (x, st')"
  shows "\<exists>results'. x = Inr results' \<and> set (map fst results') = set (map fst results) \<union> set arrival"
  using assms(2)
proof (induction arrival arbitrary: results st)
  case (Cons i arrival)
  from Cons.prems assms(1) obtain res st1 where "fanout_receive F N r param arrival (AList.update i res results) st1 = Some (x, st')"
    by (auto split: option.splits)
  from Cons.IH [OF this] show ?case by (auto simp: dom_update)
qed (use assms(1) in auto)


section \<open>Integrity\<close>

lemma GetSortedUpstreamIds_sorted:
  assumes "range_order ro" "gm_wf (upstreamStates chain)"
  shows "set (GetSortedUpstreamIds ro keep height chain) = {i. \<exists>s. GetUpstreamState chain i = Some s \<and> keep i s}"
    "sorted_wrt (\<lambda>i j. \<forall>s t. GetUpstreamState chain i = Some s \<longrightarrow> GetUpstreamState chain j = Some t \<longrightarrow> height t \<le> height s)
       (GetSortedUpstreamIds ro keep height chain)"
proof -
  let ?es = "filter (\<lambda>(i, s). keep i s) (ro (upstreamStates chain))"
  have mem: "(i, s) \<in> set ?es \<longleftrightarrow> GetUpstreamState chain i = Some s \<and> keep i s" for i s
    using assms by (auto simp: range_order_set GetUpstreamState_def)
  then show "set (GetSortedUpstreamIds ro keep height chain) = {i. \<exists>s. GetUpstreamState chain i = Some s \<and> keep i s}"
    by (force simp: GetSortedUpstreamIds_def image_iff)
  have "sorted_wrt (\<lambda>x y. - int (unat (height (snd x))) \<le> - int (unat (height (snd y)))) (sort_key (\<lambda>(i, s). - int (unat (height s))) ?es)"
    using sorted_sort_key [of "\<lambda>(i, s). - int (unat (height s))" ?es] by (simp add: sorted_map case_prod_unfold)
  then show "sorted_wrt (\<lambda>i j. \<forall>s t. GetUpstreamState chain i = Some s \<longrightarrow> GetUpstreamState chain j = Some t \<longrightarrow> height t \<le> height s)
       (GetSortedUpstreamIds ro keep height chain)"
    unfolding GetSortedUpstreamIds_def sorted_wrt_map
  proof (rule sorted_wrt_mono_rel [rotated])
    fix x y
    assume xy: "x \<in> set (sort_key (\<lambda>(i, s). - int (unat (height s))) ?es)" "y \<in> set (sort_key (\<lambda>(i, s). - int (unat (height s))) ?es)"
      and le: "- int (unat (height (snd x))) \<le> - int (unat (height (snd y)))"
    from xy mem [of "fst x" "snd x"] mem [of "fst y" "snd y"]
    have "GetUpstreamState chain (fst x) = Some (snd x)" "GetUpstreamState chain (fst y) = Some (snd y)" by auto
    with le show "\<forall>s t. GetUpstreamState chain (fst x) = Some s \<longrightarrow> GetUpstreamState chain (fst y) = Some t \<longrightarrow> height t \<le> height s"
      by (simp add: word_le_def)
  qed
qed



section \<open>Witnesses\<close>

text \<open>Two upstreams: the first answers \<open>null\<close>, the second a quantity. The world keeps the upstreams asked so far.\<close>

type_synonym sample_world = "((chain_sup \<times> (unit, unit) limiter_world) \<times> string list)"

definition sample_flow_ops :: flow_ops where
  "sample_flow_ops = \<lparr>fo_tag = sample_tag_ops, fo_range = id, fo_specs = [], fo_marshal = (\<lambda>_ _ p. Inr p), fo_unmarshal = (\<lambda>_. Inl ''json''),
     fo_utxos = (\<lambda>_. Inl ''json''), fo_unspent = (\<lambda>_. Inl ''json''), fo_member = (\<lambda>_ _. None), fo_param0 = (\<lambda>_. Inl ''json''),
     fo_DecodeUint64 = (\<lambda>s. if s = ''0x5'' then Some 5 else None), LatestBlockNumber = -2, SafeBlockNumber = -4, FinalizedBlockNumber = -3\<rparr>"

definition sample_flow_request :: RequestHolder where
  "sample_flow_request = JsonRpcHolder (NewUpstreamJsonRpcRequest [(''eth'', \<lparr>rsMethods = None, rsConnectors = Some \<lparr>byConnector = [], cmApiConnectors = [JsonRpcConnector]\<rparr>\<rparr>)]
     ''7'' ''1'' ''eth_call'' [] False ''eth'' [])"

definition sample_answer :: "string \<Rightarrow> ResponseHolder" where
  "sample_answer i = GenericResponse (NewSimpleHttpUpstreamResponse ''7'' (if i = ''a'' then ''null'' else quoted ''0x5'') JsonRpc)"

definition sample_nodes :: "sample_world nodes" where
  "sample_nodes =
     \<lparr>nd_upstream = (\<lambda>_ i. if i = ''a'' \<or> i = ''b''
        then Some \<lparr>uoId = i, uoSpec = ''eth'', uoVendor = UnknownVendor, uoHashIndex = ''0000'' @ i, uoConnectors = [JsonRpcConnector]\<rparr> else None),
      nd_state = (\<lambda>_ _. sample_upstream), nd_now = (\<lambda>_. 0), nd_ctx_err = (\<lambda>_. None),
      nd_send = (\<lambda>i _ _ (w, asks). (sample_answer i, (w, asks @ [i])))\<rparr>"

definition sample_executor :: "('s, sample_world) executor" where
  "sample_executor =
     \<lparr>ex_base = \<lparr>fs_inner = (\<lambda>w. (policy_result (None, None), w)), fs_canceled = (\<lambda>_. None), fs_elapsed = (\<lambda>_. 0), fs_wait = (\<lambda>_ w. w),
        fs_next = (\<lambda>(k, x). (Suc k, x)), fs_retries = fst, fs_compute_delay = (\<lambda>_. -1),
        fs_post = (\<lambda>failed onFailure r st. if failed r then onFailure (r\<lparr>prSuccess := False, prSuccessAll := False\<rparr>) st
          else (r\<lparr>prDone := True, prSuccess := True, prSuccessAll := True\<rparr>, st)),
        fs_with_done = (\<lambda>d s r. r\<lparr>prDone := d, prSuccess := s, prSuccessAll := s\<rparr>)\<rparr>,
      ex_delays = sample_delays, ex_values = sample_values, ex_errors = \<lparr>RetryableErrors = [], NonRetryableErrors = []\<rparr>,
      ex_retry = Some sample_retry, ex_wait = (\<lambda>_ w. w)\<rparr>"

definition sample_start :: "sample_world flow_state" where
  "sample_start = \<lparr>fsWorld = ((sample_chain, idle_world), []), fsCalls = []\<rparr>"

abbreviation sample_rated :: "(strategy, sample_world) selector" where
  "sample_rated \<equiv> lift_select (ordered_SelectUpstream idle_ops None [''a'', ''b''])"

lemma sample_execution_ok: "execution_ok sample_executor"
  by (auto simp: execution_ok_def sample_executor_def failsafe_ok_def sample_retry_def in_i64_def option.map_id id_def [symmetric] split: prod.splits option.splits)

lemma sample_parses: "\<exists>p r'. req_ParseParams sample_flow_ops sample_flow_request = Some (p, r')"
proof -
  have "map_option fst (req_ParseParams sample_flow_ops sample_flow_request) = Some None" by code_simp
  then show ?thesis by auto
qed

lemma sample_match_total:
  "GetUpstreamState sample_chain i = Some state \<Longrightarrow> Match None (MultiMatcher (request_matchers [] rq)) i (Some state) \<noteq> None"
  by (rule Match_Multi_total)
    (auto simp: sample_chain_states request_matchers_def sample_upstream_def fresh_upstream_def DefaultUpstreamState_def split: if_splits)

definition sample_good :: "strategy \<Rightarrow> sample_world \<Rightarrow> bool" where
  "sample_good s w \<longleftrightarrow> additionalMatchers s = [] \<and> upOrder s = None \<and> fst (fst w) = sample_chain"

lemma sample_select:
  assumes "sample_good s w"
  shows "\<exists>res s' w'. sample_rated rq (s, w) = Some (res, s', w') \<and> sample_good s' w' \<and> snd w' = snd w \<and> (\<forall>i. res = Inr i \<longrightarrow> i = ''a'' \<or> i = ''b'')"
proof -
  obtain l n where w: "w = ((sample_chain, l), n)" and s: "additionalMatchers s = []" "upOrder s = None"
    using assms by (cases w) (auto simp: sample_good_def)
  from ordered_select_step [of sample_chain None s rq "[''a'', ''b'']" idle_ops l] sample_match_total s
  obtain res s' l' where "ordered_SelectUpstream idle_ops None [''a'', ''b''] rq (s, (sample_chain, l)) = Some (res, s', (sample_chain, l'))"
    "additionalMatchers s' = []" "upOrder s' = None" "\<forall>i. res = Inr i \<longrightarrow> i \<in> set [''a'', ''b'']" by auto
  then show ?thesis by (simp add: lift_select_def w sample_good_def)
qed

lemma sample_ready: "flow_ready sample_good sample_executor sample_flow_ops sample_nodes sample_rated sample_flow_request"
  unfolding flow_ready_def
proof (intro conjI allI impI)
  show "req_SpecMethod sample_flow_request \<noteq> None" by (simp add: sample_flow_request_def NewUpstreamJsonRpcRequest_def)
  show "req_ParseParams sample_flow_ops sample_flow_request \<noteq> None" using sample_parses by auto
next
  fix s w
  assume "sample_good s w"
  from sample_select [OF this, of "request_of sample_flow_request"]
  show "\<exists>res s' w'. sample_rated (request_of sample_flow_request) (s, w) = Some (res, s', w') \<and> sample_good s' w'
      \<and> (\<forall>i. res = Inr i \<longrightarrow> (\<exists>u. nd_upstream sample_nodes w' i = Some u \<and> uoId u = i))"
    by (force simp: sample_nodes_def)
qed (auto simp: sample_good_def sample_nodes_def sample_executor_def split: prod.splits)

lemma sample_log: "send_log snd sample_executor sample_nodes sample_rated rq"
  by (auto simp: send_log_def sample_nodes_def sample_executor_def lift_select_def split: prod.splits)

theorem request_goes_to_each_upstream_once_witness:
  "\<exists>out s' st' asked. executeUnaryRequest sample_executor sample_flow_ops sample_nodes sample_rated sample_flow_request
       (NewSpecificOrderUpstreamStrategy, sample_start) = Some (out, s', st')
     \<and> snd (fsWorld st') = asked \<and> distinct asked \<and> length asked \<le> 5
     \<and> set asked \<subseteq> selectedUpstreams s' \<and> answered sample_flow_request (selectedUpstreams s') asked out"
proof -
  have "sample_good NewSpecificOrderUpstreamStrategy (fsWorld sample_start)"
    by (simp add: sample_good_def sample_start_def NewSpecificOrderUpstreamStrategy_def)
  from request_goes_to_each_upstream_once [OF sample_execution_ok sample_ready sample_log this]
  show ?thesis
    by (simp add: sample_start_def NewSpecificOrderUpstreamStrategy_def retry_limit_def sample_executor_def retries_of_def sample_retry_def)
qed

lemma sample_collects:
  "\<exists>s' w'. collectDispatchUpstreamIDs sample_rated (request_of sample_flow_request) (NewSpecificOrderUpstreamStrategy, fsWorld sample_start)
     = Some (Inr [''a'', ''b''], s', w')"
proof -
  have "map_option fst (collectDispatchUpstreamIDs sample_rated (request_of sample_flow_request)
      (NewSpecificOrderUpstreamStrategy, fsWorld sample_start)) = Some (Inr [''a'', ''b''])" by code_simp
  then show ?thesis by auto
qed


theorem dispatch_reaches_every_upstream_witness:
  "\<exists>l s' w'. collectDispatchUpstreamIDs (lift_select (ordered_SelectUpstream idle_ops (Some (routing_predict None)) [''b'', ''a''])) sample_request
       (sample_strategy, ((sample_chain, idle_world), ())) = Some (Inr l, s', w') \<and> set l = {''a'', ''b''}"
proof -
  have complete: "states_complete sample_chain"
    by (auto simp: states_complete_def sample_chain_states sample_upstream_def fresh_upstream_def DefaultUpstreamState_def split: if_splits)
  have "\<exists>res s' w'. collectDispatchUpstreamIDs (lift_select (ordered_SelectUpstream idle_ops (Some (routing_predict None)) [''b'', ''a''])) sample_request
        (sample_strategy, ((sample_chain, idle_world), ())) = Some (res, s', w')
     \<and> (\<forall>l. res = Inr l \<longrightarrow> distinct l \<and> (\<forall>i \<in> set l. i \<in> set [''b'', ''a'']
          \<and> eligible (Some (routing_predict None)) sample_request sample_chain (additionalMatchers sample_strategy) i))
     \<and> (\<forall>j \<in> set [''b'', ''a'']. eligible (Some (routing_predict None)) sample_request sample_chain (additionalMatchers sample_strategy) j \<longrightarrow>
          unlimited sample_chain j \<longrightarrow> (\<exists>l. res = Inr l \<and> j \<in> set l))"
    by (rule dispatch_reaches_every_upstream [where sels = "[HeightSelector 50]"])
      (simp_all add: complete sample_routing, simp_all add: sample_strategy_def)
  then show ?thesis by (auto simp: sample_strategy_def sample_eligible sample_unlimited)
qed



end
