(* ===== verification/Spec2Isabelle.thy ===== *)
theory Spec2Isabelle
  imports Specs RateLimiter Strategy LowerBoundService Quorum RestPaths Requests ConfigUpstreams Caches Resilience FlowAnswers
begin

text \<open>
  A verification development of \<open>nodecore\<close>, a fault-tolerant gateway in Go between clients and blockchain nodes.

  \<^bold>\<open>The program.\<close> A request arrives over HTTP, WebSocket or gRPC and becomes a request object
  (\<open>internal/protocol\<close>) with a method of the chain's method spec (\<open>pkg/methods\<close>). The flow
  (\<open>internal/upstreams/flow\<close>) looks into the cache (\<open>internal/caches\<close>), asks a strategy for an upstream that matches the
  request's selectors, its method and its rate-limit budget (\<open>internal/ratelimiter\<close>), sends it under retry and hedge
  policies (\<open>internal/resilience\<close>), and encodes or streams the answer (\<open>internal/protocol\<close>, \<open>internal/server\<close>). In the
  background every upstream runs an event loop over its head, bounds, labels and health, and a chain supervisor merges the
  upstreams' states into the state of the chain (\<open>internal/upstreams\<close>).

  \<^bold>\<open>Theories and sources.\<close> Definitions keep the names of the Go functions, records those of the structs.

  \<^item> \<open>Prelude\<close>, \<open>GoStrings\<close>, \<open>PathGlob\<close>: machine integers, Go maps, and the functions of Go's standard library the program
    calls (\<open>strings\<close>, \<open>strconv\<close>, \<open>hex\<close>, \<open>path.Match\<close>).
  \<^item> \<open>Specs\<close>: \<open>pkg/methods\<close> and \<open>upstreams/methods/methods.go\<close>. Accepted specs build their groups, and an upstream offers
    exactly the spec's methods as its configuration changes them.
  \<^item> \<open>Chains\<close>: \<open>pkg/chains\<close>. Chain numbers and names are inverse, extra chains replace nothing.
  \<^item> \<open>ConfigUpstreams\<close>: \<open>internal/config/upstream_config.go\<close> with its defaults. What an accepted configuration guarantees, and
    exactly when reading one panics.
  \<^item> \<open>RateLimiter\<close>: \<open>internal/ratelimiter\<close> and its configuration. A budget admits a request exactly when each matching rule
    does; the locale \<open>rate_limit_engine\<close> is the engine interface.
  \<^item> \<open>Protocol\<close>, \<open>Selectors\<close>: data and events of \<open>internal/protocol\<close>, the request selectors and their keys.
  \<^item> \<open>Requests\<close>, \<open>RestPaths\<close>: requests, their identity and block tag; the trie of REST templates of \<open>pkg/utils/path.go\<close>,
    refined to a list of templates.
  \<^item> \<open>Responses\<close>: answers of upstreams, failures of nodecore, their encoding and classification.
  \<^item> \<open>ResultStream\<close>: the scanner that cuts the result out of a streamed JSON-RPC body and the chunks sent to a gRPC client.
  \<^item> \<open>ForkChoice\<close>, \<open>Upstream\<close>, \<open>ChainSupervisor\<close>: the head of a chain, the event loop of an upstream and the state of a chain,
    as step functions and step relations with invariants. The locale \<open>fork_choice\<close> is what the supervisor relies on.
  \<^item> \<open>Matchers\<close>, \<open>Strategy\<close>: \<open>flow/matchers.go\<close>, \<open>selectors.go\<close>, \<open>strategy.go\<close> and \<open>label_group_strategy.go\<close>. A selected
    upstream fits the request, a servable request is served, an upstream is tried once. The locale \<open>upstream_strategy\<close> is the
    interface of the four strategies.
  \<^item> \<open>LowerBoundService\<close>: the search for the oldest block a node has, the window of detected bounds and the processor.
  \<^item> \<open>Quorum\<close>: the signed message, the parsing of signature headers and the counting of providers.
  \<^item> \<open>Caches\<close>: cache policies, keys and the three connectors; the locale \<open>cache_connector\<close> is the connector interface.
  \<^item> \<open>Resilience\<close>: the retry executor, the flow's retry policy, and the parallel hedge as a step relation.
  \<^item> \<open>FlowProcessors\<close>: the request processors of \<open>internal/upstreams/flow\<close> (unary, sticky, local, cache, not-null, fan-out and
    integrity), \<open>sendUnaryRequest\<close> with the method translation, and the ban of unsupported methods; definitions only. A strategy is
    any function of the type of the interface, connectors are a function that may change the world.
  \<^item> \<open>FlowAnswers\<close>: what the processors guarantee. In the locale \<open>upstream_strategy\<close>: a request is answered and goes to each
    upstream once, whatever the connectors answer. A dispatch reaches every upstream that can serve it; the answers of
    the not-null and maximum-value dispatches are the ones described; when the integrity check asks again, and when it panics.

  \<^bold>\<open>Conventions.\<close> A Go panic and a nil dereference are the value \<open>None\<close>; errors are values. \<open>uint64\<close> is \<open>64 word\<close>, \<open>int64\<close> is an
  \<open>int\<close> brought back into range by \<open>wrap64\<close> where overflow matters. A Go map is an association list with distinct
  keys, and each loop over one takes the order of iteration as an argument; the lemmas hold for every order. Code outside the
  repository (the JSON and hash libraries, Redis, PostgreSQL, the LRU cache, \<open>failsafe-go\<close>, cryptography, the YAML and jq
  libraries, generated tables) is a record of functions, and what the code relies on is a named predicate such as \<open>lru_ok\<close>,
  \<open>failsafe_ok\<close> or \<open>generated_ok\<close>, shown satisfiable by the witnesses. Time is an argument.

  \<^bold>\<open>Bounds and termination.\<close> There is no fuel: loops are structural recursions or functions with a measure, except
  the bound search, the retry loop and the loop that collects the upstreams of a dispatch, which may run forever and are
  partial functions; that they return is proved under the conditions that make it true. Concurrency is a step relation where goroutines share state (the upstream's loop,
  the supervisor, the hedge) and absent where a mutex or a channel makes an operation atomic.

  \<^bold>\<open>Not modelled.\<close> In the flow, the choice of strategy and processor for a request (\<open>execution_flow.go\<close>) and the streaming of
  subscriptions, and the executor with a hedge policy around the retries (the hedge is modelled on its own). The servers, connectors and WebSocket client, which drive network libraries; the per-chain probes
  (chain specifics, detectors, validators, chain bounds), which are requests and JSON decoding; authentication, statistics,
  rating and integrations, whose work is done by external services and libraries; logging, metrics and process start-up;
  generated code.
\<close>

end
